(* ===== verification/Prelude.thy ===== *)
theory Prelude
  imports Complex_Main "HOL-Library.Product_Lexorder" "HOL-Library.List_Lexorder"
    "HOL-Library.Char_ord" "HOL-Library.Multiset"
begin

text \<open>
  Shared vocabulary of the development: the types that stand for Python's UUIDs and
  datetimes, the errors the services raise, the tables of the database as lists of rows,
  and the list lemmas that carry the proofs of the components.  The collection \<open>sys_ok\<close> is filled
  by the components with what their operations keep of the invariants that span them; the root
  theory uses it through \<open>intro:\<close>.
\<close>

section \<open>Named collections\<close>

named_theorems sys_ok "operations keep the invariants that span the components"

section \<open>Types of the model\<close>

text \<open>
  A UUID is a 128-bit number, here a natural number (the order of the primary keys is the
  order of the numbers).  A \<open>datetime\<close> is a point in UTC counted in microseconds, the
  resolution of Python's \<open>datetime\<close>; the helpers \<open>_to_utc_or_none\<close> of the source, which only
  normalise the time zone, are the identity on it.
\<close>

type_synonym uuid = nat
type_synonym time = int

definition usec :: "int \<Rightarrow> time" where
  "usec s = s * 1000000"

definition minutes :: "int \<Rightarrow> time" where
  "minutes m = usec (m * 60)"

definition hours :: "int \<Rightarrow> time" where
  "hours h = usec (h * 3600)"

definition days :: "int \<Rightarrow> time" where
  "days d = usec (d * 86400)"

lemma usec_le [simp]: "usec a \<le> usec b \<longleftrightarrow> a \<le> b"
  by (simp add: usec_def)

lemma usec_less [simp]: "usec a < usec b \<longleftrightarrow> a < b"
  by (simp add: usec_def)

lemma usec_nonneg [simp]: "0 \<le> usec a \<longleftrightarrow> 0 \<le> a"
  by (simp add: usec_def)

lemma usec_pos [simp]: "0 < usec a \<longleftrightarrow> 0 < a"
  by (simp add: usec_def)

lemma hours_pos [simp]: "0 < hours h \<longleftrightarrow> 0 < h"
  by (simp add: hours_def)

lemma minutes_pos [simp]: "0 < minutes m \<longleftrightarrow> 0 < m"
  by (simp add: minutes_def)

text \<open>
  What a handler raises.  \<open>HTTPException\<close> carries the status code and the detail;
  \<open>IntegrityError\<close> is what the database raises when a statement breaks a check or unique
  constraint; \<open>ValidationError\<close> is what a pydantic model raises when a field is out of the
  range of its \<open>Field\<close>; the others are the Python errors the services raise themselves.
\<close>

datatype api_error =
    HTTPException int string
  | IntegrityError string
  | ValidationError string
  | LookupError string
  | ValueError string
  | ConflictError string
  | RuntimeError string

type_synonym 'a result = "api_error + 'a"

section \<open>Tables\<close>

text \<open>
  A table is the list of its rows in the order the database returns them when a query has
  no \<open>ORDER BY\<close>.  An \<open>ORDER BY\<close> is a stable sort on that list.
\<close>

definition update_where :: "('r \<Rightarrow> bool) \<Rightarrow> ('r \<Rightarrow> 'r) \<Rightarrow> 'r list \<Rightarrow> 'r list" where
  "update_where P f t = map (\<lambda>r. if P r then f r else r) t"

definition delete_where :: "('r \<Rightarrow> bool) \<Rightarrow> 'r list \<Rightarrow> 'r list" where
  "delete_where P t = filter (\<lambda>r. \<not> P r) t"

definition limit_rows :: "nat option \<Rightarrow> 'r list \<Rightarrow> 'r list" where
  "limit_rows n t = (case n of None \<Rightarrow> t | Some k \<Rightarrow> take k t)"

lemma length_update_where [simp]: "length (update_where P f t) = length t"
  by (simp add: update_where_def)

lemma update_where_Nil [simp]: "update_where P f [] = []"
  by (simp add: update_where_def)

lemma update_where_Cons [simp]:
  "update_where P f (r # t) = (if P r then f r else r) # update_where P f t"
  by (simp add: update_where_def)

lemma update_where_append [simp]:
  "update_where P f (s @ t) = update_where P f s @ update_where P f t"
  by (simp add: update_where_def)

lemma find_update_where_hit:
  "(\<And>x. P (f x) = P x) \<Longrightarrow> find P (update_where P f t) = map_option f (find P t)"
  by (induction t) auto

lemma set_update_where:
  "set (update_where P f t) = f ` {r \<in> set t. P r} \<union> {r \<in> set t. \<not> P r}"
  by (auto simp: update_where_def image_iff)

lemma update_where_cong:
  assumes "\<And>r. r \<in> set t \<Longrightarrow> P r = Q r" and "\<And>r. r \<in> set t \<Longrightarrow> P r \<Longrightarrow> f r = g r"
  shows "update_where P f t = update_where Q g t"
  using assms by (auto simp: update_where_def)

lemma update_where_none:
  "(\<And>r. r \<in> set t \<Longrightarrow> \<not> P r) \<Longrightarrow> update_where P f t = t"
  by (induction t) auto

lemma map_update_where_same:
  "(\<And>r. r \<in> set t \<Longrightarrow> P r \<Longrightarrow> g (f r) = g r) \<Longrightarrow> map g (update_where P f t) = map g t"
  by (auto simp: update_where_def)

lemma list_all_update_where:
  "list_all I t \<Longrightarrow> (\<And>r. r \<in> set t \<Longrightarrow> I r \<Longrightarrow> P r \<Longrightarrow> I (f r)) \<Longrightarrow> list_all I (update_where P f t)"
  by (induction t) auto

lemma filter_update_where_other:
  "(\<And>r. r \<in> set t \<Longrightarrow> P r \<Longrightarrow> \<not> Q r \<and> \<not> Q (f r)) \<Longrightarrow>
   filter Q (update_where P f t) = filter Q t"
  by (induction t) auto

lemma length_filter_update_where_same:
  "(\<And>r. r \<in> set t \<Longrightarrow> P r \<Longrightarrow> Q (f r) = Q r) \<Longrightarrow>
   length (filter Q (update_where P f t)) = length (filter Q t)"
  by (induction t) auto

lemma set_delete_where [simp]: "set (delete_where P t) = {r \<in> set t. \<not> P r}"
  by (auto simp: delete_where_def)

lemma set_limit_rows: "set (limit_rows n t) \<subseteq> set t"
  by (auto simp: limit_rows_def dest: in_set_takeD split: option.splits)

lemma length_limit_rows: "length (limit_rows (Some k) t) = min k (length t)"
  by (simp add: limit_rows_def)

section \<open>Strings\<close>

text \<open>
  Python's \<open>strip\<close>, \<open>lower\<close> and the truth value of an optional string, on ASCII text.
\<close>

definition is_space :: "char \<Rightarrow> bool" where
  "is_space c \<longleftrightarrow> c = CHR '' '' \<or> (9 \<le> (of_char c :: nat) \<and> (of_char c :: nat) \<le> 13) \<or>
     (28 \<le> (of_char c :: nat) \<and> (of_char c :: nat) \<le> 31)"

definition py_strip :: "string \<Rightarrow> string" where
  "py_strip xs = rev (dropWhile is_space (rev (dropWhile is_space xs)))"

definition lower_char :: "char \<Rightarrow> char" where
  "lower_char c =
     (if 65 \<le> (of_char c :: nat) \<and> (of_char c :: nat) \<le> 90 then char_of ((of_char c :: nat) + 32) else c)"

definition py_lower :: "string \<Rightarrow> string" where
  "py_lower xs = map lower_char xs"

definition truthy :: "string option \<Rightarrow> bool" where
  "truthy x = (case x of None \<Rightarrow> False | Some v \<Rightarrow> v \<noteq> [])"

lemma truthy_simps [simp]: "truthy None = False" "truthy (Some v) = (v \<noteq> [])"
  by (simp_all add: truthy_def)

section \<open>Fields of a partial update\<close>

text \<open>A field of a pydantic model that the request may leave out (\<open>model_fields_set\<close>).\<close>

datatype 'a field = Unset | Given 'a

section \<open>Lists\<close>

lemma find_Some_mem: "find P xs = Some x \<Longrightarrow> x \<in> set xs \<and> P x"
  by (auto simp: find_Some_iff)

lemma find_None_all: "find P xs = None \<longleftrightarrow> (\<forall>x \<in> set xs. \<not> P x)"
  by (auto simp: find_None_iff)

lemma distinct_map_inj_on_filter:
  "distinct (map f xs) \<Longrightarrow> distinct (map f (filter P xs))"
  by (rule distinct_map_filter)

lemma distinct_map_unique:
  "distinct (map f xs) \<Longrightarrow> x \<in> set xs \<Longrightarrow> y \<in> set xs \<Longrightarrow> f x = f y \<Longrightarrow> x = y"
  by (auto simp: distinct_map dest: inj_onD)

lemma find_distinct:
  "distinct (map f xs) \<Longrightarrow> x \<in> set xs \<Longrightarrow> find (\<lambda>y. f y = f x) xs = Some x"
  by (induction xs) (auto dest: image_eqI)

lemma length_takeWhile_le_iff:
  "n \<le> length (takeWhile P xs) \<longleftrightarrow> n \<le> length xs \<and> (\<forall>x \<in> set (take n xs). P x)"
proof (induction xs arbitrary: n)
  case Nil
  then show ?case by auto
next
  case (Cons x xs)
  then show ?case by (cases n) auto
qed

text \<open>The number of leading elements that satisfy a predicate: the counting loops that \<open>break\<close>.\<close>

fun count_leading :: "('a \<Rightarrow> bool) \<Rightarrow> 'a list \<Rightarrow> nat" where
  "count_leading P [] = 0"
| "count_leading P (x # xs) = (if P x then Suc (count_leading P xs) else 0)"

lemma count_leading_takeWhile: "count_leading P xs = length (takeWhile P xs)"
  by (induction xs) auto

lemma count_leading_le: "count_leading P xs \<le> length xs"
  by (induction xs) auto

lemma count_leading_ge_iff:
  "n \<le> count_leading P xs \<longleftrightarrow> n \<le> length xs \<and> (\<forall>x \<in> set (take n xs). P x)"
  by (simp add: count_leading_takeWhile length_takeWhile_le_iff)

text \<open>The sizes of the groups of a \<open>GROUP BY\<close> add up to the number of rows.\<close>

lemma sum_group_counts:
  "sum_list (map (\<lambda>g. length (filter (\<lambda>x. x = g) xs)) (remdups xs)) = length xs"
proof -
  have "count_list xs = (\<lambda>g. length (filter (\<lambda>x. x = g) xs))"
    by (rule ext) (induction xs, auto)
  then have "sum_list (map (\<lambda>g. length (filter (\<lambda>x. x = g) xs)) (remdups xs)) = sum (count_list xs) (set xs)"
    by (simp add: sum_code)
  also have "\<dots> = length xs"
    using size_multiset_overloaded_eq [of "mset xs"] by (simp add: count_mset)
  finally show ?thesis .
qed

text \<open>Python's \<open>min(candidates, key=...)\<close>: the first element with the least key.\<close>

fun min_by :: "('a \<Rightarrow> 'k::linorder) \<Rightarrow> 'a list \<Rightarrow> 'a option" where
  "min_by k [] = None"
| "min_by k (x # xs) =
     (case min_by k xs of None \<Rightarrow> Some x | Some y \<Rightarrow> if k x \<le> k y then Some x else Some y)"

lemma min_by_None [simp]: "min_by k xs = None \<longleftrightarrow> xs = []"
  by (cases xs) (auto split: option.splits)

lemma min_by_mem: "min_by k xs = Some x \<Longrightarrow> x \<in> set xs"
  by (induction xs arbitrary: x) (auto split: option.splits if_splits)

lemma min_by_least: "min_by k xs = Some x \<Longrightarrow> y \<in> set xs \<Longrightarrow> k x \<le> k y"
proof (induction xs arbitrary: x y)
  case Nil
  then show ?case by simp
next
  case (Cons z xs)
  show ?case
  proof (cases "min_by k xs")
    case None
    with Cons.prems show ?thesis by simp
  next
    case (Some w)
    with Cons.IH [OF Some] Cons.prems show ?thesis
      by (auto split: if_splits dest: order_trans intro: le_cases)
  qed
qed

lemma min_by_Some: "xs \<noteq> [] \<Longrightarrow> \<exists>x. min_by k xs = Some x \<and> x \<in> set xs"
  by (metis min_by_None min_by_mem not_None_eq)

section \<open>Stability under steps\<close>

text \<open>
  The interface of a component seen as a state machine: the states it may start in, its
  steps, and a predicate that every step keeps.  The conclusion is what every client uses:
  the predicate holds in every state the machine can reach.
\<close>

locale step_invariant =
  fixes init :: "'s \<Rightarrow> bool"
    and step :: "'s \<Rightarrow> 's \<Rightarrow> bool"
    and inv :: "'s \<Rightarrow> bool"
  assumes init_inv: "init s \<Longrightarrow> inv s"
    and step_inv: "inv s \<Longrightarrow> step s t \<Longrightarrow> inv t"
begin

lemma steps_inv: "step\<^sup>*\<^sup>* s t \<Longrightarrow> inv s \<Longrightarrow> inv t"
  by (induction rule: rtranclp_induct) (auto intro: step_inv)

lemma reachable_inv: "init s \<Longrightarrow> step\<^sup>*\<^sup>* s t \<Longrightarrow> inv t"
  by (blast intro: steps_inv init_inv)

end

end
