(* ===== verification/Models.thy ===== *)
theory Models
  imports Prelude
begin

text \<open>
  The rows of the database, one record per SQLAlchemy model, and the record \<open>db\<close> of all the
  tables the modelled services read and write.  Columns keep the names of the source where
  they are unique; a column whose name several models share carries the model's prefix.
  Every model extends \<open>base\<close>, as every model class of the source extends \<open>Base\<close>.
\<close>

section \<open>shared/database/base_model.py\<close>

record base =
  row_id :: uuid
  created_at :: time
  updated_at :: time
  is_active :: bool

section \<open>services/nodes/models.py, services/nodes/schemas.py\<close>

record vpn_node = base +
  node_name :: string
  role :: string
  region :: string
  public_domain :: string
  reality_ip :: "string option"
  internal_wg_ip :: string
  node_key :: "string option"
  xray_api_port :: int
  auth_token_hash :: string
  agent_port :: int
  is_enabled :: bool
  is_draining :: bool
  is_virtual :: bool
  drain_source :: "string option"
  capacity :: int
  zone :: "string option"
  upstream_node_id :: "uuid option"
  bootstrap_token_expires_at :: "time option"
  bootstrapped_at :: "time option"
  wg_public_key :: "string option"
  wg_listen_port :: "int option"

record heartbeat_meta =
  consecutive_unhealthy :: int
  consecutive_healthy :: int
  drain_reason :: "string option"
  drained_at :: "time option"

record heartbeat_runtime =
  ready :: bool
  runtime_last_error :: "string option"

record heartbeat_stats =
  poll_count :: int
  stats_applied :: int
  stats_failed :: int
  cpu_pct :: "rat option"
  mem_pct :: "rat option"
  bandwidth_pct :: "rat option"

record heartbeat_pool =
  slots_total :: int
  slots_active :: int
  desired_backends :: int
  dropped_overflow :: int
  pool_last_apply_ok :: bool
  pool_last_apply_error :: "string option"
  pool_consecutive_apply_failures :: int
  last_applied_generation :: int
  pool_last_applied_at :: "time option"

record heartbeat_upstream =
  configured :: bool
  upstream_last_apply_ok :: bool
  upstream_last_apply_error :: "string option"
  upstream_consecutive_apply_failures :: int
  hu_upstream_node_id :: "string option"
  upstream_host :: "string option"
  upstream_addr :: "string option"
  upstream_last_applied_at :: "time option"

record mesh_peer =
  peer_public_key :: string
  handshake_age_sec :: int
  handshake_ok :: bool
  rx_bytes :: int
  tx_bytes :: int

record heartbeat_mesh =
  peers_total :: int
  peers_healthy :: int
  oldest_handshake_age_sec :: int
  peers :: "mesh_peer list"

record sync_details =
  synced_count :: int
  reported_at :: time
  inventory_hash :: "string option"
  inventory_count :: "int option"
  full_resync_completed :: "bool option"

text \<open>
  The JSON document \<open>NodeAgentState.details\<close>: the keys \<open>NodeAgentDetails\<close> declares and the
  key \<open>heartbeat\<close> (an extra of that model), each absent or present.
\<close>

record agent_details =
  d_runtime :: "heartbeat_runtime option"
  d_stats :: "heartbeat_stats option"
  d_sync :: "sync_details option"
  d_pool :: "heartbeat_pool option"
  d_upstream :: "heartbeat_upstream option"
  d_mesh :: "heartbeat_mesh option"
  d_heartbeat :: "heartbeat_meta option"

record node_agent_state = base +
  nas_node_id :: uuid
  agent_version :: string
  last_config_version :: int
  last_sync_at :: "time option"
  last_seen_at :: "time option"
  is_healthy :: bool
  details :: agent_details

record node_agent_identity = base +
  nai_node_id :: uuid
  agent_instance_id :: uuid
  nai_auth_token_hash :: string
  prev_auth_token_hash :: "string option"
  prev_auth_token_valid_until :: "time option"
  full_resync_required :: bool
  last_bootstrap_at :: "time option"

section \<open>services/routes/models.py, services/routes/schemas.py\<close>

datatype RouteHealthStatus = healthy | degraded | suspected | blocked | warming_up

datatype RouteHealthAction = block | recover | set_healthy | set_degraded | set_suspected

datatype RouteWarmupTickResult = advanced | finalized

record transport_profile = base +
  tp_name :: string
  tp_protocol :: string
  tp_network :: string
  tp_security :: string
  tp_flow :: "string option"
  reality_public_key :: "string option"
  reality_short_id :: "string option"
  reality_server_name :: "string option"
  tls_fingerprint :: string
  grpc_service_name :: "string option"
  tp_port :: int

record route = base +
  route_name :: string
  route_node_id :: uuid
  entry_node_id :: "uuid option"
  transport_profile_id :: uuid
  health_status :: RouteHealthStatus
  base_weight :: int
  effective_weight :: int
  cooldown_until :: "time option"
  warmup_stage :: "nat option"
  warmup_started_at :: "time option"

section \<open>services/placements/models.py, services/vpn/keys/models.py\<close>

datatype PlacementDesiredState = ds_active | ds_inactive

datatype PlacementAppliedState = as_pending | as_applied | as_error

record user_placement = base +
  key_id :: uuid
  backend_node_id :: uuid
  desired_state :: PlacementDesiredState
  applied_state :: PlacementAppliedState
  op_version :: int
  applied_version :: int
  sticky_until :: "time option"
  last_migration_reason :: "string option"

text \<open>
  The columns \<open>protocol\<close> and \<open>transport\<close> hold the values of the enums \<open>VpnProtocol\<close> and
  \<open>VpnTransport\<close>, whose values \<open>TransportProtocol\<close> and \<open>TransportVpnTransport\<close> share.
\<close>

datatype VpnProtocol = vp_vless

datatype VpnTransport = vt_ws | vt_xhttp | vt_tcp | vt_reality

record vpn_key = base +
  key_user_id :: uuid
  key_protocol :: VpnProtocol
  key_transport :: VpnTransport
  client_id :: string
  valid_until :: time
  traffic_limit_mb :: int
  used_traffic_bytes :: int
  is_revoked :: bool
  subscription_id :: "uuid option"
  entry_routing_override_backend_tag :: "string option"

section \<open>services/entry/models.py\<close>

record entry_backend_assignment = base +
  eba_entry_node_id :: uuid
  eba_backend_node_id :: uuid
  eba_weight :: int
  eba_enabled :: bool
  eba_rank :: int

section \<open>services/vpn/subscriptions/models.py: where the devices were sent\<close>

record subscription_route_assignment = base +
  sra_subscription_id :: uuid
  sra_device_id :: uuid
  sra_transport :: string
  sra_entry_node_id :: uuid
  sra_backend_node_id :: uuid
  sra_route_id :: "uuid option"
  sra_last_assigned_at :: time
  sra_assignment_count :: int

section \<open>services/probe/models.py\<close>

datatype probe_value = PStr string | PInt int | PFloat rat | PBool bool | PNone

record probe_signal = base +
  ps_node_id :: uuid
  ps_route_id :: "uuid option"
  ps_transport_profile_id :: "uuid option"
  ps_transport_kind :: "string option"
  ps_probe_kind :: string
  ps_target_host :: "string option"
  ps_target_port :: "int option"
  ps_error_phase :: "string option"
  ps_source :: string
  ps_is_reachable :: bool
  ps_latency_ms :: "int option"
  ps_error :: "string option"
  ps_checked_at :: time
  ps_details :: "(string \<times> probe_value) list"

section \<open>services/traffic/nodes/models.py\<close>

record node_traffic_usage = base +
  ntu_entry_node_id :: "uuid option"
  ntu_backend_node_id :: "uuid option"
  ntu_bytes_in :: int
  ntu_bytes_out :: int
  ntu_active_sessions :: int
  ntu_total_sessions :: int

section \<open>services/alerts/models.py\<close>

text \<open>
  The deduplication key is an f-string, here a datatype with one constructor per f-string.
  The columns \<open>title\<close> and \<open>body\<close> hold presentation text only and have no field.
\<close>

datatype dedup_key =
    NodeDownKey uuid
  | MeshDegradedKey uuid
  | RouteBlockedKey uuid
  | ProbeKey string uuid "uuid option"
  | NatsKey string

record alert_event = base +
  al_level :: string
  al_source :: string
  al_dedup_key :: "dedup_key option"
  al_entity_id :: "uuid option"
  al_occurrences :: int
  al_last_seen_at :: time
  al_read_at :: "time option"
  al_resolved_at :: "time option"
  al_dismissed_at :: "time option"
  al_telegram_sent_at :: "time option"

section \<open>services/nodes/policy/models.py, services/probe/policy/models.py\<close>

record node_policy =
  stale_after_sec :: int
  heartbeat_unhealthy_drain_threshold :: int
  heartbeat_healthy_undrain_threshold :: int
  auto_heal_enabled :: bool
  auto_heal_tick_sec :: int
  auto_heal_max_nodes :: int
  auto_heal_drain_cooldown_sec :: int
  auto_undrain_enabled :: bool
  placement_error_retry_enabled :: bool
  placement_error_retry_tick_sec :: int
  placement_error_retry_after_sec :: int
  placement_rebalance_enabled :: bool
  placement_rebalance_tick_sec :: int
  placement_rebalance_batch_size :: int
  entry_apply_fail_threshold :: int
  entry_apply_fail_unhealthy :: bool
  entry_auto_drain_enabled :: bool
  entry_auto_drain_tick_sec :: int
  entry_auto_drain_probe_failures :: int
  entry_auto_drain_max_nodes :: int
  entry_auto_drain_reason :: string
  entry_auto_undrain_enabled :: bool
  entry_auto_undrain_healthy_ticks :: int

record probe_policy =
  auto_route_health_enabled :: bool
  route_suspected_after_failures :: int
  route_degraded_after_failures :: int
  route_block_after_failures :: int
  route_block_cooldown_hours :: int
  auto_drain_enabled :: bool
  auto_drain_tick_sec :: int
  auto_drain_min_consecutive_failures :: int
  auto_drain_max_probe_age_sec :: int
  auto_drain_max_nodes :: int
  auto_drain_source :: "string option"
  auto_drain_require_recent_failure :: bool
  auto_drain_include_already_draining :: bool
  auto_drain_target_backend_id :: "uuid option"
  auto_drain_last_migration_reason :: string
  probe_auto_undrain_enabled :: bool
  auto_undrain_min_consecutive_successes :: int
  auto_undrain_max_probe_age_sec :: int
  auto_undrain_source :: "string option"
  retention_days :: int
  cleanup_enabled :: bool
  cleanup_tick_sec :: int
  synthetic_reconcile_enabled :: bool
  synthetic_reconcile_tick_sec :: int
  synthetic_key_valid_days :: int
  synthetic_key_traffic_limit_mb :: int

section \<open>services/nodes/agent: messages to the node agents\<close>

text \<open>
  A message id is an f-string in the source; since UUIDs, versions and timestamps render
  injectively and the fields are separated by colons, it is a datatype here, one constructor
  per f-string.
\<close>

datatype message_id =
    PlacementCommandId uuid int
  | EntryPlacementCommandId uuid int uuid
  | UpstreamChangedId uuid uuid time
  | PoolChangedId uuid int uuid

datatype subject =
    CommandsSubject uuid
  | UpstreamSubject uuid
  | PoolSubject uuid

datatype event_type = placement_command | upstream_changed | pool_changed

record command_payload =
  cp_placement_id :: uuid
  cp_key_id :: uuid
  cp_node_id :: uuid
  cp_backend_node_id :: uuid
  cp_op_version :: int
  cp_desired_state :: PlacementDesiredState
  cp_protocol :: VpnProtocol
  cp_transport :: VpnTransport
  cp_client_id :: string
  cp_is_revoked :: bool
  cp_valid_until :: time
  cp_updated_at :: time
  cp_override_backend_tag :: "string option"

record upstream_payload =
  up_event_id :: uuid
  up_node_id :: uuid
  up_emitted_at :: time
  up_upstream_node_id :: uuid
  up_upstream_name :: string
  up_upstream_public_domain :: string
  up_upstream_reality_ip :: "string option"
  up_upstream_internal_wg_ip :: string
  up_upstream_agent_port :: int

record relay_backend =
  rb_id :: uuid
  rb_address :: string
  rb_port :: int
  rb_weight :: int
  rb_enabled :: bool
  rb_rank :: int

record relay_pool =
  pool_entry_id :: uuid
  pool_generation :: int
  pool_ttl_seconds :: int
  pool_backends :: "relay_backend list"

record pool_payload =
  pp_event_id :: uuid
  pp_node_id :: uuid
  pp_emitted_at :: time
  pp_pool :: relay_pool

datatype payload =
    CommandPayload command_payload
  | UpstreamPayload upstream_payload
  | PoolPayload pool_payload

datatype outbox_status = ob_pending | ob_publishing | ob_published | ob_failed

record outbox_row = base +
  ob_node_id :: uuid
  ob_event_type :: event_type
  ob_aggregate_id :: "uuid option"
  ob_op_version :: "int option"
  ob_subject :: subject
  ob_payload :: payload
  ob_message_id :: message_id
  ob_status :: outbox_status
  ob_attempts :: int
  ob_published_at :: "time option"
  ob_last_error :: "string option"
  ob_next_retry_at :: "time option"

text \<open>The column \<open>payload\<close> of the event log stores a copy of the message and is never read.\<close>

record event_log_row = base +
  el_node_id :: uuid
  el_event_type :: string
  el_event_id :: string
  el_subject :: "string option"
  el_processed_at :: time

record transport_state = base +
  ts_node_id :: uuid
  current_epoch :: int
  last_snapshot_id :: "string option"
  last_snapshot_request_event_id :: "string option"
  last_snapshot_requested_at :: "time option"
  last_snapshot_generated_at :: "time option"
  last_snapshot_reason :: "string option"
  last_command_published_at :: "time option"
  last_command_message_id :: "message_id option"
  last_result_received_at :: "time option"
  last_result_event_id :: "string option"
  last_heartbeat_received_at :: "time option"
  last_sync_report_received_at :: "time option"

section \<open>The database\<close>

text \<open>
  \<open>uuid_supply\<close> is where \<open>uuid4()\<close> takes its values: a counter, since what the code relies on
  is that no value is drawn twice.  The policy tables hold one row each (the migrations
  insert it and the services read \<open>list(limit=1)[0]\<close>).
\<close>

record db =
  nodes :: "vpn_node list"
  agent_states :: "node_agent_state list"
  identities :: "node_agent_identity list"
  profiles :: "transport_profile list"
  routes :: "route list"
  placements :: "user_placement list"
  vpn_keys :: "vpn_key list"
  assignments :: "entry_backend_assignment list"
  route_assignments :: "subscription_route_assignment list"
  signals :: "probe_signal list"
  node_traffic :: "node_traffic_usage list"
  alerts :: "alert_event list"
  outbox :: "outbox_row list"
  event_log :: "event_log_row list"
  transport_states :: "transport_state list"
  the_node_policy :: node_policy
  the_probe_policy :: probe_policy
  uuid_supply :: uuid

definition uuid4 :: "db \<Rightarrow> uuid \<times> db" where
  "uuid4 s = (uuid_supply s, s\<lparr>uuid_supply := Suc (uuid_supply s)\<rparr>)"

text \<open>The rows the policy tables start with: the server defaults of the columns.\<close>

definition default_node_policy :: node_policy where
  "default_node_policy =
     \<lparr>stale_after_sec = 90, heartbeat_unhealthy_drain_threshold = 5,
      heartbeat_healthy_undrain_threshold = 3, auto_heal_enabled = False, auto_heal_tick_sec = 60,
      auto_heal_max_nodes = 20, auto_heal_drain_cooldown_sec = 180, auto_undrain_enabled = False,
      placement_error_retry_enabled = True, placement_error_retry_tick_sec = 120,
      placement_error_retry_after_sec = 120, placement_rebalance_enabled = False,
      placement_rebalance_tick_sec = 120, placement_rebalance_batch_size = 200,
      entry_apply_fail_threshold = 3, entry_apply_fail_unhealthy = True,
      entry_auto_drain_enabled = True, entry_auto_drain_tick_sec = 60,
      entry_auto_drain_probe_failures = 3, entry_auto_drain_max_nodes = 50,
      entry_auto_drain_reason = ''entry_auto_drain'', entry_auto_undrain_enabled = True,
      entry_auto_undrain_healthy_ticks = 3\<rparr>"

definition default_probe_policy :: probe_policy where
  "default_probe_policy =
     \<lparr>auto_route_health_enabled = True, route_suspected_after_failures = 2,
      route_degraded_after_failures = 3, route_block_after_failures = 4,
      route_block_cooldown_hours = 6, auto_drain_enabled = False, auto_drain_tick_sec = 120,
      auto_drain_min_consecutive_failures = 2, auto_drain_max_probe_age_sec = 600,
      auto_drain_max_nodes = 20, auto_drain_source = None, auto_drain_require_recent_failure = True,
      auto_drain_include_already_draining = False, auto_drain_target_backend_id = None,
      auto_drain_last_migration_reason = ''probe_auto_failure'', probe_auto_undrain_enabled = False,
      auto_undrain_min_consecutive_successes = 2, auto_undrain_max_probe_age_sec = 600,
      auto_undrain_source = None, retention_days = 3, cleanup_enabled = True,
      cleanup_tick_sec = 3600, synthetic_reconcile_enabled = False,
      synthetic_reconcile_tick_sec = 300, synthetic_key_valid_days = 3650,
      synthetic_key_traffic_limit_mb = 102400\<rparr>"

definition empty_db :: db where
  "empty_db =
     \<lparr>nodes = [], agent_states = [], identities = [], profiles = [], routes = [], placements = [],
      vpn_keys = [], assignments = [], route_assignments = [], signals = [], node_traffic = [], alerts = [], outbox = [], event_log = [],
      transport_states = [], the_node_policy = default_node_policy,
      the_probe_policy = default_probe_policy, uuid_supply = 1000\<rparr>"

lemma empty_db_sel [simp]:
  "nodes empty_db = []" "agent_states empty_db = []" "identities empty_db = []"
  "profiles empty_db = []" "routes empty_db = []" "placements empty_db = []"
  "vpn_keys empty_db = []" "assignments empty_db = []" "signals empty_db = []"
  "node_traffic empty_db = []" "route_assignments empty_db = []"
  "alerts empty_db = []" "outbox empty_db = []" "event_log empty_db = []"
  "transport_states empty_db = []" "the_node_policy empty_db = default_node_policy"
  "the_probe_policy empty_db = default_probe_policy" "uuid_supply empty_db = 1000"
  by (simp_all add: empty_db_def)

lemma uuid4_simps [simp]:
  "fst (uuid4 s) = uuid_supply s" "snd (uuid4 s) = s\<lparr>uuid_supply := Suc (uuid_supply s)\<rparr>"
  by (simp_all add: uuid4_def)

end
