(* ===== verification/Repository.thy ===== *)
theory Repository
  imports Models
begin

text \<open>
  \<open>shared/database/base_repository.py\<close>: the statements every repository inherits, on a
  table of rows that extend \<open>base\<close>; the interface other components rely on, as a locale; and
  its interpretation on these statements.

  An \<open>UPDATE\<close> sets \<open>updated_at\<close> unless the statement gives a value for it (the column's
  \<open>onupdate\<close>), so the row function of an update carries the new \<open>updated_at\<close>.  Primary keys
  are unique, so \<open>scalar_one_or_none\<close> on an id is the row with that id or \<open>None\<close>.
\<close>

section \<open>BaseRepository\<close>

text \<open>\<open>list\<close>: newest id first; a limit of 0 is no limit (\<open>if limit:\<close>).\<close>

definition list_rows :: "nat option \<Rightarrow> 'a base_scheme list \<Rightarrow> 'a base_scheme list" where
  "list_rows n t = limit_rows (if n = Some 0 then None else n) (rev (sort_key row_id t))"

definition get_by_id :: "uuid \<Rightarrow> 'a base_scheme list \<Rightarrow> 'a base_scheme option" where
  "get_by_id i t = find (\<lambda>r. row_id r = i) t"

definition get_one_by :: "('a base_scheme \<Rightarrow> bool) \<Rightarrow> 'a base_scheme list \<Rightarrow> 'a base_scheme option" where
  "get_one_by P t = find P t"

definition create_row :: "'a base_scheme \<Rightarrow> 'a base_scheme list \<Rightarrow> 'a base_scheme list" where
  "create_row r t = t @ [r]"

definition update_by_id ::
  "uuid \<Rightarrow> ('a base_scheme \<Rightarrow> 'a base_scheme) \<Rightarrow> 'a base_scheme list \<Rightarrow> 'a base_scheme list" where
  "update_by_id i f t = update_where (\<lambda>r. row_id r = i) f t"

definition delete_by_id :: "uuid \<Rightarrow> 'a base_scheme list \<Rightarrow> 'a base_scheme list" where
  "delete_by_id i t = delete_where (\<lambda>r. row_id r = i) t"

definition ids_of :: "'a base_scheme list \<Rightarrow> uuid set" where
  "ids_of t = row_id ` set t"

definition ids_ok :: "'a base_scheme list \<Rightarrow> bool" where
  "ids_ok t = distinct (map row_id t)"

section \<open>The interface of a repository\<close>

locale repository =
  fixes get :: "uuid \<Rightarrow> 't \<Rightarrow> 'r option"
    and upd :: "uuid \<Rightarrow> ('r \<Rightarrow> 'r) \<Rightarrow> 't \<Rightarrow> 't"
    and ins :: "'r \<Rightarrow> 't \<Rightarrow> 't"
    and ident :: "'r \<Rightarrow> uuid"
    and ids :: "'t \<Rightarrow> uuid set"
  assumes get_upd: "(\<And>r. ident (f r) = ident r) \<Longrightarrow>
      get i (upd j f t) = (if i = j then map_option f (get i t) else get i t)"
    and get_ins: "ident r \<notin> ids t \<Longrightarrow> get i (ins r t) = (if i = ident r then Some r else get i t)"
    and get_ids: "get i t = None \<longleftrightarrow> i \<notin> ids t"
    and get_ident: "get i t = Some r \<Longrightarrow> ident r = i"
    and ids_upd: "(\<And>r. ident (f r) = ident r) \<Longrightarrow> ids (upd j f t) = ids t"
    and ids_ins: "ids (ins r t) = insert (ident r) (ids t)"
begin

lemma get_upd_same:
  "(\<And>r. ident (f r) = ident r) \<Longrightarrow> get i t = Some r \<Longrightarrow> get i (upd i f t) = Some (f r)"
  by (simp add: get_upd)

lemma get_upd_other:
  "(\<And>r. ident (f r) = ident r) \<Longrightarrow> i \<noteq> j \<Longrightarrow> get i (upd j f t) = get i t"
  by (simp add: get_upd)

text \<open>A loop that updates the rows of a list of distinct ids updates each of them once.\<close>

lemma get_fold_upd:
  assumes keeps: "\<And>j r. ident (f j r) = ident r"
  shows "distinct js \<Longrightarrow> get i (fold (\<lambda>j. upd j (f j)) js t) =
    (if i \<in> set js then map_option (f i) (get i t) else get i t)"
proof (induction js arbitrary: t)
  case Nil
  then show ?case by simp
next
  case (Cons j js)
  then have "get i (fold (\<lambda>j. upd j (f j)) (j # js) t) =
      (if i \<in> set js then map_option (f i) (get i (upd j (f j) t)) else get i (upd j (f j) t))"
    by simp
  with Cons.prems show ?case by (auto simp: get_upd keeps)
qed

lemma ids_fold_upd:
  assumes keeps: "\<And>j r. ident (f j r) = ident r"
  shows "ids (fold (\<lambda>j. upd j (f j)) js t) = ids t"
  by (induction js arbitrary: t) (simp_all add: ids_upd keeps)

lemma get_ins_old:
  "ident r \<notin> ids t \<Longrightarrow> get i t = Some r' \<Longrightarrow> get i (ins r t) = Some r'"
  using get_ids [of i t] by (auto simp: get_ins get_ident dest: get_ident)

end

lemma find_update_where_id:
  "(\<And>r. row_id (f r) = row_id r) \<Longrightarrow> get_by_id i (update_by_id j f t) =
     (if i = j then map_option f (get_by_id i t) else get_by_id i t)"
  by (induction t) (auto simp: get_by_id_def update_by_id_def)

lemma get_by_id_create:
  "row_id r \<notin> ids_of t \<Longrightarrow>
   get_by_id i (create_row r t) = (if i = row_id r then Some r else get_by_id i t)"
  by (induction t) (auto simp: get_by_id_def create_row_def ids_of_def)

lemma get_by_id_None: "get_by_id i t = None \<longleftrightarrow> i \<notin> ids_of t"
  by (auto simp: get_by_id_def find_None_all ids_of_def)

lemma get_by_id_Some: "get_by_id i t = Some r \<Longrightarrow> r \<in> set t \<and> row_id r = i"
  unfolding get_by_id_def by (drule find_Some_mem) simp

lemma ids_of_create: "ids_of (create_row r t) = insert (row_id r) (ids_of t)"
  by (auto simp: ids_of_def create_row_def)

interpretation tbl: repository get_by_id update_by_id create_row row_id ids_of
proof unfold_locales
  fix f :: "'a base_scheme \<Rightarrow> 'a base_scheme" and t j
  assume "\<And>r. row_id (f r) = row_id r"
  then show "ids_of (update_by_id j f t) = ids_of t"
    by (induction t) (auto simp: ids_of_def update_by_id_def)
qed (auto simp: find_update_where_id get_by_id_create get_by_id_None ids_of_create
       dest: get_by_id_Some)

section \<open>Facts shared by the components\<close>

lemma ids_ok_get:
  "ids_ok t \<Longrightarrow> r \<in> set t \<Longrightarrow> get_by_id (row_id r) t = Some r"
  by (simp add: ids_ok_def get_by_id_def find_distinct)

lemma ids_ok_update_where:
  "(\<And>r. row_id (f r) = row_id r) \<Longrightarrow> ids_ok (update_where P f t) = ids_ok t"
  by (simp add: ids_ok_def map_update_where_same)

lemma ids_ok_update [simp]:
  "(\<And>r. row_id (f r) = row_id r) \<Longrightarrow> ids_ok (update_by_id i f t) = ids_ok t"
  by (simp add: update_by_id_def ids_ok_update_where)

lemma ids_ok_create: "ids_ok t \<Longrightarrow> row_id r \<notin> ids_of t \<Longrightarrow> ids_ok (create_row r t)"
  by (auto simp: ids_ok_def ids_of_def create_row_def)

lemma list_all_update_by_id:
  "list_all I t \<Longrightarrow> (\<And>r. r \<in> set t \<Longrightarrow> row_id r = i \<Longrightarrow> I r \<Longrightarrow> I (f r)) \<Longrightarrow>
   list_all I (update_by_id i f t)"
  by (simp add: update_by_id_def list_all_update_where)

lemma list_all_create: "list_all I t \<Longrightarrow> I r \<Longrightarrow> list_all I (create_row r t)"
  by (simp add: create_row_def)

lemma list_all_get: "list_all I t \<Longrightarrow> get_by_id i t = Some r \<Longrightarrow> I r"
  by (auto dest!: get_by_id_Some simp: list_all_iff)

lemma map_update_by_id_same:
  "(\<And>r. g (f r) = g r) \<Longrightarrow> map g (update_by_id i f t) = map g t"
  by (simp add: update_by_id_def map_update_where_same)

lemma set_list_rows: "set (list_rows n t) \<subseteq> set t"
  using set_limit_rows [of _ "rev (sort_key row_id t)"] by (auto simp: list_rows_def)

lemma get_by_id_delete: "get_by_id i (delete_by_id i t) = None"
  by (auto simp: get_by_id_def delete_by_id_def find_None_all)

lemmas repo_simps = tbl.get_upd tbl.get_ins tbl.ids_upd tbl.ids_ins

text \<open>
  The keys of a table lie below the next value of the supply: what makes the row that an
  insert creates new.
\<close>

definition below :: "uuid \<Rightarrow> 'a base_scheme list \<Rightarrow> bool" where
  "below n t = list_all (\<lambda>r. row_id r < n) t"

lemma below_Nil [simp]: "below n []"
  by (simp add: below_def)

lemma below_create [simp]: "below n (create_row r t) \<longleftrightarrow> below n t \<and> row_id r < n"
  by (auto simp: below_def create_row_def)

lemma below_mono: "below n t \<Longrightarrow> n \<le> m \<Longrightarrow> below m t"
  by (auto simp: below_def list_all_iff)

lemma below_Suc: "below n t \<Longrightarrow> below (Suc n) t"
  by (rule below_mono) auto

lemma below_fresh: "below n t \<Longrightarrow> n \<notin> ids_of t"
  by (auto simp: below_def list_all_iff ids_of_def)

lemma below_update_where:
  "(\<And>r. row_id (f r) = row_id r) \<Longrightarrow> below n (update_where P f t) = below n t"
  by (induction t) (auto simp: below_def)

lemma below_update [simp]:
  "(\<And>r. row_id (f r) = row_id r) \<Longrightarrow> below n (update_by_id i f t) = below n t"
  by (simp add: update_by_id_def below_update_where)

lemma ids_ok_Nil [simp]: "ids_ok []"
  by (simp add: ids_ok_def)

lemma ids_ok_create_fresh:
  "ids_ok t \<Longrightarrow> below n t \<Longrightarrow> row_id r = n \<Longrightarrow> ids_ok (create_row r t)"
  by (blast intro: ids_ok_create dest: below_fresh)

text \<open>A loop of updates by distinct ids is one pass over the table.\<close>

lemma fold_update_by_id:
  assumes keeps: "\<And>j r. row_id (g j r) = row_id r" and "distinct js"
  shows "fold (\<lambda>j. update_by_id j (g j)) js t =
           map (\<lambda>r. if row_id r \<in> set js then g (row_id r) r else r) t"
  using assms(2)
proof (induction js arbitrary: t)
  case (Cons j js)
  then show ?case by (auto simp: update_by_id_def update_where_def keeps)
qed simp

text \<open>A unique column stays unique when the new value of a row is free among the other rows.\<close>

lemma distinct_update_by_id:
  assumes "distinct (map g t)" "ids_ok t"
    and "\<And>x y. x \<in> set t \<Longrightarrow> y \<in> set t \<Longrightarrow> row_id x = i \<Longrightarrow> row_id y \<noteq> i \<Longrightarrow> g y \<noteq> g (f x)"
  shows "distinct (map g (update_by_id i f t))"
  using assms
proof (induction t)
  case Nil
  then show ?case by (simp add: update_by_id_def)
next
  case (Cons x t)
  have IH: "distinct (map g (update_by_id i f t))"
    using Cons by (simp add: ids_ok_def)
  have ids: "row_id y \<noteq> row_id x" if "y \<in> set t" for y
    using Cons.prems(2) that by (auto simp: ids_ok_def image_iff)
  show ?case
  proof (cases "row_id x = i")
    case True
    then have "update_by_id i f t = t"
      unfolding update_by_id_def using ids by (intro update_where_none) simp
    moreover have "g (f x) \<notin> g ` set t"
      using Cons.prems(3) [of x] ids True by (metis imageE list.set_intros(1,2))
    ultimately show ?thesis using Cons.prems True by (simp add: update_by_id_def)
  next
    case False
    have "g x \<notin> g ` set (update_by_id i f t)"
      using Cons.prems(1) Cons.prems(3) [of _ x] False
      by (auto simp: update_by_id_def set_update_where image_iff)
    with IH False show ?thesis by (simp add: update_by_id_def)
  qed
qed

lemma ids_ok_unique: "ids_ok t \<Longrightarrow> x \<in> set t \<Longrightarrow> y \<in> set t \<Longrightarrow> row_id x = row_id y \<Longrightarrow> x = y"
  by (auto simp: ids_ok_def dest: distinct_map_unique)

lemma set_update_by_id:
  assumes "ids_ok t" "x \<in> set t"
  shows "set (update_by_id (row_id x) f t) = insert (f x) (set t - {x})"
proof -
  have "{r \<in> set t. row_id r = row_id x} = {x}" using assms(2) ids_ok_unique [OF assms(1)] by blast
  moreover have "{r \<in> set t. row_id r \<noteq> row_id x} = set t - {x}" using ids_ok_unique [OF assms(1)] assms(2) by blast
  ultimately show ?thesis unfolding update_by_id_def set_update_where by simp
qed

lemma map_create [simp]: "map g (create_row r t) = map g t @ [g r]"
  by (simp add: create_row_def)

lemma set_create [simp]: "set (create_row r t) = insert r (set t)"
  by (simp add: create_row_def)

lemma list_all_create_iff [simp]: "list_all I (create_row r t) \<longleftrightarrow> list_all I t \<and> I r"
  by (simp add: create_row_def)

lemma update_by_id_const:
  assumes "ids_ok t" "get_by_id i t = Some r"
  shows "update_by_id i (\<lambda>_. f r) t = update_by_id i f t"
proof -
  have "x = r" if "x \<in> set t" "row_id x = i" for x
    using assms that get_by_id_Some [OF assms(2)] ids_ok_unique [of t x r] by simp
  then show ?thesis unfolding update_by_id_def by (intro update_where_cong) auto
qed

lemma update_by_id_same_at:
  "ids_ok t \<Longrightarrow> get_by_id i t = Some r \<Longrightarrow> f r = g r \<Longrightarrow> update_by_id i f t = update_by_id i g t"
  using update_by_id_const [of t i r f] update_by_id_const [of t i r g] by simp

lemma update_by_id_ident: "ids_ok t \<Longrightarrow> get_by_id i t = Some r \<Longrightarrow> f r = r \<Longrightarrow> update_by_id i f t = t"
  using update_by_id_same_at [of t i r f "\<lambda>x. x"] by (simp add: update_by_id_def update_where_def)

end
