(* ===== verification/Route_State_Machine.thy ===== *)
theory Route_State_Machine
  imports Repository
begin

text \<open>
  \<open>services/routes/state_machine.py\<close> and \<open>services/routes/policy.py\<close>: how the health of a
  route and the weight it gets change, for the actions of an administrator, for the results
  of probes and for the ticks of the warm-up.  Every operation is a pure function of the
  route and the time; \<open>RouteStateResolution\<close> refuses weights outside 0 to 100.
\<close>

section \<open>Warm-up stages\<close>

record warmup_stage_cfg =
  target_weight :: int
  hold_minutes :: int

definition DEFAULT_WARMUP_STAGES :: "warmup_stage_cfg list" where
  "DEFAULT_WARMUP_STAGES =
     [\<lparr>target_weight = 10, hold_minutes = 30\<rparr>, \<lparr>target_weight = 25, hold_minutes = 60\<rparr>]"

definition initial_warmup_weight :: "int \<Rightarrow> int" where
  "initial_warmup_weight bw =
     (if bw \<le> 0 then 0 else min bw (target_weight (DEFAULT_WARMUP_STAGES ! 0)))"

definition stage_weight :: "int \<Rightarrow> nat \<Rightarrow> warmup_stage_cfg list \<Rightarrow> int" where
  "stage_weight bw stage stages =
     (if bw \<le> 0 then 0
      else if stage \<ge> length stages then bw
      else min bw (target_weight (stages ! stage)))"

section \<open>Resolutions\<close>

record route_state_resolution =
  res_health_status :: RouteHealthStatus
  res_effective_weight :: int
  res_cooldown_until :: "time option"
  res_warmup_stage :: "nat option"
  res_warmup_started_at :: "time option"

text \<open>The constructor of the pydantic model: \<open>effective_weight\<close> is a \<open>Field(ge=0, le=100)\<close>.\<close>

definition RouteStateResolution ::
  "RouteHealthStatus \<Rightarrow> int \<Rightarrow> time option \<Rightarrow> nat option \<Rightarrow> time option
   \<Rightarrow> route_state_resolution result" where
  "RouteStateResolution st w cd stage started =
     (if 0 \<le> w \<and> w \<le> 100
      then Inr \<lparr>res_health_status = st, res_effective_weight = w, res_cooldown_until = cd,
                res_warmup_stage = stage, res_warmup_started_at = started\<rparr>
      else Inl (ValidationError ''effective_weight''))"

definition resolve_route_health_action ::
  "route \<Rightarrow> RouteHealthAction \<Rightarrow> time \<Rightarrow> int \<Rightarrow> warmup_stage_cfg list
   \<Rightarrow> route_state_resolution result" where
  "resolve_route_health_action r action now cooldown_hours stages =
     (case action of
        block \<Rightarrow>
          RouteStateResolution blocked 0
            (if cooldown_hours > 0 then Some (now + hours cooldown_hours) else None) None None
      | recover \<Rightarrow>
          if (case cooldown_until r of None \<Rightarrow> False | Some c \<Rightarrow> c > now)
          then Inl (ValueError ''Route is still in cooldown'')
          else RouteStateResolution warming_up (stage_weight (base_weight r) 0 stages)
                 None (Some 0) (Some now)
      | set_healthy \<Rightarrow> RouteStateResolution healthy (base_weight r) None None None
      | set_degraded \<Rightarrow>
          RouteStateResolution degraded (max 1 (min (base_weight r) (base_weight r div 2)))
            None None None
      | set_suspected \<Rightarrow>
          RouteStateResolution suspected (max 1 (min (base_weight r) (base_weight r div 3)))
            None None None)"

definition resolve_probe_block :: "route \<Rightarrow> time \<Rightarrow> int \<Rightarrow> route_state_resolution result" where
  "resolve_probe_block r checked_at cooldown_hours =
     RouteStateResolution blocked 0
       (if cooldown_hours > 0 then Some (checked_at + hours cooldown_hours) else None) None None"

definition resolve_probe_recover :: "route \<Rightarrow> time \<Rightarrow> route_state_resolution option result" where
  "resolve_probe_recover r checked_at =
     (if health_status r \<noteq> blocked then Inr None
      else if (case cooldown_until r of None \<Rightarrow> False | Some c \<Rightarrow> c > checked_at) then Inr None
      else map_sum id Some
        (RouteStateResolution warming_up (initial_warmup_weight (base_weight r))
           None (Some 0) (Some checked_at)))"

definition resolve_bootstrap_recovery :: "int \<Rightarrow> time \<Rightarrow> route_state_resolution result" where
  "resolve_bootstrap_recovery route_base_weight now =
     RouteStateResolution warming_up (initial_warmup_weight route_base_weight)
       None (Some 0) (Some now)"

definition healthy_state :: "route \<Rightarrow> route_state_resolution result" where
  "healthy_state r = RouteStateResolution healthy (base_weight r) None None None"

text \<open>
  \<open>elapsed_minutes < hold_minutes\<close> compares minutes as floats in the source; it is the
  comparison of the exact durations here.
\<close>

definition resolve_warmup_tick ::
  "route \<Rightarrow> time \<Rightarrow> warmup_stage_cfg list
   \<Rightarrow> (route_state_resolution \<times> RouteWarmupTickResult) option result" where
  "resolve_warmup_tick r now stages =
     (let finalize = map_sum id (\<lambda>st. Some (st, finalized)) (healthy_state r) in
      case (warmup_stage r, warmup_started_at r) of
        (Some stage, Some started) \<Rightarrow>
          if stage \<ge> length stages then finalize
          else if now - started < minutes (hold_minutes (stages ! stage)) then Inr None
          else if stage + 1 \<ge> length stages then finalize
          else map_sum id (\<lambda>st. Some (st, advanced))
                 (RouteStateResolution warming_up (stage_weight (base_weight r) (stage + 1) stages)
                    None (Some (stage + 1)) (Some now))
      | _ \<Rightarrow> finalize)"

section \<open>Writing a resolution into a route\<close>

text \<open>The columns of \<open>RouteStateUpdate\<close>, as \<open>update_by_id\<close> writes them.\<close>

definition apply_resolution :: "time \<Rightarrow> route_state_resolution \<Rightarrow> route \<Rightarrow> route" where
  "apply_resolution now st r =
     r\<lparr>health_status := res_health_status st,
       effective_weight := res_effective_weight st,
       cooldown_until := res_cooldown_until st,
       warmup_stage := res_warmup_stage st,
       warmup_started_at := res_warmup_started_at st,
       updated_at := now\<rparr>"

text \<open>The check constraints of the table \<open>route\<close> (\<open>services/routes/models.py\<close>).\<close>

definition route_ck :: "route \<Rightarrow> bool" where
  "route_ck r \<longleftrightarrow> 0 \<le> base_weight r \<and> 0 \<le> effective_weight r \<and> effective_weight r \<le> base_weight r"

section \<open>What a well-formed route is\<close>

text \<open>
  A route keeps the constraints of its table, a weight of at most 100, weight 0 while it is
  blocked, a cooldown only while it is blocked, and a warm-up stage with its start time
  exactly while it warms up.
\<close>

definition route_coherent :: "route \<Rightarrow> bool" where
  "route_coherent r \<longleftrightarrow>
     route_ck r \<and> base_weight r \<le> 100 \<and>
     (health_status r = blocked \<longrightarrow> effective_weight r = 0) \<and>
     (health_status r \<noteq> blocked \<longrightarrow> cooldown_until r = None) \<and>
     (warmup_stage r = None \<longleftrightarrow> health_status r \<noteq> warming_up) \<and>
     (warmup_started_at r = None \<longleftrightarrow> health_status r \<noteq> warming_up)"

text \<open>
  The steps of the machine: each operation of the module whose result is written to the
  route.  The warm-up visits the routes that warm up; the database refuses a row that breaks
  a check constraint.
\<close>

inductive health_step :: "warmup_stage_cfg list \<Rightarrow> route \<Rightarrow> route \<Rightarrow> bool" for stages where
  admin_action: "resolve_route_health_action r a now h stages = Inr st \<Longrightarrow>
     route_ck (apply_resolution now st r) \<Longrightarrow> health_step stages r (apply_resolution now st r)"
| probe_block: "resolve_probe_block r ts h = Inr st \<Longrightarrow>
     health_step stages r (apply_resolution now st r)"
| probe_recover: "resolve_probe_recover r ts = Inr (Some st) \<Longrightarrow>
     health_step stages r (apply_resolution now st r)"
| bootstrap: "resolve_bootstrap_recovery (base_weight r) now = Inr st \<Longrightarrow>
     health_step stages r (apply_resolution now st r)"
| warmup: "health_status r = warming_up \<Longrightarrow> resolve_warmup_tick r now stages = Inr (Some (st, tr)) \<Longrightarrow>
     health_step stages r (apply_resolution now st r)"

section \<open>Facts about resolutions\<close>

lemma apply_resolution_simps [simp]:
  "health_status (apply_resolution now st r) = res_health_status st"
  "effective_weight (apply_resolution now st r) = res_effective_weight st"
  "cooldown_until (apply_resolution now st r) = res_cooldown_until st"
  "warmup_stage (apply_resolution now st r) = res_warmup_stage st"
  "warmup_started_at (apply_resolution now st r) = res_warmup_started_at st"
  "base_weight (apply_resolution now st r) = base_weight r"
  "row_id (apply_resolution now st r) = row_id r"
  "is_active (apply_resolution now st r) = is_active r"
  "route_name (apply_resolution now st r) = route_name r"
  "route_node_id (apply_resolution now st r) = route_node_id r"
  "entry_node_id (apply_resolution now st r) = entry_node_id r"
  "transport_profile_id (apply_resolution now st r) = transport_profile_id r"
  "updated_at (apply_resolution now st r) = now"
  by (simp_all add: apply_resolution_def)

lemma RouteStateResolution_Inr:
  "RouteStateResolution st w cd stage started = Inr x \<longleftrightarrow>
     0 \<le> w \<and> w \<le> 100 \<and>
     x = \<lparr>res_health_status = st, res_effective_weight = w, res_cooldown_until = cd,
          res_warmup_stage = stage, res_warmup_started_at = started\<rparr>"
  by (auto simp: RouteStateResolution_def)

lemma initial_warmup_weight_le: "0 \<le> bw \<Longrightarrow> initial_warmup_weight bw \<le> bw"
  by (simp add: initial_warmup_weight_def)

lemma initial_warmup_weight_nonneg: "0 \<le> initial_warmup_weight bw"
  by (simp add: initial_warmup_weight_def DEFAULT_WARMUP_STAGES_def)

lemma initial_warmup_weight_stage:
  "initial_warmup_weight bw = stage_weight bw 0 DEFAULT_WARMUP_STAGES"
  by (simp add: initial_warmup_weight_def stage_weight_def DEFAULT_WARMUP_STAGES_def)

lemma stage_weight_le: "0 \<le> bw \<Longrightarrow> stage_weight bw stage stages \<le> bw"
  by (simp add: stage_weight_def)

lemmas resolution_defs =
  resolve_route_health_action_def resolve_probe_block_def resolve_probe_recover_def
  resolve_bootstrap_recovery_def healthy_state_def RouteStateResolution_Inr

lemma map_sum_id_Inr: "map_sum id f x = Inr y \<longleftrightarrow> (\<exists>z. x = Inr z \<and> y = f z)"
  by (cases x) auto

lemma warmup_tick_cases:
  assumes "resolve_warmup_tick r now stages = Inr (Some (st, tr))"
  obtains (fin) "healthy_state r = Inr st" "tr = finalized"
  | (adv) stage started where
      "warmup_stage r = Some stage" "warmup_started_at r = Some started"
      "stage + 1 < length stages"
      "minutes (hold_minutes (stages ! stage)) \<le> now - started"
      "RouteStateResolution warming_up (stage_weight (base_weight r) (stage + 1) stages)
         None (Some (stage + 1)) (Some now) = Inr st"
      "tr = advanced"
  using assms
  by (auto simp: resolve_warmup_tick_def Let_def map_sum_id_Inr not_less
      split: option.splits if_splits)

lemma health_step_coherent:
  assumes "health_step stages r r'" and "route_coherent r"
  shows "route_coherent r'"
  using assms
proof (cases rule: health_step.cases)
  case (admin_action a now h st)
  with assms(2) show ?thesis
    by (cases a) (auto simp: route_coherent_def route_ck_def resolution_defs split: if_splits)
next
  case (warmup now st tr)
  from warmup(3) show ?thesis
  proof (cases rule: warmup_tick_cases)
    case fin
    with warmup assms(2) show ?thesis
      by (auto simp: route_coherent_def route_ck_def resolution_defs)
  next
    case (adv stage started)
    with warmup assms(2) show ?thesis
      by (auto simp: route_coherent_def route_ck_def RouteStateResolution_Inr stage_weight_le)
  qed
qed (use assms(2) in \<open>auto simp: route_coherent_def route_ck_def resolution_defs map_sum_id_Inr
       initial_warmup_weight_le split: if_splits option.splits\<close>)

interpretation route_sm: step_invariant route_coherent "health_step stages" route_coherent
  by unfold_locales (auto intro: health_step_coherent)

text \<open>C2: Whatever sequence of administrator actions, probe results, bootstrap recoveries and
  warm-up ticks a route goes through, it stays coherent: its weight is between 0 and its base
  weight, it is 0 while the route is blocked, a cooldown belongs to a blocked route only, and
  a warm-up stage belongs to a route that warms up only.\<close>

theorem health_steps_coherent:
  assumes "route_coherent r" and "(health_step stages)\<^sup>*\<^sup>* r r'"
  shows "route_coherent r'"
  using assms by (blast intro: route_sm.reachable_inv)

definition sample_route :: "int \<Rightarrow> route" where
  "sample_route w =
     \<lparr>row_id = 1, created_at = 0, updated_at = 0, is_active = True, route_name = ''r'',
      route_node_id = 2, entry_node_id = None, transport_profile_id = 3, health_status = healthy,
      base_weight = w, effective_weight = w, cooldown_until = None, warmup_stage = None,
      warmup_started_at = None\<rparr>"

lemma sample_route_sel [simp]:
  "row_id (sample_route w) = 1" "is_active (sample_route w)"
  "health_status (sample_route w) = healthy" "base_weight (sample_route w) = w"
  "effective_weight (sample_route w) = w" "cooldown_until (sample_route w) = None"
  "warmup_stage (sample_route w) = None" "warmup_started_at (sample_route w) = None"
  by (simp_all add: sample_route_def)

theorem health_steps_coherent_witness:
  "route_coherent
     (apply_resolution 5 \<lparr>res_health_status = blocked, res_effective_weight = 0,
        res_cooldown_until = Some (5 + hours 6), res_warmup_stage = None,
        res_warmup_started_at = None\<rparr> (sample_route 80))" (is "route_coherent (apply_resolution _ ?st _)")
proof (rule health_steps_coherent)
  show "route_coherent (sample_route 80)" by (simp add: route_coherent_def route_ck_def)
  have "resolve_probe_block (sample_route 80) 5 6 = Inr ?st" by (simp add: resolution_defs)
  then show "(health_step DEFAULT_WARMUP_STAGES)\<^sup>*\<^sup>* (sample_route 80) (apply_resolution 5 ?st (sample_route 80))"
    by (blast intro: health_step.probe_block)
qed

text \<open>C40: An administrator's action on a coherent route gives a row the table accepts, except
  for one case: demoting a route of base weight 0 asks for weight 1, which exceeds the base
  weight, and the database refuses the update.\<close>

theorem admin_action_check_constraint:
  assumes "route_coherent r" and "resolve_route_health_action r a now h DEFAULT_WARMUP_STAGES = Inr st"
  shows "\<not> route_ck (apply_resolution now st r) \<longleftrightarrow>
           base_weight r = 0 \<and> (a = set_degraded \<or> a = set_suspected)"
  using assms
  by (cases a) (auto simp: route_coherent_def route_ck_def resolution_defs stage_weight_le
      split: if_splits)

theorem admin_action_check_constraint_witness:
  "\<not> route_ck (apply_resolution 9 \<lparr>res_health_status = degraded, res_effective_weight = 1,
       res_cooldown_until = None, res_warmup_stage = None, res_warmup_started_at = None\<rparr> (sample_route 0))"
  by (subst admin_action_check_constraint [where a = set_degraded and h = 0])
     (simp_all add: route_coherent_def route_ck_def resolution_defs)

section \<open>Cooldown\<close>

text \<open>A route that a probe blocks with a cooldown does not recover before the cooldown is
  over, neither through an administrator's recover nor through probes that succeed; from that
  moment on both put a coherent route into the first stage of the warm-up, with the same weight.\<close>

theorem cooldown_respected:
  assumes "route_coherent r" and "0 < h" and "resolve_probe_block r ts h = Inr st"
    and "b = apply_resolution ts st r"
  shows "if t < ts + hours h
         then resolve_route_health_action b recover t h' DEFAULT_WARMUP_STAGES
                = Inl (ValueError ''Route is still in cooldown'') \<and>
              resolve_probe_recover b t = Inr None
         else \<exists>st'. resolve_route_health_action b recover t h' DEFAULT_WARMUP_STAGES = Inr st' \<and>
                resolve_probe_recover b t = Inr (Some st') \<and>
                res_health_status st' = warming_up \<and> res_warmup_stage st' = Some 0 \<and>
                res_effective_weight st' = min (base_weight r) 10"
proof -
  have "health_status b = blocked" "cooldown_until b = Some (ts + hours h)"
    "base_weight b = base_weight r" "0 \<le> base_weight r" "base_weight r \<le> 100"
    using assms by (auto simp: resolution_defs route_coherent_def route_ck_def)
  then show ?thesis
    by (auto simp: resolve_route_health_action_def resolve_probe_recover_def
        RouteStateResolution_def initial_warmup_weight_def stage_weight_def
        DEFAULT_WARMUP_STAGES_def)
qed

theorem cooldown_respected_witness:
  "resolve_probe_recover
     (apply_resolution 5 \<lparr>res_health_status = blocked, res_effective_weight = 0,
        res_cooldown_until = Some (5 + hours 6), res_warmup_stage = None,
        res_warmup_started_at = None\<rparr> (sample_route 80)) (5 + hours 6 - 1) = Inr None"
  using cooldown_respected [where r = "sample_route 80" and h = 6 and ts = 5 and t = "5 + hours 6 - 1"]
  by (simp add: route_coherent_def route_ck_def resolution_defs)

section \<open>Warm-up\<close>

text \<open>
  What the warm-up does to one route at one tick: it visits the routes that warm up and
  writes the resolution, when there is one.
\<close>

definition warmup_tick_route :: "warmup_stage_cfg list \<Rightarrow> time \<Rightarrow> route \<Rightarrow> route" where
  "warmup_tick_route stages now r =
     (if health_status r = warming_up then
        (case resolve_warmup_tick r now stages of
           Inr (Some (st, _)) \<Rightarrow> apply_resolution now st r
         | _ \<Rightarrow> r)
      else r)"

abbreviation warmup_run :: "warmup_stage_cfg list \<Rightarrow> time list \<Rightarrow> route \<Rightarrow> route" where
  "warmup_run stages ts r \<equiv> fold (warmup_tick_route stages) ts r"

definition warming_at :: "nat \<Rightarrow> time \<Rightarrow> route \<Rightarrow> bool" where
  "warming_at k t r \<longleftrightarrow>
     health_status r = warming_up \<and> warmup_stage r = Some k \<and> warmup_started_at r = Some t \<and>
     0 \<le> base_weight r \<and> base_weight r \<le> 100"

definition hold_of :: "warmup_stage_cfg list \<Rightarrow> nat \<Rightarrow> time" where
  "hold_of stages k = minutes (hold_minutes (stages ! k))"

lemma warmup_tick_idle:
  "health_status r \<noteq> warming_up \<Longrightarrow> warmup_run stages ts r = r"
  by (induction ts arbitrary: r) (simp_all add: warmup_tick_route_def)

lemma warmup_tick_early:
  "warming_at k t r \<Longrightarrow> k < length stages \<Longrightarrow> now < t + hold_of stages k \<Longrightarrow>
     warmup_tick_route stages now r = r"
  by (simp add: warming_at_def warmup_tick_route_def resolve_warmup_tick_def hold_of_def)

lemma warmup_tick_advance:
  assumes "warming_at k t r" "Suc k < length stages" "t + hold_of stages k \<le> now"
    and "\<forall>s \<in> set stages. 0 \<le> target_weight s"
  shows "warming_at (Suc k) now (warmup_tick_route stages now r)"
    and "effective_weight (warmup_tick_route stages now r)
           = min (base_weight r) (target_weight (stages ! Suc k))"
  using assms nth_mem [OF assms(2)]
  by (auto simp: warming_at_def warmup_tick_route_def resolve_warmup_tick_def hold_of_def
      RouteStateResolution_def stage_weight_def)

lemma warmup_tick_finish:
  assumes "warming_at k t r" "Suc k = length stages" "t + hold_of stages k \<le> now"
  shows "health_status (warmup_tick_route stages now r) = healthy \<and>
         effective_weight (warmup_tick_route stages now r) = base_weight r \<and>
         warmup_stage (warmup_tick_route stages now r) = None"
  using assms
  by (auto simp: warming_at_def warmup_tick_route_def resolve_warmup_tick_def hold_of_def
      RouteStateResolution_def healthy_state_def)

lemma base_weight_warmup_tick [simp]:
  "base_weight (warmup_tick_route stages now r) = base_weight r"
  by (simp add: warmup_tick_route_def split: sum.splits option.splits)

text \<open>Tick times that never go back and are at most \<open>p\<close> apart, from the time \<open>y\<close> on.\<close>

fun ticks_within :: "time \<Rightarrow> time \<Rightarrow> time list \<Rightarrow> bool" where
  "ticks_within p y [] \<longleftrightarrow> True"
| "ticks_within p y (x # xs) \<longleftrightarrow> y \<le> x \<and> x \<le> y + p \<and> ticks_within p x xs"

definition remaining :: "warmup_stage_cfg list \<Rightarrow> time \<Rightarrow> nat \<Rightarrow> time" where
  "remaining stages p k = (\<Sum>j = k..<length stages. hold_of stages j + p)"

lemma remaining_step:
  "k < length stages \<Longrightarrow> remaining stages p k = hold_of stages k + p + remaining stages p (Suc k)"
  by (simp add: remaining_def sum.atLeast_Suc_lessThan)

lemma remaining_nonneg:
  "\<forall>j < length stages. 0 < hold_of stages j \<Longrightarrow> 0 \<le> p \<Longrightarrow> 0 \<le> remaining stages p k"
  by (auto simp: remaining_def intro!: sum_nonneg)

lemma ticks_within_le_last: "ticks_within p x xs \<Longrightarrow> x \<le> last (x # xs)"
proof (induction xs arbitrary: x)
  case (Cons a xs)
  then have "a \<le> last (a # xs)" "x \<le> a" by auto
  then show ?case by simp
qed simp

lemma warmup_run_progress:
  assumes "warming_at k t r" "k < length stages" "y < t + hold_of stages k" "0 \<le> p"
    and "ticks_within p y ts" and "t + remaining stages p k \<le> last (y # ts)"
    and hold: "\<forall>j < length stages. 0 < hold_of stages j"
    and target: "\<forall>s \<in> set stages. 0 \<le> target_weight s"
  shows "health_status (warmup_run stages ts r) = healthy \<and>
         effective_weight (warmup_run stages ts r) = base_weight r"
  using assms(1-6)
proof (induction ts arbitrary: k t r y)
  case Nil
  with remaining_nonneg [OF hold, of p "Suc k"] show ?case by (simp add: remaining_step)
next
  case (Cons x xs)
  show ?case
  proof (cases "x < t + hold_of stages k")
    case True
    with Cons.prems Cons.IH [of k t r x] show ?thesis by (simp add: warmup_tick_early)
  next
    case False
    then have elapsed: "t + hold_of stages k \<le> x" by simp
    show ?thesis
    proof (cases "Suc k < length stages")
      case True
      let ?r = "warmup_tick_route stages x r"
      have "warming_at (Suc k) x ?r"
        using Cons.prems True elapsed target by (blast intro: warmup_tick_advance)
      moreover have "x + remaining stages p (Suc k) \<le> last (x # xs)"
        using Cons.prems by (simp add: remaining_step)
      ultimately show ?thesis
        using Cons.IH [of "Suc k" x ?r x] Cons.prems True hold by simp
    next
      case False
      then have "Suc k = length stages" using Cons.prems by simp
      from warmup_tick_finish [OF Cons.prems(1) this elapsed] show ?thesis
        by (simp add: warmup_tick_idle)
    qed
  qed
qed

lemma warmup_run_not_early:
  assumes "warming_at k t r" "k < length stages" "t \<le> y" "ticks_within p y ts"
    and "last (y # ts) < t + remaining stages 0 k"
    and hold: "\<forall>j < length stages. 0 < hold_of stages j"
    and target: "\<forall>s \<in> set stages. 0 \<le> target_weight s"
  shows "health_status (warmup_run stages ts r) = warming_up"
  using assms(1-5)
proof (induction ts arbitrary: k t r y)
  case Nil
  then show ?case by (simp add: warming_at_def)
next
  case (Cons x xs)
  show ?case
  proof (cases "x < t + hold_of stages k")
    case True
    with Cons.prems Cons.IH [of k t r x] show ?thesis by (simp add: warmup_tick_early)
  next
    case False
    have le: "x \<le> last (x # xs)" using Cons.prems(4)
      by (auto intro!: ticks_within_le_last simp del: last.simps)
    show ?thesis
    proof (cases "Suc k < length stages")
      case True
      let ?r = "warmup_tick_route stages x r"
      have "warming_at (Suc k) x ?r"
        using Cons.prems True False target by (auto intro: warmup_tick_advance)
      moreover have "last (x # xs) < x + remaining stages 0 (Suc k)"
        using Cons.prems False by (simp add: remaining_step)
      ultimately show ?thesis
        using Cons.IH [of "Suc k" x ?r x] Cons.prems True by simp
    next
      case nomore: False
      then have "remaining stages 0 (Suc k) = 0" by (simp add: remaining_def)
      with Cons.prems le False show ?thesis by (simp add: remaining_step)
    qed
  qed
qed

text \<open>C35: A route that starts to warm up becomes healthy with its full weight, and neither too
  early nor too late: with ticks at most \<open>p\<close> apart it is still warming up until 90 minutes
  have passed, and it is healthy with its base weight at the latest after 90 minutes and two
  ticks.\<close>

theorem warmup_completes:
  assumes "warming_at 0 t r" and "ticks_within p t ts" and "0 \<le> p"
  shows "(last (t # ts) < t + minutes 90 \<longrightarrow>
            health_status (warmup_run DEFAULT_WARMUP_STAGES ts r) = warming_up) \<and>
         (t + minutes 90 + 2 * p \<le> last (t # ts) \<longrightarrow>
            health_status (warmup_run DEFAULT_WARMUP_STAGES ts r) = healthy \<and>
            effective_weight (warmup_run DEFAULT_WARMUP_STAGES ts r) = base_weight r)"
proof -
  let ?D = DEFAULT_WARMUP_STAGES
  have len: "length ?D = 2" by (simp add: DEFAULT_WARMUP_STAGES_def)
  have hold: "\<forall>j < length ?D. 0 < hold_of ?D j"
    by (auto simp: DEFAULT_WARMUP_STAGES_def hold_of_def minutes_def usec_def less_Suc_eq)
  have target: "\<forall>s \<in> set ?D. 0 \<le> target_weight s" by (simp add: DEFAULT_WARMUP_STAGES_def)
  have total: "remaining ?D q 0 = minutes 90 + 2 * q" for q
    by (simp add: remaining_def len numeral_2_eq_2 hold_of_def DEFAULT_WARMUP_STAGES_def
        minutes_def usec_def)
  have hold0: "t < t + hold_of ?D 0" "0 < length ?D" using hold len by simp_all
  show ?thesis
  proof (intro conjI impI)
    assume "last (t # ts) < t + minutes 90"
    then have "last (t # ts) < t + remaining ?D 0 0" by (simp add: total del: last.simps)
    from warmup_run_not_early [OF assms(1) hold0(2) order_refl assms(2) this hold target]
    show "health_status (warmup_run ?D ts r) = warming_up" .
  next
    assume "t + minutes 90 + 2 * p \<le> last (t # ts)"
    then have "t + remaining ?D p 0 \<le> last (t # ts)" by (simp only: total add.assoc)
    note run = warmup_run_progress [OF assms(1) hold0(2,1) assms(3,2) this hold target]
    from run show "health_status (warmup_run ?D ts r) = healthy" ..
    from run show "effective_weight (warmup_run ?D ts r) = base_weight r" ..
  qed
qed

theorem warmup_completes_witness:
  "health_status (warmup_run DEFAULT_WARMUP_STAGES [minutes 60, minutes 120, minutes 180, minutes 240]
     (apply_resolution 0 \<lparr>res_health_status = warming_up, res_effective_weight = 10,
        res_cooldown_until = None, res_warmup_stage = Some 0, res_warmup_started_at = Some 0\<rparr>
        (sample_route 80))) = healthy"
  using warmup_completes [where t = 0 and p = "minutes 60"
      and ts = "[minutes 60, minutes 120, minutes 180, minutes 240]"
      and r = "apply_resolution 0 \<lparr>res_health_status = warming_up, res_effective_weight = 10,
        res_cooldown_until = None, res_warmup_stage = Some 0, res_warmup_started_at = Some 0\<rparr>
        (sample_route 80)"]
  by (simp add: warming_at_def minutes_def usec_def)

end
