(* ===== verification/Route_Repository.thy ===== *)
theory Route_Repository
  imports Route_State_Machine
begin

text \<open>
  \<open>services/routes/repository.py\<close>: the queries over routes, with their joins to the nodes, the
  transport profiles and the agent states, and the writes to the table with its constraints.
  A join on a primary key or on the unique \<open>node_agent_state.node_id\<close> finds at most one row.
\<close>

section \<open>Roles\<close>

datatype RouteNodeRole = role_backend | role_entry | role_whitelist_entry

definition normalized_node_role :: "vpn_node \<Rightarrow> RouteNodeRole option" where
  "normalized_node_role n =
     (let v = py_lower (py_strip (role n)) in
      if v = ''backend'' then Some role_backend
      else if v = ''entry'' then Some role_entry
      else if v = ''whitelist_entry'' then Some role_whitelist_entry
      else None)"

definition is_entry_role :: "RouteNodeRole option \<Rightarrow> bool" where
  "is_entry_role r \<longleftrightarrow> r = Some role_entry \<or> r = Some role_whitelist_entry"

section \<open>Joins\<close>

definition node_of :: "db \<Rightarrow> uuid \<Rightarrow> vpn_node option" where
  "node_of s i = get_by_id i (nodes s)"

definition agent_state_of :: "db \<Rightarrow> uuid \<Rightarrow> node_agent_state option" where
  "agent_state_of s i = get_one_by (\<lambda>a. nas_node_id a = i) (agent_states s)"

definition profile_of :: "db \<Rightarrow> uuid \<Rightarrow> transport_profile option" where
  "profile_of s i = get_by_id i (profiles s)"

type_synonym resolved_route = "route \<times> vpn_node \<times> transport_profile"

text \<open>The inner join of a route with its node and its profile.\<close>

definition join_route :: "db \<Rightarrow> route \<Rightarrow> resolved_route option" where
  "join_route s r =
     (case (node_of s (route_node_id r), profile_of s (transport_profile_id r)) of
        (Some n, Some p) \<Rightarrow> Some (r, n, p)
      | _ \<Rightarrow> None)"

definition routed_health :: "RouteHealthStatus \<Rightarrow> bool" where
  "routed_health h \<longleftrightarrow> h = healthy \<or> h = warming_up \<or> h = degraded \<or> h = suspected"

definition node_available :: "vpn_node \<Rightarrow> bool" where
  "node_available n \<longleftrightarrow> is_active n \<and> is_enabled n \<and> \<not> is_draining n"

text \<open>The condition on the entry of a route: the outer join to the entry and its agent.\<close>

definition entry_alive :: "db \<Rightarrow> route \<Rightarrow> bool" where
  "entry_alive s r =
     (case entry_node_id r of
        None \<Rightarrow> True
      | Some e \<Rightarrow>
          (case node_of s e of
             None \<Rightarrow> False
           | Some n \<Rightarrow> node_available n \<and>
               (case agent_state_of s (row_id n) of None \<Rightarrow> True | Some a \<Rightarrow> is_healthy a)))"

section \<open>TransportProfileRepository\<close>

definition list_active_profiles :: "nat option \<Rightarrow> db \<Rightarrow> transport_profile list" where
  "list_active_profiles n s = limit_rows n (sort_key tp_name (filter is_active (profiles s)))"

section \<open>RouteRepository\<close>

definition get_by_triple :: "uuid \<Rightarrow> uuid option \<Rightarrow> uuid \<Rightarrow> db \<Rightarrow> route option result" where
  "get_by_triple backend entry tp s =
     (case filter (\<lambda>r. route_node_id r = backend \<and> transport_profile_id r = tp \<and> entry_node_id r = entry)
             (routes s) of
        [] \<Rightarrow> Inr None
      | [r] \<Rightarrow> Inr (Some r)
      | _ \<Rightarrow> Inl (ValueError ''MultipleResultsFound''))"

definition by_weight_then_name :: "route \<Rightarrow> int \<times> string" where
  "by_weight_then_name r = (- effective_weight r, route_name r)"

definition list_active_routes :: "uuid option \<Rightarrow> nat option \<Rightarrow> db \<Rightarrow> route list" where
  "list_active_routes node n s =
     limit_rows n (sort_key by_weight_then_name
       (filter (\<lambda>r. is_active r \<and> (case node of None \<Rightarrow> True | Some i \<Rightarrow> route_node_id r = i)) (routes s)))"

definition list_substitutes_for_backend :: "uuid \<Rightarrow> uuid list \<Rightarrow> db \<Rightarrow> resolved_route list" where
  "list_substitutes_for_backend backend entry_ids s =
     (if entry_ids = [] then []
      else sort_key (\<lambda>(r, _). by_weight_then_name r)
        (filter (\<lambda>(r, n, p).
            is_active r \<and> route_node_id r = backend \<and>
            (case entry_node_id r of None \<Rightarrow> False | Some e \<Rightarrow> e \<in> set entry_ids) \<and>
            routed_health (health_status r) \<and> is_active p \<and> node_available n \<and>
            (case agent_state_of s (row_id n) of None \<Rightarrow> False | Some a \<Rightarrow> is_healthy a) \<and>
            entry_alive s r)
          (List.map_filter (join_route s) (routes s))))"

definition count_active_by_entry :: "db \<Rightarrow> (uuid \<times> nat) list" where
  "count_active_by_entry s =
     (let es = List.map_filter entry_node_id (filter is_active (routes s)) in
      map (\<lambda>e. (e, length (filter (\<lambda>x. x = e) es))) (remdups es))"

definition list_active_detailed ::
  "uuid option \<Rightarrow> nat option \<Rightarrow> db \<Rightarrow>
   (route \<times> vpn_node \<times> transport_profile \<times> node_agent_state option) list" where
  "list_active_detailed node n s =
     limit_rows n (map (\<lambda>(r, nd, p). (r, nd, p, agent_state_of s (row_id nd)))
       (sort_key (\<lambda>(r, _). by_weight_then_name r)
         (List.map_filter (join_route s)
           (filter (\<lambda>r. is_active r \<and> (case node of None \<Rightarrow> True | Some i \<Rightarrow> route_node_id r = i)) (routes s)))))"

definition get_active_detailed_by_id ::
  "uuid \<Rightarrow> db \<Rightarrow> (route \<times> vpn_node \<times> transport_profile \<times> node_agent_state option) option" where
  "get_active_detailed_by_id i s =
     (case get_by_id i (routes s) of
        None \<Rightarrow> None
      | Some r \<Rightarrow> if \<not> is_active r then None
          else map_option (\<lambda>(r, nd, p). (r, nd, p, agent_state_of s (row_id nd))) (join_route s r))"

definition list_warming_up :: "db \<Rightarrow> route list" where
  "list_warming_up s =
     sort_key updated_at (filter (\<lambda>r. is_active r \<and> health_status r = warming_up) (routes s))"

definition list_backend_ids_for_entry :: "uuid \<Rightarrow> db \<Rightarrow> uuid list" where
  "list_backend_ids_for_entry entry s =
     remdups (map route_node_id (filter (\<lambda>r. is_active r \<and> entry_node_id r = Some entry \<and>
       (case profile_of s (transport_profile_id r) of None \<Rightarrow> False | Some p \<Rightarrow> is_active p)) (routes s)))"

definition transport_matches :: "string option \<Rightarrow> transport_profile \<Rightarrow> bool" where
  "transport_matches kt p \<longleftrightarrow>
     (if kt = Some ''reality'' then tp_security p = ''reality'' \<and> tp_network p = ''tcp''
      else if kt = Some ''ws'' then tp_security p = ''tls'' \<and> tp_network p = ''ws''
      else if kt = Some ''xhttp'' then tp_security p = ''tls'' \<and> tp_network p = ''xhttp''
      else True)"

definition list_backend_ids_with_entry_routes :: "string option \<Rightarrow> db \<Rightarrow> uuid list" where
  "list_backend_ids_with_entry_routes kt s =
     (if kt = Some ''tcp'' then []
      else remdups (map route_node_id (filter (\<lambda>r. is_active r \<and> entry_node_id r \<noteq> None \<and>
        (case profile_of s (transport_profile_id r) of
           None \<Rightarrow> False | Some p \<Rightarrow> is_active p \<and> transport_matches kt p)) (routes s))))"

section \<open>Resolved routes\<close>

definition status_order :: "RouteHealthStatus \<Rightarrow> nat" where
  "status_order h = (case h of healthy \<Rightarrow> 0 | warming_up \<Rightarrow> 1 | degraded \<Rightarrow> 2 | suspected \<Rightarrow> 3 | blocked \<Rightarrow> 4)"

text \<open>The clauses that all the queries over resolved routes share.\<close>

definition resolved_active :: "db \<Rightarrow> time option \<Rightarrow> resolved_route \<Rightarrow> bool" where
  "resolved_active s node_seen_after = (\<lambda>(r, n, p).
     is_active r \<and> effective_weight r > 0 \<and> routed_health (health_status r) \<and> is_active p \<and>
     is_active n \<and> is_enabled n \<and> \<not> is_draining n \<and>
     (case agent_state_of s (row_id n) of
        None \<Rightarrow> False
      | Some a \<Rightarrow> is_healthy a \<and>
          (case node_seen_after of
             None \<Rightarrow> True
           | Some t \<Rightarrow> (case last_seen_at a of None \<Rightarrow> False | Some seen \<Rightarrow> seen \<ge> t))))"

definition resolved_order :: "uuid option \<Rightarrow> string option \<Rightarrow> resolved_route \<Rightarrow> nat \<times> nat \<times> int" where
  "resolved_order preferred_node preferred_region = (\<lambda>(r, n, p).
     (case preferred_node of
        Some i \<Rightarrow> if route_node_id r = i then 0 else 1
      | None \<Rightarrow> if truthy preferred_region
                then (if Some (region n) = preferred_region then 0 else 1) else 0,
      status_order (health_status r), - effective_weight r))"

definition list_resolved_active ::
  "uuid option \<Rightarrow> string option \<Rightarrow> nat \<Rightarrow> uuid list option \<Rightarrow> time option \<Rightarrow> bool \<Rightarrow> db
   \<Rightarrow> resolved_route list" where
  "list_resolved_active preferred_node preferred_region n backend_ids node_seen_after allow_dead_entry s =
     (if backend_ids = Some [] then []
      else take n (sort_key (resolved_order preferred_node preferred_region)
        (filter (\<lambda>x. resolved_active s node_seen_after x \<and>
                     (allow_dead_entry \<or> entry_alive s (fst x)) \<and>
                     (case backend_ids of None \<Rightarrow> True | Some is \<Rightarrow> route_node_id (fst x) \<in> set is))
          (List.map_filter (join_route s) (routes s)))))"

definition count_resolved_active :: "time option \<Rightarrow> db \<Rightarrow> nat" where
  "count_resolved_active node_seen_after s =
     length (filter (resolved_active s node_seen_after) (List.map_filter (join_route s) (routes s)))"

text \<open>\<open>GROUP BY region\<close>: one pair per region that has a route.\<close>

definition count_resolved_active_by_region :: "time option \<Rightarrow> db \<Rightarrow> (string \<times> nat) list" where
  "count_resolved_active_by_region node_seen_after s =
     (let rs = map (\<lambda>(r, n, p). region n)
        (filter (resolved_active s node_seen_after) (List.map_filter (join_route s) (routes s)))
      in map (\<lambda>g. (g, length (filter (\<lambda>x. x = g) rs))) (remdups rs))"

section \<open>Writes and constraints\<close>

text \<open>
  The check constraints and the unique name of the table, as the database enforces them on an
  insert and on an update; \<open>update_by_id\<close> returns the row, or nothing when there is none.
\<close>

definition route_name_taken :: "uuid \<Rightarrow> string \<Rightarrow> db \<Rightarrow> bool" where
  "route_name_taken i nm s \<longleftrightarrow> (\<exists>x \<in> set (routes s). row_id x \<noteq> i \<and> route_name x = nm)"

definition update_route_row :: "uuid \<Rightarrow> (route \<Rightarrow> route) \<Rightarrow> db \<Rightarrow> (route option \<times> db) result" where
  "update_route_row i f s =
     (case get_by_id i (routes s) of
        None \<Rightarrow> Inr (None, s)
      | Some r \<Rightarrow>
          if \<not> route_ck (f r) then Inl (IntegrityError ''ck_route'')
          else if route_name_taken i (route_name (f r)) s then Inl (IntegrityError ''route_name_key'')
          else Inr (Some (f r), s\<lparr>routes := update_by_id i f (routes s)\<rparr>))"

definition insert_route_row :: "route \<Rightarrow> db \<Rightarrow> db result" where
  "insert_route_row r s =
     (if \<not> route_ck r then Inl (IntegrityError ''ck_route'')
      else if route_name_taken (row_id r) (route_name r) s then Inl (IntegrityError ''route_name_key'')
      else Inr (s\<lparr>routes := create_row r (routes s)\<rparr>))"

definition routes_inv :: "db \<Rightarrow> bool" where
  "routes_inv s \<longleftrightarrow> ids_ok (routes s) \<and> below (uuid_supply s) (routes s) \<and>
     distinct (map route_name (routes s)) \<and> list_all route_ck (routes s)"

section \<open>Facts\<close>

lemma join_route_Some:
  "join_route s r = Some (r', n, p) \<longleftrightarrow>
     r' = r \<and> node_of s (route_node_id r) = Some n \<and> profile_of s (transport_profile_id r) = Some p"
  by (auto simp: join_route_def split: option.splits)

lemma set_map_filter: "set (List.map_filter f xs) = {y. \<exists>x \<in> set xs. f x = Some y}"
  by (force simp: List.map_filter_def)

lemma set_list_resolved_active:
  assumes "(r, n, p) \<in> set (list_resolved_active pn pr k bs seen dead s)"
  shows "r \<in> set (routes s) \<and> join_route s r = Some (r, n, p) \<and> resolved_active s seen (r, n, p) \<and>
         (dead \<or> entry_alive s r) \<and> (\<forall>is. bs = Some is \<longrightarrow> route_node_id r \<in> set is)"
proof -
  from assms have "resolved_active s seen (r, n, p) \<and> (dead \<or> entry_alive s r) \<and>
      (\<forall>is. bs = Some is \<longrightarrow> route_node_id r \<in> set is) \<and> (\<exists>x \<in> set (routes s). join_route s x = Some (r, n, p))"
    by (auto simp: list_resolved_active_def set_map_filter split: if_splits option.splits
        dest!: in_set_takeD)
  then show ?thesis by (auto simp: join_route_Some)
qed

lemma list_resolved_active_complete:
  assumes "r \<in> set (routes s)" "join_route s r = Some (r, n, p)" "resolved_active s seen (r, n, p)"
    and "dead \<or> entry_alive s r" "\<forall>is. bs = Some is \<longrightarrow> route_node_id r \<in> set is"
    and "length (routes s) \<le> k"
  shows "(r, n, p) \<in> set (list_resolved_active pn pr k bs seen dead s)"
proof -
  let ?rows = "filter (\<lambda>x. resolved_active s seen x \<and> (dead \<or> entry_alive s (fst x)) \<and>
      (case bs of None \<Rightarrow> True | Some is \<Rightarrow> route_node_id (fst x) \<in> set is))
      (List.map_filter (join_route s) (routes s))"
  have "length ?rows \<le> length (routes s)"
    by (rule order_trans [OF length_filter_le]) (simp add: List.map_filter_def)
  then have "take k (sort_key (resolved_order pn pr) ?rows) = sort_key (resolved_order pn pr) ?rows"
    using assms(6) by simp
  moreover have "(r, n, p) \<in> set ?rows"
    using assms(1-5) by (auto simp: set_map_filter split: option.splits)
  ultimately show ?thesis using assms(1,5) by (auto simp: list_resolved_active_def)
qed

lemma sorted_list_resolved_active:
  "sorted (map (resolved_order pn pr) (list_resolved_active pn pr k bs seen dead s))"
  by (simp add: list_resolved_active_def take_map [symmetric] sorted_wrt_take sorted_sort_key)

lemma length_list_resolved_active: "length (list_resolved_active pn pr k bs seen dead s) \<le> k"
  by (simp add: list_resolved_active_def)

text \<open>The counters of resolved routes agree with the list: the total is the number of rows that
  \<open>list_resolved_active\<close> returns when neither a limit nor the state of the entries restricts it,
  and the counts per region add up to the total.\<close>

theorem count_resolved_active_agrees:
  assumes "length (routes s) \<le> k"
  shows "count_resolved_active seen s = length (list_resolved_active pn pr k None seen True s) \<and>
         sum_list (map snd (count_resolved_active_by_region seen s)) = count_resolved_active seen s"
proof
  let ?rows = "filter (resolved_active s seen) (List.map_filter (join_route s) (routes s))"
  have "length ?rows \<le> length (routes s)"
    by (rule order_trans [OF length_filter_le]) (simp add: List.map_filter_def)
  then show "count_resolved_active seen s = length (list_resolved_active pn pr k None seen True s)"
    using assms by (simp add: count_resolved_active_def list_resolved_active_def)
  show "sum_list (map snd (count_resolved_active_by_region seen s)) = count_resolved_active seen s"
    using sum_group_counts [of "map (\<lambda>(r, n, p). region n) ?rows"]
    by (simp only: count_resolved_active_by_region_def Let_def map_map comp_def snd_conv
        count_resolved_active_def length_map)
qed

definition sample_node :: "uuid \<Rightarrow> string \<Rightarrow> vpn_node" where
  "sample_node i r =
     \<lparr>row_id = i, created_at = 0, updated_at = 0, is_active = True, node_name = ''n'', role = r,
      region = ''eu'', public_domain = ''d'', reality_ip = None, internal_wg_ip = ''10.0.0.1'',
      node_key = None, xray_api_port = 10085, auth_token_hash = [], agent_port = 9000,
      is_enabled = True, is_draining = False, is_virtual = False, drain_source = None,
      capacity = 100, zone = None, upstream_node_id = None, bootstrap_token_expires_at = None,
      bootstrapped_at = None, wg_public_key = None, wg_listen_port = None\<rparr>"

definition sample_profile :: transport_profile where
  "sample_profile =
     \<lparr>row_id = 3, created_at = 0, updated_at = 0, is_active = True, tp_name = ''reality'',
      tp_protocol = ''vless'', tp_network = ''tcp'', tp_security = ''reality'', tp_flow = None,
      reality_public_key = Some ''k'', reality_short_id = Some ''s'', reality_server_name = Some ''h'',
      tls_fingerprint = ''chrome'', grpc_service_name = None, tp_port = 443\<rparr>"

definition sample_agent_state :: "uuid \<Rightarrow> time \<Rightarrow> node_agent_state" where
  "sample_agent_state i seen =
     \<lparr>row_id = i + 100, created_at = 0, updated_at = 0, is_active = True, nas_node_id = i,
      agent_version = ''1'', last_config_version = 0, last_sync_at = None, last_seen_at = Some seen,
      is_healthy = True,
      details = \<lparr>d_runtime = None, d_stats = None, d_sync = None, d_pool = None, d_upstream = None,
                 d_mesh = None, d_heartbeat = None\<rparr>\<rparr>"

text \<open>A backend 2 that was seen at time 0, its profile, and the route 1 through it.\<close>

definition sample_db :: db where
  "sample_db = empty_db\<lparr>nodes := [sample_node 2 ''backend''], profiles := [sample_profile],
     agent_states := [sample_agent_state 2 0], routes := [sample_route 50]\<rparr>"

theorem count_resolved_active_agrees_witness:
  "count_resolved_active None sample_db = 1 \<and>
   count_resolved_active None sample_db = length (list_resolved_active None None 5 None None True sample_db)"
proof
  have "length (routes sample_db) \<le> 5" by (simp add: sample_db_def)
  then show "count_resolved_active None sample_db
      = length (list_resolved_active None None 5 None None True sample_db)"
    by (rule count_resolved_active_agrees [THEN conjunct1])
  show "count_resolved_active None sample_db = 1"
    by (simp add: count_resolved_active_def sample_db_def List.map_filter_def join_route_def node_of_def
        profile_of_def get_by_id_def sample_node_def sample_profile_def sample_route_def
        resolved_active_def routed_health_def agent_state_of_def get_one_by_def sample_agent_state_def)
qed

end
