(* ===== verification/Outbox.thy ===== *)
theory Outbox
  imports Repository
begin

text \<open>
  \<open>services/nodes/agent/repository.py\<close>: the transactional outbox, the log of processed
  events and the transport state of the nodes; and \<open>_publish_outbox_batch\<close> of
  \<open>services/nodes/agent/runtime.py\<close>, which sends what is due.  The message broker is a
  parameter: what publishing one message gives, an error or nothing.
\<close>

section \<open>Enqueueing\<close>

record outbox_item =
  oi_node_id :: uuid
  oi_event_type :: event_type
  oi_aggregate_id :: "uuid option"
  oi_op_version :: "int option"
  oi_subject :: subject
  oi_payload :: payload
  oi_message_id :: message_id

definition new_outbox_row :: "time \<Rightarrow> uuid \<Rightarrow> outbox_item \<Rightarrow> outbox_row" where
  "new_outbox_row now i item =
     \<lparr>row_id = i, created_at = now, updated_at = now, is_active = True,
      ob_node_id = oi_node_id item, ob_event_type = oi_event_type item,
      ob_aggregate_id = oi_aggregate_id item, ob_op_version = oi_op_version item,
      ob_subject = oi_subject item, ob_payload = oi_payload item,
      ob_message_id = oi_message_id item, ob_status = ob_pending, ob_attempts = 0,
      ob_published_at = None, ob_last_error = None, ob_next_retry_at = None\<rparr>"

definition enqueue_one :: "time \<Rightarrow> outbox_item \<Rightarrow> db \<Rightarrow> db" where
  "enqueue_one now item s =
     (if oi_message_id item \<in> ob_message_id ` set (outbox s) then s
      else let (i, s1) = uuid4 s in
           s1\<lparr>outbox := create_row (new_outbox_row now i item) (outbox s1)\<rparr>)"

text \<open>One \<open>INSERT ... ON CONFLICT (message_id) DO NOTHING\<close> for all the rows.\<close>

definition enqueue_many :: "time \<Rightarrow> outbox_item list \<Rightarrow> db \<Rightarrow> db" where
  "enqueue_many now items s = fold (enqueue_one now) items s"

section \<open>Claiming and marking\<close>

definition outbox_due :: "time \<Rightarrow> outbox_row \<Rightarrow> bool" where
  "outbox_due now r \<longleftrightarrow>
     (ob_status r = ob_pending \<or> ob_status r = ob_failed) \<and>
     (case ob_next_retry_at r of None \<Rightarrow> True | Some t \<Rightarrow> t \<le> now)"

definition claim_batch :: "time \<Rightarrow> nat \<Rightarrow> db \<Rightarrow> outbox_row list \<times> db" where
  "claim_batch now n s =
     (let rows = take n (sort_key (\<lambda>r. (created_at r, row_id r)) (filter (outbox_due now) (outbox s)))
      in if rows = [] then ([], s)
         else (rows, s\<lparr>outbox := update_where (\<lambda>r. row_id r \<in> set (map row_id rows))
                 (\<lambda>r. r\<lparr>ob_status := ob_publishing, ob_attempts := ob_attempts r + 1, updated_at := now\<rparr>)
                 (outbox s)\<rparr>))"

definition mark_published :: "time \<Rightarrow> uuid \<Rightarrow> db \<Rightarrow> db" where
  "mark_published published_at i s =
     s\<lparr>outbox := update_by_id i
         (\<lambda>r. r\<lparr>ob_status := ob_published, ob_published_at := Some published_at,
                ob_next_retry_at := None, ob_last_error := None, updated_at := published_at\<rparr>)
         (outbox s)\<rparr>"

definition mark_failed :: "time \<Rightarrow> uuid \<Rightarrow> string \<Rightarrow> time \<Rightarrow> db \<Rightarrow> db" where
  "mark_failed now i error next_retry s =
     s\<lparr>outbox := update_by_id i
         (\<lambda>r. r\<lparr>ob_status := ob_failed, ob_last_error := Some (take 4000 error),
                ob_next_retry_at := Some next_retry, updated_at := now\<rparr>)
         (outbox s)\<rparr>"

section \<open>The event log\<close>

definition new_event_log_row ::
  "uuid \<Rightarrow> uuid \<Rightarrow> string \<Rightarrow> string \<Rightarrow> string option \<Rightarrow> time \<Rightarrow> event_log_row" where
  "new_event_log_row i node_id kind event_id sub processed_at =
     \<lparr>row_id = i, created_at = processed_at, updated_at = processed_at, is_active = True,
      el_node_id = node_id, el_event_type = kind, el_event_id = event_id, el_subject = sub,
      el_processed_at = processed_at\<rparr>"

definition record_if_new ::
  "uuid \<Rightarrow> string \<Rightarrow> string \<Rightarrow> string option \<Rightarrow> time \<Rightarrow> db \<Rightarrow> bool \<times> db" where
  "record_if_new node_id kind event_id sub processed_at s =
     (if event_id \<in> el_event_id ` set (event_log s) then (False, s)
      else let (i, s1) = uuid4 s in
           (True, s1\<lparr>event_log := create_row
                       (new_event_log_row i node_id kind event_id sub processed_at) (event_log s1)\<rparr>))"

record event_log_insert =
  eli_node_id :: uuid
  eli_event_type :: string
  eli_event_id :: string
  eli_subject :: "string option"
  eli_processed_at :: time

text \<open>The event ids the statement returns, as a list: each one once.\<close>

fun bulk_record_if_new :: "event_log_insert list \<Rightarrow> db \<Rightarrow> string list \<times> db" where
  "bulk_record_if_new [] s = ([], s)"
| "bulk_record_if_new (e # es) s =
     (let (is_new, s1) = record_if_new (eli_node_id e) (eli_event_type e) (eli_event_id e)
                           (eli_subject e) (eli_processed_at e) s;
          (ids, s2) = bulk_record_if_new es s1
      in (if is_new then eli_event_id e # ids else ids, s2))"

section \<open>The transport state of a node\<close>

definition new_transport_state :: "time \<Rightarrow> uuid \<Rightarrow> uuid \<Rightarrow> transport_state" where
  "new_transport_state now i node_id =
     \<lparr>row_id = i, created_at = now, updated_at = now, is_active = True, ts_node_id = node_id,
      current_epoch = 0, last_snapshot_id = None, last_snapshot_request_event_id = None,
      last_snapshot_requested_at = None, last_snapshot_generated_at = None,
      last_snapshot_reason = None, last_command_published_at = None,
      last_command_message_id = None, last_result_received_at = None, last_result_event_id = None,
      last_heartbeat_received_at = None, last_sync_report_received_at = None\<rparr>"

definition get_or_create :: "time \<Rightarrow> uuid \<Rightarrow> db \<Rightarrow> transport_state \<times> db" where
  "get_or_create now node_id s =
     (case get_one_by (\<lambda>r. ts_node_id r = node_id) (transport_states s) of
        Some existing \<Rightarrow> (existing, s)
      | None \<Rightarrow>
          let (i, s1) = uuid4 s; created = new_transport_state now i node_id in
          (created, s1\<lparr>transport_states := create_row created (transport_states s1)\<rparr>))"

definition reserve_snapshot_epoch ::
  "time \<Rightarrow> uuid \<Rightarrow> string \<Rightarrow> string \<Rightarrow> string \<Rightarrow> time \<Rightarrow> time \<Rightarrow> db \<Rightarrow> (int \<times> string) \<times> db" where
  "reserve_snapshot_epoch now node_id request_event_id snapshot_id reason requested_at generated_at s =
     (let (state, s1) = get_or_create now node_id s;
          new_epoch = current_epoch state + 1;
          reserved = s1\<lparr>transport_states := update_where (\<lambda>r. ts_node_id r = node_id)
            (\<lambda>r. r\<lparr>current_epoch := new_epoch, last_snapshot_id := Some snapshot_id,
               last_snapshot_request_event_id := Some request_event_id,
               last_snapshot_requested_at := Some requested_at,
               last_snapshot_generated_at := Some generated_at,
               last_snapshot_reason := Some reason, updated_at := now\<rparr>) (transport_states s1)\<rparr>
      in case last_snapshot_id state of
           None \<Rightarrow> ((new_epoch, snapshot_id), reserved)
         | Some sid \<Rightarrow>
             if last_snapshot_request_event_id state = Some request_event_id \<and> sid \<noteq> []
             then ((current_epoch state, sid), s1)
             else ((new_epoch, snapshot_id), reserved))"

definition touch_command :: "time \<Rightarrow> uuid \<Rightarrow> message_id \<Rightarrow> time \<Rightarrow> db \<Rightarrow> db" where
  "touch_command now node_id mid t s =
     (let s1 = snd (get_or_create now node_id s) in
      s1\<lparr>transport_states := update_where (\<lambda>r. ts_node_id r = node_id)
        (\<lambda>r. r\<lparr>last_command_published_at := Some t, last_command_message_id := Some mid,
               updated_at := now\<rparr>) (transport_states s1)\<rparr>)"

definition touch_result :: "time \<Rightarrow> uuid \<Rightarrow> string \<Rightarrow> time \<Rightarrow> db \<Rightarrow> db" where
  "touch_result now node_id event_id t s =
     (let s1 = snd (get_or_create now node_id s) in
      s1\<lparr>transport_states := update_where (\<lambda>r. ts_node_id r = node_id)
        (\<lambda>r. r\<lparr>last_result_received_at := Some t, last_result_event_id := Some event_id,
               updated_at := now\<rparr>) (transport_states s1)\<rparr>)"

definition touch_heartbeat :: "time \<Rightarrow> uuid \<Rightarrow> time \<Rightarrow> db \<Rightarrow> db" where
  "touch_heartbeat now node_id t s =
     (let s1 = snd (get_or_create now node_id s) in
      s1\<lparr>transport_states := update_where (\<lambda>r. ts_node_id r = node_id)
        (\<lambda>r. r\<lparr>last_heartbeat_received_at := Some t, updated_at := now\<rparr>) (transport_states s1)\<rparr>)"

definition touch_sync_report :: "time \<Rightarrow> uuid \<Rightarrow> time \<Rightarrow> db \<Rightarrow> db" where
  "touch_sync_report now node_id t s =
     (let s1 = snd (get_or_create now node_id s) in
      s1\<lparr>transport_states := update_where (\<lambda>r. ts_node_id r = node_id)
        (\<lambda>r. r\<lparr>last_sync_report_received_at := Some t, updated_at := now\<rparr>) (transport_states s1)\<rparr>)"

section \<open>Publishing\<close>

text \<open>
  What goes to the broker: the payload of the row for upstream and pool changes, the command
  wrapped in the node's snapshot and epoch for placements.
\<close>

record command_event =
  ce_emitted_at :: time
  ce_snapshot_id :: "string option"
  ce_epoch :: int
  ce_event_id :: message_id
  ce_command :: command_payload

datatype nats_message = RowPayload payload | CommandEvent command_event

definition command_event_of :: "time \<Rightarrow> transport_state \<Rightarrow> message_id \<Rightarrow> command_payload \<Rightarrow> command_event" where
  "command_event_of emitted_at state mid cmd =
     \<lparr>ce_emitted_at = emitted_at, ce_snapshot_id = last_snapshot_id state,
      ce_epoch = current_epoch state, ce_event_id = mid, ce_command = cmd\<rparr>"

text \<open>
  One round of the loop.  \<open>PlacementCommandPayload.model_validate\<close> refuses what is not a
  command with \<open>op_version\<close> at least 1.
\<close>

definition publish_row ::
  "(subject \<Rightarrow> nats_message \<Rightarrow> message_id \<Rightarrow> string option) \<Rightarrow> time \<Rightarrow> outbox_row
   \<Rightarrow> nat \<times> db \<Rightarrow> (nat \<times> db) result" where
  "publish_row nats now row = (\<lambda>(published, s).
     if ob_event_type row = upstream_changed \<or> ob_event_type row = pool_changed then
       (case nats (ob_subject row) (RowPayload (ob_payload row)) (ob_message_id row) of
          Some err \<Rightarrow> Inr (published, mark_failed now (row_id row) err (now + usec 5) s)
        | None \<Rightarrow> Inr (published + 1, mark_published now (row_id row) s))
     else
       (case ob_payload row of
          CommandPayload cmd \<Rightarrow>
            if cp_op_version cmd < 1 then Inl (ValidationError ''op_version'')
            else let (state, s1) = get_or_create now (cp_node_id cmd) s;
                     msg = CommandEvent (command_event_of now state (ob_message_id row) cmd)
                 in (case nats (ob_subject row) msg (ob_message_id row) of
                       Some err \<Rightarrow> Inr (published, mark_failed now (row_id row) err (now + usec 5) s1)
                     | None \<Rightarrow> Inr (published + 1,
                         touch_command now (cp_node_id cmd) (ob_message_id row) now
                           (mark_published now (row_id row) s1)))
        | _ \<Rightarrow> Inl (ValidationError ''PlacementCommandPayload'')))"

fun publish_rows ::
  "(subject \<Rightarrow> nats_message \<Rightarrow> message_id \<Rightarrow> string option) \<Rightarrow> time \<Rightarrow> outbox_row list
   \<Rightarrow> nat \<times> db \<Rightarrow> (nat \<times> db) result" where
  "publish_rows nats now [] acc = Inr acc"
| "publish_rows nats now (r # rs) acc =
     (case publish_row nats now r acc of Inl e \<Rightarrow> Inl e | Inr acc' \<Rightarrow> publish_rows nats now rs acc')"

text \<open>An exception leaves the session without a commit: the claim is rolled back.\<close>

definition publish_outbox_batch ::
  "(subject \<Rightarrow> nats_message \<Rightarrow> message_id \<Rightarrow> string option) \<Rightarrow> time \<Rightarrow> nat \<Rightarrow> db \<Rightarrow> nat result \<times> db" where
  "publish_outbox_batch nats now batch_size s =
     (let (rows, s1) = claim_batch now batch_size s in
      if rows = [] then (Inr 0, s)
      else case publish_rows nats now rows (0, s1) of
             Inl e \<Rightarrow> (Inl e, s)
           | Inr (published, s2) \<Rightarrow> (Inr published, s2))"

section \<open>The invariant of the outbox\<close>

text \<open>
  Between transactions no row is being published; message ids are unique.  The row invariant
  of a published message is that it carries the time of its publication.
\<close>

definition outbox_row_ok :: "outbox_row \<Rightarrow> bool" where
  "outbox_row_ok r \<longleftrightarrow>
     ob_status r \<noteq> ob_publishing \<and> 0 \<le> ob_attempts r \<and>
     (ob_status r = ob_published \<longleftrightarrow> ob_published_at r \<noteq> None) \<and>
     (ob_status r \<noteq> ob_pending \<longleftrightarrow> 0 < ob_attempts r) \<and>
     (ob_status r = ob_failed \<longleftrightarrow> ob_next_retry_at r \<noteq> None)"

definition outbox_inv :: "db \<Rightarrow> bool" where
  "outbox_inv s \<longleftrightarrow>
     ids_ok (outbox s) \<and> below (uuid_supply s) (outbox s) \<and>
     distinct (map ob_message_id (outbox s)) \<and> list_all outbox_row_ok (outbox s)"

lemma outbox_inv_empty [simp]: "outbox_inv empty_db"
  by (simp add: outbox_inv_def)

lemma new_outbox_row_sel [simp]:
  "row_id (new_outbox_row now i item) = i"
  "ob_message_id (new_outbox_row now i item) = oi_message_id item"
  "ob_node_id (new_outbox_row now i item) = oi_node_id item"
  "ob_payload (new_outbox_row now i item) = oi_payload item"
  "ob_status (new_outbox_row now i item) = ob_pending"
  "ob_next_retry_at (new_outbox_row now i item) = None"
  "outbox_row_ok (new_outbox_row now i item)"
  by (simp_all add: new_outbox_row_def outbox_row_ok_def)

lemma outbox_inv_enqueue_one: "outbox_inv s \<Longrightarrow> outbox_inv (enqueue_one now item s)"
  by (auto simp: enqueue_one_def outbox_inv_def Let_def split_def create_row_def ids_ok_def
      below_Suc [unfolded below_def] below_def list_all_iff less_Suc_eq)

lemma outbox_inv_enqueue_many: "outbox_inv s \<Longrightarrow> outbox_inv (enqueue_many now items s)"
  unfolding enqueue_many_def
  by (induction items arbitrary: s) (auto intro: outbox_inv_enqueue_one)

lemma enqueue_one_message_ids:
  "ob_message_id ` set (outbox (enqueue_one now item s)) =
     insert (oi_message_id item) (ob_message_id ` set (outbox s))"
  by (auto simp: enqueue_one_def Let_def split_def create_row_def)

lemma enqueue_many_message_ids:
  "ob_message_id ` set (outbox (enqueue_many now items s)) =
     oi_message_id ` set items \<union> ob_message_id ` set (outbox s)"
  unfolding enqueue_many_def
  by (induction items arbitrary: s) (auto simp: enqueue_one_message_ids)

lemma enqueue_many_known:
  "oi_message_id ` set items \<subseteq> ob_message_id ` set (outbox s) \<Longrightarrow> enqueue_many now items s = s"
  unfolding enqueue_many_def
  by (induction items arbitrary: s) (auto simp: enqueue_one_def)

lemma enqueue_one_prefix: "\<exists>new. outbox (enqueue_one now item s) = outbox s @ new"
  by (auto simp: enqueue_one_def Let_def split_def create_row_def)

lemma enqueue_many_prefix: "\<exists>new. outbox (enqueue_many now items s) = outbox s @ new"
  unfolding enqueue_many_def
proof (induction items arbitrary: s)
  case (Cons item items)
  obtain new1 where "outbox (enqueue_one now item s) = outbox s @ new1"
    using enqueue_one_prefix by blast
  with Cons [of "enqueue_one now item s"] show ?case by auto
qed simp

text \<open>Enqueueing touches the outbox and the supply of ids only.\<close>

lemma enqueue_one_frame:
  "nodes (enqueue_one now item s) = nodes s" "routes (enqueue_one now item s) = routes s"
  "placements (enqueue_one now item s) = placements s"
  "agent_states (enqueue_one now item s) = agent_states s"
  "vpn_keys (enqueue_one now item s) = vpn_keys s"
  "profiles (enqueue_one now item s) = profiles s"
  "assignments (enqueue_one now item s) = assignments s"
  "signals (enqueue_one now item s) = signals s"
  "node_traffic (enqueue_one now item s) = node_traffic s" "alerts (enqueue_one now item s) = alerts s"
  "identities (enqueue_one now item s) = identities s"
  "event_log (enqueue_one now item s) = event_log s"
  "transport_states (enqueue_one now item s) = transport_states s"
  "the_node_policy (enqueue_one now item s) = the_node_policy s"
  "the_probe_policy (enqueue_one now item s) = the_probe_policy s"
  "uuid_supply s \<le> uuid_supply (enqueue_one now item s)"
  by (simp_all add: enqueue_one_def Let_def split_def)

lemma enqueue_many_frame [simp]:
  "nodes (enqueue_many now items s) = nodes s" "routes (enqueue_many now items s) = routes s"
  "placements (enqueue_many now items s) = placements s"
  "agent_states (enqueue_many now items s) = agent_states s"
  "vpn_keys (enqueue_many now items s) = vpn_keys s"
  "profiles (enqueue_many now items s) = profiles s"
  "assignments (enqueue_many now items s) = assignments s"
  "signals (enqueue_many now items s) = signals s"
  "node_traffic (enqueue_many now items s) = node_traffic s" "alerts (enqueue_many now items s) = alerts s"
  "identities (enqueue_many now items s) = identities s"
  "event_log (enqueue_many now items s) = event_log s"
  "transport_states (enqueue_many now items s) = transport_states s"
  "the_node_policy (enqueue_many now items s) = the_node_policy s"
  "the_probe_policy (enqueue_many now items s) = the_probe_policy s"
  unfolding enqueue_many_def
  by (induction items arbitrary: s; simp add: enqueue_one_frame)+

text \<open>Nothing but the outbox and the supply of ids changes.\<close>

definition only_outbox :: "db \<Rightarrow> db \<Rightarrow> bool" where
  "only_outbox s s' \<longleftrightarrow> s' = s\<lparr>outbox := outbox s', uuid_supply := uuid_supply s'\<rparr>"

lemma only_outbox_refl [simp]: "only_outbox s s"
  by (simp add: only_outbox_def)

lemma only_outbox_trans: "only_outbox s s1 \<Longrightarrow> only_outbox s1 s2 \<Longrightarrow> only_outbox s s2"
  by (cases s; cases s1; cases s2) (simp add: only_outbox_def)

lemma only_outbox_supply: "only_outbox s (s\<lparr>uuid_supply := u\<rparr>)"
  by (simp add: only_outbox_def)

lemma only_outboxD:
  assumes "only_outbox s s'"
  shows "nodes s' = nodes s" "agent_states s' = agent_states s" "identities s' = identities s"
    "profiles s' = profiles s" "routes s' = routes s" "placements s' = placements s" "vpn_keys s' = vpn_keys s"
    "assignments s' = assignments s" "route_assignments s' = route_assignments s" "signals s' = signals s"
    "node_traffic s' = node_traffic s" "alerts s' = alerts s" "event_log s' = event_log s"
    "transport_states s' = transport_states s" "the_node_policy s' = the_node_policy s"
    "the_probe_policy s' = the_probe_policy s"
  using assms by (cases s; cases s'; simp add: only_outbox_def)+

lemma only_outbox_enqueue_one: "only_outbox s (enqueue_one now item s)"
  by (simp add: only_outbox_def enqueue_one_def Let_def split_def)

lemma only_outbox_enqueue_many: "only_outbox s (enqueue_many now items s)"
  unfolding enqueue_many_def
  by (induction items arbitrary: s) (auto intro: only_outbox_trans only_outbox_enqueue_one)

lemma enqueue_many_supply: "uuid_supply s \<le> uuid_supply (enqueue_many now items s)"
  unfolding enqueue_many_def
  by (induction items arbitrary: s) (auto intro: order_trans enqueue_one_frame)

section \<open>The interface the services enqueue through\<close>

locale outbox_queue =
  fixes enq :: "'item list \<Rightarrow> 's \<Rightarrow> 's"
    and mids :: "'s \<Rightarrow> 'm set"
    and mid :: "'item \<Rightarrow> 'm"
    and ok :: "'s \<Rightarrow> bool"
  assumes enq_mids: "mids (enq items s) = mid ` set items \<union> mids s"
    and enq_known: "mid ` set items \<subseteq> mids s \<Longrightarrow> enq items s = s"
    and enq_ok: "ok s \<Longrightarrow> ok (enq items s)"
begin

lemma enq_absorb: "mid ` set xs \<subseteq> mid ` set ys \<Longrightarrow> enq xs (enq ys s) = enq ys s"
  by (rule enq_known) (auto simp: enq_mids)

lemma enq_idem: "enq xs (enq xs s) = enq xs s"
  by (simp add: enq_absorb)

lemma enq_nothing: "enq [] s = s"
  by (simp add: enq_known)

end

interpretation ob: outbox_queue "enqueue_many now" "\<lambda>s. ob_message_id ` set (outbox s)"
  oi_message_id outbox_inv for now
  by unfold_locales (simp_all add: enqueue_many_message_ids enqueue_many_known outbox_inv_enqueue_many)

section \<open>What a batch does\<close>

text \<open>The row a publication leaves behind, for the broker's answer.\<close>

definition settle :: "time \<Rightarrow> string option \<Rightarrow> outbox_row \<Rightarrow> outbox_row" where
  "settle now res r =
     (case res of
        None \<Rightarrow> r\<lparr>ob_status := ob_published, ob_published_at := Some now, ob_next_retry_at := None,
                  ob_last_error := None, updated_at := now\<rparr>
      | Some err \<Rightarrow> r\<lparr>ob_status := ob_failed, ob_last_error := Some (take 4000 err),
                  ob_next_retry_at := Some (now + usec 5), updated_at := now\<rparr>)"

definition claimed :: "time \<Rightarrow> outbox_row \<Rightarrow> outbox_row" where
  "claimed now r = r\<lparr>ob_status := ob_publishing, ob_attempts := ob_attempts r + 1, updated_at := now\<rparr>"

lemma settle_keeps [simp]:
  "row_id (settle now res r) = row_id r" "ob_message_id (settle now res r) = ob_message_id r"
  "ob_payload (settle now res r) = ob_payload r" "ob_attempts (settle now res r) = ob_attempts r"
  by (simp_all add: settle_def split: option.splits)

lemma claimed_keeps [simp]:
  "row_id (claimed now r) = row_id r" "ob_message_id (claimed now r) = ob_message_id r"
  "ob_payload (claimed now r) = ob_payload r" "ob_attempts (claimed now r) = ob_attempts r + 1"
  by (simp_all add: claimed_def)

lemma settle_status [simp]:
  "ob_status (settle now res r) = (if res = None then ob_published else ob_failed)"
  by (simp add: settle_def split: option.splits)

lemma settle_claimed_ok:
  "outbox_row_ok r \<Longrightarrow> ob_status r \<noteq> ob_published \<Longrightarrow> outbox_row_ok (settle now res (claimed now r))"
  by (auto simp: outbox_row_ok_def settle_def claimed_def split: option.splits)

lemma get_or_create_outbox [simp]:
  "outbox (snd (get_or_create now n s)) = outbox s"
  by (simp add: get_or_create_def Let_def split_def split: option.splits)

lemma get_or_create_supply: "uuid_supply s \<le> uuid_supply (snd (get_or_create now n s))"
  by (simp add: get_or_create_def Let_def split_def split: option.splits)

lemma touch_command_outbox [simp]: "outbox (touch_command now n m t s) = outbox s"
  by (simp add: touch_command_def Let_def)

lemma touch_command_supply: "uuid_supply s \<le> uuid_supply (touch_command now n m t s)"
  by (simp add: touch_command_def Let_def get_or_create_supply)

lemma mark_published_outbox:
  "outbox (mark_published now i s) = update_by_id i (settle now None) (outbox s)"
  "uuid_supply (mark_published now i s) = uuid_supply s"
  by (simp_all add: mark_published_def settle_def [abs_def])

lemma mark_failed_outbox:
  "outbox (mark_failed now i err (now + usec 5) s) = update_by_id i (settle now (Some err)) (outbox s)"
  "uuid_supply (mark_failed now i err t s) = uuid_supply s"
  by (simp_all add: mark_failed_def settle_def [abs_def])

lemmas publish_simps = mark_published_outbox mark_failed_outbox

lemma publish_row_outbox:
  assumes "publish_row nats now r (n, s) = Inr (n', s')"
  shows "\<exists>res. outbox s' = update_by_id (row_id r) (settle now res) (outbox s) \<and>
           n' = (if res = None then n + 1 else n) \<and> uuid_supply s \<le> uuid_supply s' \<and>
           (\<exists>sub msg mid. nats sub msg mid = res)"
proof -
  have sup: "uuid_supply s \<le> uuid_supply (snd (get_or_create now m s))" for m
    by (rule get_or_create_supply)
  show ?thesis
  proof (cases "ob_event_type r = upstream_changed \<or> ob_event_type r = pool_changed")
    case True
    let ?res = "nats (ob_subject r) (RowPayload (ob_payload r)) (ob_message_id r)"
    from True assms show ?thesis
      by (cases ?res; intro exI [of _ ?res]) (auto simp: publish_row_def publish_simps)
  next
    case False
    with assms obtain cmd where cmd: "ob_payload r = CommandPayload cmd" "1 \<le> cp_op_version cmd"
      by (cases "ob_payload r") (auto simp: publish_row_def split: if_splits)
    let ?g = "get_or_create now (cp_node_id cmd) s"
    let ?msg = "CommandEvent (command_event_of now (fst ?g) (ob_message_id r) cmd)"
    show ?thesis
    proof (cases "nats (ob_subject r) ?msg (ob_message_id r)")
      case None
      with False assms cmd have "s' = touch_command now (cp_node_id cmd) (ob_message_id r) now
          (mark_published now (row_id r) (snd ?g))" "n' = n + 1"
        by (simp_all add: publish_row_def Let_def split_def)
      then show ?thesis
        using order_trans [OF sup touch_command_supply
            [of "mark_published now (row_id r) (snd ?g)", unfolded publish_simps]]
        by (intro exI [of _ None]) (auto simp: publish_simps intro: None)
    next
      case (Some err)
      with False assms cmd show ?thesis
        by (intro exI [of _ "Some err"])
           (auto simp: publish_row_def Let_def split_def publish_simps sup)
    qed
  qed
qed

lemma publish_rows_outbox:
  assumes "publish_rows nats now rs (n, s) = Inr (n', s')" and "distinct (map row_id rs)"
  shows "\<exists>f. outbox s' = fold (\<lambda>j. update_by_id j (settle now (f j))) (map row_id rs) (outbox s) \<and>
           n' = n + length (filter (\<lambda>r. f (row_id r) = None) rs) \<and> uuid_supply s \<le> uuid_supply s' \<and>
           (\<forall>r \<in> set rs. \<exists>sub msg mid. nats sub msg mid = f (row_id r))"
  using assms
proof (induction rs arbitrary: n s)
  case Nil
  then show ?case by simp
next
  case (Cons r rs)
  from Cons.prems(1) obtain n1 s1 where
    1: "publish_row nats now r (n, s) = Inr (n1, s1)" and
    2: "publish_rows nats now rs (n1, s1) = Inr (n', s')"
    by (auto split: sum.splits)
  from publish_row_outbox [OF 1] obtain res where
    r: "outbox s1 = update_by_id (row_id r) (settle now res) (outbox s)"
       "n1 = (if res = None then n + 1 else n)" "uuid_supply s \<le> uuid_supply s1"
       "\<exists>sub msg mid. nats sub msg mid = res" by blast
  from Cons.IH [OF 2] Cons.prems(2) obtain f where
    f: "outbox s' = fold (\<lambda>j. update_by_id j (settle now (f j))) (map row_id rs) (outbox s1)"
       "n' = n1 + length (filter (\<lambda>r. f (row_id r) = None) rs)" "uuid_supply s1 \<le> uuid_supply s'"
       "\<forall>r \<in> set rs. \<exists>sub msg mid. nats sub msg mid = f (row_id r)"
    by auto
  let ?f = "f(row_id r := res)"
  have fresh: "row_id r \<notin> set (map row_id rs)" using Cons.prems(2) by simp
  then have "fold (\<lambda>j. update_by_id j (settle now (?f j))) (map row_id rs) t =
      fold (\<lambda>j. update_by_id j (settle now (f j))) (map row_id rs) t" for t :: "outbox_row list"
    by (intro fold_cong refl) (metis fun_upd_other fresh)
  moreover have "filter (\<lambda>r'. ?f (row_id r') = None) rs = filter (\<lambda>r'. f (row_id r') = None) rs"
    using fresh by (intro filter_cong refl) (metis fun_upd_other image_eqI set_map)
  ultimately show ?case using r f by (intro exI [of _ ?f]) auto
qed

definition claimed_rows :: "time \<Rightarrow> nat \<Rightarrow> db \<Rightarrow> outbox_row list" where
  "claimed_rows now k s =
     take k (sort_key (\<lambda>r. (created_at r, row_id r)) (filter (outbox_due now) (outbox s)))"

lemma claim_batch_simps:
  "fst (claim_batch now k s) = claimed_rows now k s"
  "uuid_supply (snd (claim_batch now k s)) = uuid_supply s"
  by (simp_all add: claim_batch_def Let_def claimed_rows_def)

lemma claimed_rows_due: "r \<in> set (claimed_rows now k s) \<Longrightarrow> r \<in> set (outbox s) \<and> outbox_due now r"
  unfolding claimed_rows_def by (drule in_set_takeD) simp

lemma claimed_rows_distinct:
  assumes "ids_ok (outbox s)"
  shows "distinct (map row_id (claimed_rows now k s))"
proof -
  let ?due = "filter (outbox_due now) (outbox s)"
  have "mset (map row_id (sort_key (\<lambda>r. (created_at r, row_id r)) ?due)) = mset (map row_id ?due)"
    by simp
  then have "distinct (map row_id (sort_key (\<lambda>r. (created_at r, row_id r)) ?due))"
    using assms distinct_map_filter [of row_id "outbox s"]
    by (metis ids_ok_def mset_eq_imp_distinct_iff)
  then show ?thesis by (simp only: claimed_rows_def take_map [symmetric] distinct_take)
qed

lemma claimed_rows_mem:
  assumes "ids_ok (outbox s)" "r \<in> set (outbox s)"
  shows "row_id r \<in> set (map row_id (claimed_rows now k s)) \<longleftrightarrow> r \<in> set (claimed_rows now k s)"
proof
  assume "row_id r \<in> set (map row_id (claimed_rows now k s))"
  then obtain r' where "r' \<in> set (claimed_rows now k s)" "row_id r' = row_id r" by auto
  moreover have "r' = r"
    using assms calculation claimed_rows_due
    by (auto simp: ids_ok_def intro: distinct_map_unique [of row_id "outbox s"])
  ultimately show "r \<in> set (claimed_rows now k s)" by simp
qed simp

lemma claim_batch_outbox:
  assumes "ids_ok (outbox s)"
  shows "outbox (snd (claim_batch now k s)) =
    map (\<lambda>r. if r \<in> set (claimed_rows now k s) then claimed now r else r) (outbox s)"
  using claimed_rows_mem [OF assms, of _ now k]
  by (simp add: claim_batch_def Let_def claimed_rows_def [symmetric] update_where_def claimed_def)

text \<open>One pass over the table describes a whole batch.\<close>

lemma publish_outbox_batch_outbox:
  assumes "ids_ok (outbox s)" and "publish_outbox_batch nats now k s = (Inr n, s')"
  shows "\<exists>f. outbox s' = map (\<lambda>r. if r \<in> set (claimed_rows now k s)
                                  then settle now (f (row_id r)) (claimed now r) else r) (outbox s) \<and>
           n = length (filter (\<lambda>r. f (row_id r) = None) (claimed_rows now k s)) \<and>
           uuid_supply s \<le> uuid_supply s' \<and>
           (\<forall>r \<in> set (claimed_rows now k s). \<exists>sub msg mid. nats sub msg mid = f (row_id r))"
proof (cases "claimed_rows now k s = []")
  case True
  with assms(2) show ?thesis
    by (auto simp: publish_outbox_batch_def split_def claim_batch_simps)
next
  case False
  let ?rows = "claimed_rows now k s" and ?s1 = "snd (claim_batch now k s)"
  from False assms(2) have "publish_rows nats now ?rows (0, ?s1) = Inr (n, s')"
    by (auto simp: publish_outbox_batch_def split_def claim_batch_simps split: sum.splits)
  from publish_rows_outbox [OF this claimed_rows_distinct [OF assms(1)]] obtain f where
    f: "outbox s' = fold (\<lambda>j. update_by_id j (settle now (f j))) (map row_id ?rows) (outbox ?s1)"
       "n = length (filter (\<lambda>r. f (row_id r) = None) ?rows)" "uuid_supply ?s1 \<le> uuid_supply s'"
       "\<forall>r \<in> set ?rows. \<exists>sub msg mid. nats sub msg mid = f (row_id r)" by auto
  have "outbox s' = map (\<lambda>r. if r \<in> set ?rows then settle now (f (row_id r)) (claimed now r) else r) (outbox s)"
    using claimed_rows_mem [OF assms(1)] claimed_rows_distinct [OF assms(1), of now k]
    by (simp add: f(1) fold_update_by_id claim_batch_outbox [OF assms(1)])
  with f show ?thesis by (auto simp: claim_batch_simps intro!: exI [of _ f])
qed

lemma outbox_due_unpublished: "outbox_due now r \<Longrightarrow> ob_status r \<noteq> ob_published"
  by (auto simp: outbox_due_def)

lemma outbox_inv_publish:
  assumes inv: "outbox_inv s" and "publish_outbox_batch nats now k s = (Inr n, s')"
  shows "outbox_inv s'"
proof -
  from inv have ids: "ids_ok (outbox s)" by (simp add: outbox_inv_def)
  from publish_outbox_batch_outbox [OF ids assms(2)] obtain f where
    f: "outbox s' = map (\<lambda>r. if r \<in> set (claimed_rows now k s)
                           then settle now (f (row_id r)) (claimed now r) else r) (outbox s)"
       "uuid_supply s \<le> uuid_supply s'" by auto
  then have same: "map row_id (outbox s') = map row_id (outbox s)"
    "map ob_message_id (outbox s') = map ob_message_id (outbox s)" by auto
  have "below (uuid_supply s') (outbox s')"
    using inv f(2) by (auto simp: outbox_inv_def below_def list_all_iff f(1))
  moreover have "list_all outbox_row_ok (outbox s')"
    using inv claimed_rows_due [of _ now k s]
    by (auto simp: outbox_inv_def list_all_iff f(1)
        intro!: settle_claimed_ok dest: outbox_due_unpublished)
  ultimately show ?thesis using inv same by (simp add: outbox_inv_def ids_ok_def)
qed

lemma mset_filter_claimed:
  assumes "ids_ok (outbox s)"
  shows "mset (filter (\<lambda>r. r \<in> set (claimed_rows now k s)) (outbox s)) = mset (claimed_rows now k s)"
proof -
  have "distinct (outbox s)" using assms by (simp add: ids_ok_def distinct_map)
  moreover have "distinct (claimed_rows now k s)"
    using claimed_rows_distinct [OF assms] by (simp add: distinct_map)
  ultimately show ?thesis
    using claimed_rows_due [of _ now k s] by (intro set_eq_iff_mset_eq_distinct [THEN iffD1]) auto
qed

lemma published_count:
  assumes "ids_ok (outbox s)" and out: "outbox s' = map (\<lambda>r. if r \<in> set (claimed_rows now k s)
      then settle now (f (row_id r)) (claimed now r) else r) (outbox s)"
  shows "length (filter (\<lambda>r. ob_status r = ob_published) (outbox s')) =
    length (filter (\<lambda>r. ob_status r = ob_published) (outbox s)) +
    length (filter (\<lambda>r. f (row_id r) = None) (claimed_rows now k s))"
proof -
  let ?C = "claimed_rows now k s" and ?pub = "\<lambda>r. ob_status r = ob_published"
  have "length (filter ?pub (map (\<lambda>r. if r \<in> set ?C then settle now (f (row_id r)) (claimed now r) else r) t)) =
      length (filter (\<lambda>r. r \<notin> set ?C \<and> ?pub r) t) +
      length (filter (\<lambda>r. r \<in> set ?C \<and> f (row_id r) = None) t)" for t
    by (induction t) auto
  then have "length (filter ?pub (outbox s')) =
      length (filter (\<lambda>r. r \<notin> set ?C \<and> ?pub r) (outbox s)) +
      length (filter (\<lambda>r. r \<in> set ?C \<and> f (row_id r) = None) (outbox s))"
    by (simp only: out)
  also have "filter (\<lambda>r. r \<notin> set ?C \<and> ?pub r) (outbox s) = filter ?pub (outbox s)"
    using claimed_rows_due [of _ now k s] by (intro filter_cong refl) (auto dest: outbox_due_unpublished)
  also have "length (filter (\<lambda>r. r \<in> set ?C \<and> f (row_id r) = None) (outbox s)) =
      length (filter (\<lambda>r. f (row_id r) = None) ?C)"
    using arg_cong [OF mset_filter_claimed [OF assms(1), of now k],
        of "\<lambda>m. size (filter_mset (\<lambda>r. f (row_id r) = None) m)"]
    by (simp flip: mset_filter size_mset add: conj_commute)
  finally show ?thesis .
qed

text \<open>Enqueueing is idempotent and keeps message ids unique: the messages that were there stay,
  each of the given messages is there once afterwards, and enqueueing the same messages again,
  at any later time, changes nothing.\<close>

theorem enqueue_many_idempotent:
  assumes "outbox_inv s"
  shows "outbox_inv (enqueue_many now items s) \<and>
         (\<exists>new. outbox (enqueue_many now items s) = outbox s @ new) \<and>
         (\<forall>item \<in> set items. \<exists>!r. r \<in> set (outbox (enqueue_many now items s)) \<and>
            ob_message_id r = oi_message_id item) \<and>
         enqueue_many later items (enqueue_many now items s) = enqueue_many now items s"
proof (intro conjI ballI)
  let ?s = "enqueue_many now items s"
  show inv: "outbox_inv ?s" using assms by (rule ob.enq_ok)
  show "\<exists>new. outbox ?s = outbox s @ new" by (rule enqueue_many_prefix)
  show "enqueue_many later items ?s = ?s"
    by (rule enqueue_many_known) (auto simp: enqueue_many_message_ids)
  fix item assume "item \<in> set items"
  then have "oi_message_id item \<in> ob_message_id ` set (outbox ?s)"
    by (auto simp: enqueue_many_message_ids)
  then obtain r where r: "r \<in> set (outbox ?s)" "ob_message_id r = oi_message_id item"
    by (metis imageE)
  moreover have "distinct (map ob_message_id (outbox ?s))" using inv by (simp add: outbox_inv_def)
  ultimately show "\<exists>!r. r \<in> set (outbox ?s) \<and> ob_message_id r = oi_message_id item"
    by (metis distinct_map_unique)
qed

definition sample_command :: "uuid \<Rightarrow> int \<Rightarrow> outbox_item" where
  "sample_command p v =
     \<lparr>oi_node_id = 2, oi_event_type = placement_command, oi_aggregate_id = Some p,
      oi_op_version = Some v, oi_subject = CommandsSubject 2,
      oi_payload = CommandPayload \<lparr>cp_placement_id = p, cp_key_id = 7, cp_node_id = 2,
        cp_backend_node_id = 2, cp_op_version = v, cp_desired_state = ds_active,
        cp_protocol = vp_vless, cp_transport = vt_ws, cp_client_id = ''c'', cp_is_revoked = False,
        cp_valid_until = days 30, cp_updated_at = 0, cp_override_backend_tag = None\<rparr>,
      oi_message_id = PlacementCommandId p v\<rparr>"

theorem enqueue_many_idempotent_witness:
  "enqueue_many 9 [sample_command 1 1, sample_command 2 1]
     (enqueue_many 5 [sample_command 1 1, sample_command 2 1] empty_db)
   = enqueue_many 5 [sample_command 1 1, sample_command 2 1] empty_db"
  using enqueue_many_idempotent [OF outbox_inv_empty, of 5 _ 9] by blast


lemmas outbox_eval =
  publish_outbox_batch_def claim_batch_def publish_row_def get_or_create_def enqueue_many_def
  enqueue_one_def new_outbox_row_def outbox_due_def sample_command_def uuid4_def create_row_def
  get_one_by_def mark_published_def touch_command_def update_by_id_def new_transport_state_def


section \<open>Draining\<close>

abbreviation unsent :: "db \<Rightarrow> outbox_row list" where
  "unsent s \<equiv> filter (\<lambda>r. ob_status r \<noteq> ob_published) (outbox s)"

definition sendable :: "outbox_row \<Rightarrow> bool" where
  "sendable r \<longleftrightarrow> ob_event_type r = upstream_changed \<or> ob_event_type r = pool_changed \<or>
     (case ob_payload r of CommandPayload cmd \<Rightarrow> 1 \<le> cp_op_version cmd | _ \<Rightarrow> False)"

lemma publish_row_sendable: "sendable r \<Longrightarrow> \<exists>acc'. publish_row nats now r acc = Inr acc'"
  by (cases acc)
     (auto simp: sendable_def publish_row_def Let_def split_def split: payload.splits option.splits)

lemma publish_rows_sendable: "list_all sendable rs \<Longrightarrow> \<exists>acc'. publish_rows nats now rs acc = Inr acc'"
proof (induction rs arbitrary: acc)
  case (Cons r rs)
  with publish_row_sendable [of r nats now acc] show ?case by auto
qed simp

lemma publish_outbox_batch_sendable:
  assumes "list_all sendable (outbox s)"
  shows "\<exists>n s'. publish_outbox_batch nats now k s = (Inr n, s')"
proof -
  have "list_all sendable (claimed_rows now k s)"
    using assms claimed_rows_due [of _ now k s] by (auto simp: list_all_iff)
  from publish_rows_sendable [OF this, of nats now "(0, snd (claim_batch now k s))"]
  show ?thesis by (auto simp: publish_outbox_batch_def split_def claim_batch_simps Let_def)
qed

text \<open>A round with a broker that accepts everything.\<close>

definition drain_round :: "time \<Rightarrow> nat \<Rightarrow> db \<Rightarrow> db" where
  "drain_round now k s = snd (publish_outbox_batch (\<lambda>_ _ _. None) now k s)"

definition drainable :: "time \<Rightarrow> db \<Rightarrow> bool" where
  "drainable now s \<longleftrightarrow> outbox_inv s \<and> list_all sendable (outbox s) \<and>
     list_all (\<lambda>r. case ob_next_retry_at r of None \<Rightarrow> True | Some t \<Rightarrow> t \<le> now) (outbox s)"

lemma drain_round_step:
  assumes "drainable now s"
  shows "drainable now (drain_round now k s) \<and>
         length (unsent (drain_round now k s)) = length (unsent s) - k"
proof -
  from assms have inv: "outbox_inv s" and ids: "ids_ok (outbox s)"
    by (simp_all add: drainable_def outbox_inv_def)
  from publish_outbox_batch_sendable [of s "\<lambda>_ _ _. None" now k] assms
  obtain n s' where p: "publish_outbox_batch (\<lambda>_ _ _. None) now k s = (Inr n, s')"
    by (auto simp: drainable_def)
  let ?C = "claimed_rows now k s" and ?pub = "\<lambda>r. ob_status r = ob_published"
  from publish_outbox_batch_outbox [OF ids p] obtain f where
    f1: "outbox s' = map (\<lambda>r. if r \<in> set ?C then settle now (f (row_id r)) (claimed now r) else r) (outbox s)" and
    f2: "\<forall>r \<in> set ?C. None = f (row_id r)" by auto
  from f2 have f2': "\<forall>r \<in> set ?C. f (row_id r) = None" by (simp add: eq_commute)
  note f = f1 f2'
  have "outbox_due now r \<longleftrightarrow> ob_status r \<noteq> ob_published" if "r \<in> set (outbox s)" for r
    using assms that
    by (cases "ob_status r")
       (auto simp: drainable_def outbox_inv_def list_all_iff outbox_row_ok_def outbox_due_def)
  then have due: "filter (outbox_due now) (outbox s) = unsent s" by (intro filter_cong refl)
  have "length (filter ?pub (outbox s')) = length (filter ?pub (outbox s)) + length ?C"
    using published_count [OF ids f(1)] f(2) by (simp add: filter_True)
  moreover have "length ?C = min k (length (unsent s))" by (simp add: claimed_rows_def due)
  moreover have "length (outbox s') = length (outbox s)" by (simp add: f(1))
  ultimately have "length (unsent s') = length (unsent s) - k"
    using sum_length_filter_compl [of ?pub "outbox s"] sum_length_filter_compl [of ?pub "outbox s'"]
    by simp
  moreover have "drainable now s'"
    using assms outbox_inv_publish [OF inv p] f
    by (auto simp: drainable_def list_all_iff sendable_def settle_def claimed_def)
  ultimately show ?thesis by (simp add: drain_round_def p)
qed

text \<open>C33: The outbox drains: when the broker accepts messages and every row is due, enough batches of
  size k publish every message (each batch publishes k of them, or all that are left).\<close>

theorem outbox_drains:
  assumes "drainable now s" and "length (unsent s) \<le> m * k"
  shows "unsent ((drain_round now k ^^ m) s) = []"
proof -
  have "drainable now ((drain_round now k ^^ m) s) \<and>
      length (unsent ((drain_round now k ^^ m) s)) = length (unsent s) - m * k" for m
  proof (induction m)
    case 0
    with assms(1) show ?case by simp
  next
    case (Suc m)
    with drain_round_step [of now "(drain_round now k ^^ m) s" k] show ?case by simp
  qed
  from this [of m] assms(2) show ?thesis by simp
qed

theorem outbox_drains_witness:
  "unsent ((drain_round 10 1 ^^ 2) (enqueue_many 5 [sample_command 1 1, sample_command 2 3] empty_db)) = []"
proof (rule outbox_drains)
  let ?s = "enqueue_many 5 [sample_command 1 1, sample_command 2 3] empty_db"
  have "list_all sendable (outbox ?s)"
    "list_all (\<lambda>r. case ob_next_retry_at r of None \<Rightarrow> True | Some t \<Rightarrow> t \<le> 10) (outbox ?s)"
    by (simp_all add: outbox_eval sendable_def)
  then show "drainable 10 ?s" by (simp add: drainable_def ob.enq_ok)
  show "length (unsent ?s) \<le> 2 * 1" by (simp add: outbox_eval)
qed

section \<open>Snapshot epochs\<close>

definition state_of :: "uuid \<Rightarrow> db \<Rightarrow> transport_state option" where
  "state_of node_id s = get_one_by (\<lambda>r. ts_node_id r = node_id) (transport_states s)"

lemma find_update_where_same:
  "(\<And>r. P (f r) = P r) \<Longrightarrow> find P (update_where P f t) = map_option f (find P t)"
  by (induction t) auto

lemma find_append_new: "find P t = None \<Longrightarrow> find P (t @ [r]) = (if P r then Some r else None)"
  by (induction t) auto

lemma get_or_create_state_of: "state_of n (snd (get_or_create now n s)) = Some (fst (get_or_create now n s))"
  by (auto simp: get_or_create_def state_of_def get_one_by_def create_row_def uuid4_def
      new_transport_state_def Let_def find_append_new split: option.splits)

lemma get_or_create_known: "state_of n s = Some st \<Longrightarrow> get_or_create now n s = (st, s)"
  by (simp add: get_or_create_def state_of_def)

lemma reserve_snapshot_epoch_state:
  assumes "reserve_snapshot_epoch now n req snap reason ra ga s = ((e, sid), s1)" and "snap \<noteq> []"
  shows "\<exists>st. state_of n s1 = Some st \<and> current_epoch st = e \<and> last_snapshot_id st = Some sid \<and>
    last_snapshot_request_event_id st = Some req \<and> sid \<noteq> []"
  using assms get_or_create_state_of [of n now s]
  by (auto simp: reserve_snapshot_epoch_def split_def state_of_def get_one_by_def
      find_update_where_same Let_def split: option.splits if_splits)

lemma reserve_snapshot_epoch_again:
  "state_of n s = Some st \<Longrightarrow> last_snapshot_id st = Some sid \<Longrightarrow> sid \<noteq> [] \<Longrightarrow>
   last_snapshot_request_event_id st = Some req \<Longrightarrow>
   reserve_snapshot_epoch now n req snap reason ra ga s = ((current_epoch st, sid), s)"
  using get_or_create_known [of n s st now] by (simp add: reserve_snapshot_epoch_def Let_def)

text \<open>Snapshot epochs of a node grow and are reserved once per request: a request that was just
  served is answered with the same epoch and snapshot and changes nothing, whatever snapshot id and
  times come with the repetition; a different request gets the next epoch and its own snapshot id.\<close>

theorem reserve_snapshot_epoch_once:
  assumes "reserve_snapshot_epoch now n req snap reason ra ga s = ((e, sid), s1)" and "snap \<noteq> []"
  shows "reserve_snapshot_epoch now' n req snap' reason' ra' ga' s1 = ((e, sid), s1) \<and>
         (req' \<noteq> req \<longrightarrow>
            (\<exists>s2. reserve_snapshot_epoch now' n req' snap' reason' ra' ga' s1 = ((e + 1, snap'), s2) \<and>
               (\<exists>st. state_of n s2 = Some st \<and> current_epoch st = e + 1)))"
proof -
  obtain st where st: "state_of n s1 = Some st" "current_epoch st = e" "last_snapshot_id st = Some sid"
    "last_snapshot_request_event_id st = Some req" "sid \<noteq> []"
    using reserve_snapshot_epoch_state [OF assms] by blast
  from get_or_create_known [OF st(1)] st show ?thesis
    by (auto simp: reserve_snapshot_epoch_def Let_def state_of_def get_one_by_def
        find_update_where_same)
qed

theorem reserve_snapshot_epoch_once_witness:
  "fst (reserve_snapshot_epoch 8 2 ''q'' ''snap-b'' ''resync'' 8 8
     (snd (reserve_snapshot_epoch 5 2 ''q'' ''snap-a'' ''resync'' 5 5 empty_db))) = (1, ''snap-a'')"
proof -
  let ?r = "reserve_snapshot_epoch 5 2 ''q'' ''snap-a'' ''resync'' 5 5 empty_db"
  have "?r = ((1, ''snap-a''), snd ?r)"
    by (simp add: reserve_snapshot_epoch_def get_or_create_def get_one_by_def new_transport_state_def
        uuid4_def create_row_def Let_def)
  from reserve_snapshot_epoch_once [OF this] show ?thesis by simp
qed

end
