(* ===== verification/Route_Service.thy ===== *)
theory Route_Service
  imports Route_Repository Outbox
begin

text \<open>
  \<open>services/routes/service.py\<close>: transport profiles, the life of a route (create, update,
  activate, health, warm-up), the upstream of an entry, and why a route is not eligible for
  routing; and the reconciler \<open>reconcilers/auto_create.py\<close>.  An error leaves the database as
  it was, because the session rolls back.
\<close>

section \<open>Transport profiles\<close>

record profile_create_in =
  pc_name :: string
  pc_protocol :: string
  pc_network :: string
  pc_security :: string
  pc_flow :: "string option"
  pc_reality_public_key :: "string option"
  pc_reality_short_id :: "string option"
  pc_reality_server_name :: "string option"
  pc_tls_fingerprint :: string
  pc_grpc_service_name :: "string option"
  pc_port :: int

definition normalize_transport_profile_payload :: "profile_create_in \<Rightarrow> profile_create_in result" where
  "normalize_transport_profile_payload p =
     (if pc_protocol p \<noteq> ''vless''
      then Inl (HTTPException 422 (''Unsupported protocol: '' @ pc_protocol p))
      else if pc_security p = ''reality'' then
        (if pc_network p \<noteq> ''tcp''
         then Inl (HTTPException 422 ''reality transport requires network=tcp'')
         else if \<not> truthy (pc_reality_public_key p) \<or> \<not> truthy (pc_reality_short_id p) \<or>
                 \<not> truthy (pc_reality_server_name p)
         then Inl (HTTPException 422
           ''reality transport requires reality_public_key, reality_short_id and reality_server_name'')
         else if truthy (pc_grpc_service_name p)
         then Inl (HTTPException 422 ''reality transport does not support grpc_service_name'')
         else Inr p)
      else if pc_security p = ''tls'' then
        (if pc_network p \<noteq> ''grpc'' \<and> pc_network p \<noteq> ''ws''
         then Inl (HTTPException 422 ''tls transport supports only network=grpc or network=ws'')
         else if truthy (pc_reality_public_key p) \<or> truthy (pc_reality_short_id p) \<or>
                 truthy (pc_reality_server_name p)
         then Inl (HTTPException 422 ''tls transport does not support reality_* fields'')
         else if truthy (pc_flow p)
         then Inl (HTTPException 422 ''tls transport does not support flow'')
         else if pc_network p = ''grpc'' then
           Inr (p\<lparr>pc_grpc_service_name :=
             (if truthy (pc_grpc_service_name p) then pc_grpc_service_name p else Some ''vl'')\<rparr>)
         else if truthy (pc_grpc_service_name p)
         then Inl (HTTPException 422 ''ws transport does not support grpc_service_name'')
         else Inr p)
      else Inl (HTTPException 422 (''Unsupported security: '' @ pc_security p)))"

definition fill_profile :: "time \<Rightarrow> profile_create_in \<Rightarrow> transport_profile \<Rightarrow> transport_profile" where
  "fill_profile now p t =
     t\<lparr>tp_name := pc_name p, tp_protocol := pc_protocol p, tp_network := pc_network p,
       tp_security := pc_security p, tp_flow := pc_flow p,
       reality_public_key := pc_reality_public_key p, reality_short_id := pc_reality_short_id p,
       reality_server_name := pc_reality_server_name p, tls_fingerprint := pc_tls_fingerprint p,
       grpc_service_name := pc_grpc_service_name p, tp_port := pc_port p,
       is_active := True, updated_at := now\<rparr>"

definition new_profile :: "time \<Rightarrow> uuid \<Rightarrow> profile_create_in \<Rightarrow> transport_profile" where
  "new_profile now i p =
     \<lparr>row_id = i, created_at = now, updated_at = now, is_active = True, tp_name = pc_name p,
      tp_protocol = pc_protocol p, tp_network = pc_network p, tp_security = pc_security p,
      tp_flow = pc_flow p, reality_public_key = pc_reality_public_key p,
      reality_short_id = pc_reality_short_id p, reality_server_name = pc_reality_server_name p,
      tls_fingerprint = pc_tls_fingerprint p, grpc_service_name = pc_grpc_service_name p,
      tp_port = pc_port p\<rparr>"

definition create_transport_profile ::
  "time \<Rightarrow> profile_create_in \<Rightarrow> db \<Rightarrow> (transport_profile \<times> db) result" where
  "create_transport_profile now payload s =
     (let existing = get_one_by (\<lambda>t. tp_name t = pc_name payload) (profiles s) in
      case existing of
        Some e \<Rightarrow>
          if is_active e then Inl (HTTPException 409 ''Transport profile already exists'')
          else (case normalize_transport_profile_payload payload of
                  Inl err \<Rightarrow> Inl err
                | Inr p \<Rightarrow> Inr (fill_profile now p e,
                    s\<lparr>profiles := update_by_id (row_id e) (fill_profile now p) (profiles s)\<rparr>))
      | None \<Rightarrow>
          (case normalize_transport_profile_payload payload of
             Inl err \<Rightarrow> Inl err
           | Inr p \<Rightarrow>
               let (i, s1) = uuid4 s; t = new_profile now i p in
               Inr (t, s1\<lparr>profiles := create_row t (profiles s1)\<rparr>)))"

definition list_transport_profiles :: "nat \<Rightarrow> db \<Rightarrow> transport_profile list" where
  "list_transport_profiles n s = list_active_profiles (Some n) s"

section \<open>The upstream of an entry\<close>

definition upstream_changed_item :: "time \<Rightarrow> uuid \<Rightarrow> uuid \<Rightarrow> vpn_node \<Rightarrow> uuid \<Rightarrow> outbox_item" where
  "upstream_changed_item now entry backend backend_node event_id =
     \<lparr>oi_node_id = entry, oi_event_type = upstream_changed, oi_aggregate_id = Some backend,
      oi_op_version = None, oi_subject = UpstreamSubject entry,
      oi_payload = UpstreamPayload
        \<lparr>up_event_id = event_id, up_node_id = entry, up_emitted_at = now,
         up_upstream_node_id = backend, up_upstream_name = node_name backend_node,
         up_upstream_public_domain = public_domain backend_node,
         up_upstream_reality_ip = reality_ip backend_node,
         up_upstream_internal_wg_ip = internal_wg_ip backend_node,
         up_upstream_agent_port = agent_port backend_node\<rparr>,
      oi_message_id = UpstreamChangedId entry backend now\<rparr>"

definition sync_entry_upstream :: "time \<Rightarrow> uuid \<Rightarrow> uuid \<Rightarrow> vpn_node option \<Rightarrow> db \<Rightarrow> db" where
  "sync_entry_upstream now entry backend backend_node s =
     (case get_by_id entry (nodes s) of
        None \<Rightarrow> s
      | Some entry_node \<Rightarrow>
          if upstream_node_id entry_node = Some backend then s
          else
            let s1 = s\<lparr>nodes := update_by_id entry
                   (\<lambda>n. n\<lparr>upstream_node_id := Some backend, updated_at := now\<rparr>) (nodes s)\<rparr>
            in (case (case backend_node of Some b \<Rightarrow> Some b | None \<Rightarrow> get_by_id backend (nodes s1)) of
                  None \<Rightarrow> s1
                | Some b \<Rightarrow>
                    let (event_id, s2) = uuid4 s1 in
                    enqueue_many now [upstream_changed_item now entry backend b event_id] s2))"

section \<open>Creating a route\<close>

record route_create_in =
  rc_name :: string
  rc_node_id :: uuid
  rc_entry_node_id :: "uuid option"
  rc_transport_profile_id :: uuid
  rc_base_weight :: int
  rc_effective_weight :: "int option"
  rc_health_status :: RouteHealthStatus

text \<open>What the pydantic model accepts: both weights are \<open>Field(ge=0, le=100)\<close>.\<close>

definition route_create_in_valid :: "route_create_in \<Rightarrow> bool" where
  "route_create_in_valid p \<longleftrightarrow> 0 \<le> rc_base_weight p \<and> rc_base_weight p \<le> 100 \<and>
     (case rc_effective_weight p of None \<Rightarrow> True | Some w \<Rightarrow> 0 \<le> w \<and> w \<le> 100)"

text \<open>The columns of \<open>RouteCreateData\<close>, resolved from the payload.\<close>

definition route_create_data :: "time \<Rightarrow> route_create_in \<Rightarrow> int \<Rightarrow> route \<Rightarrow> route" where
  "route_create_data now p ew r =
     r\<lparr>route_name := rc_name p, route_node_id := rc_node_id p, entry_node_id := rc_entry_node_id p,
       transport_profile_id := rc_transport_profile_id p, health_status := rc_health_status p,
       base_weight := rc_base_weight p,
       effective_weight := (if rc_health_status p = blocked then 0
          else if rc_health_status p = warming_up then initial_warmup_weight (rc_base_weight p) else ew),
       cooldown_until := (if rc_health_status p = blocked then Some (now + hours 6) else None),
       warmup_stage := (if rc_health_status p = warming_up then Some 0 else None),
       warmup_started_at := (if rc_health_status p = warming_up then Some now else None),
       is_active := True, updated_at := now\<rparr>"

definition blank_route :: "time \<Rightarrow> uuid \<Rightarrow> route" where
  "blank_route now i =
     \<lparr>row_id = i, created_at = now, updated_at = now, is_active = True, route_name = [],
      route_node_id = 0, entry_node_id = None, transport_profile_id = 0, health_status = healthy,
      base_weight = 0, effective_weight = 0, cooldown_until = None, warmup_stage = None,
      warmup_started_at = None\<rparr>"

text \<open>The checks of the handler, in its order; they give the backend node and the weight.\<close>

definition create_route_checks :: "route_create_in \<Rightarrow> db \<Rightarrow> (vpn_node \<times> int) result" where
  "create_route_checks p s =
     (case get_by_id (rc_node_id p) (nodes s) of
        None \<Rightarrow> Inl (HTTPException 404 ''Node not found'')
      | Some node \<Rightarrow>
          if normalized_node_role node \<noteq> Some role_backend
          then Inl (HTTPException 422 ''Route backend node must have role=backend'')
          else
            (case (case rc_entry_node_id p of
                     None \<Rightarrow> Inr ()
                   | Some e \<Rightarrow>
                       (case get_by_id e (nodes s) of
                          None \<Rightarrow> Inl (HTTPException 404 ''Entry node not found'')
                        | Some en \<Rightarrow>
                            if is_entry_role (normalized_node_role en) then Inr ()
                            else Inl (HTTPException 422 ''Route entry node must have role in ['entry', 'whitelist_entry']''))) of
               Inl err \<Rightarrow> Inl err
             | Inr _ \<Rightarrow>
                 if (case get_by_id (rc_transport_profile_id p) (profiles s) of
                       None \<Rightarrow> True | Some tp \<Rightarrow> \<not> is_active tp)
                 then Inl (HTTPException 404 ''Transport profile not found'')
                 else if (case get_one_by (\<lambda>r. route_name r = rc_name p) (routes s) of
                       None \<Rightarrow> False | Some e \<Rightarrow> is_active e)
                 then Inl (HTTPException 409 ''Route already exists'')
                 else let ew = (case rc_effective_weight p of None \<Rightarrow> rc_base_weight p | Some w \<Rightarrow> w) in
                   if ew > rc_base_weight p
                   then Inl (HTTPException 422 ''effective_weight must be <= base_weight'')
                   else Inr (node, ew)))"

definition create_route :: "time \<Rightarrow> route_create_in \<Rightarrow> db \<Rightarrow> (route \<times> db) result" where
  "create_route now p s =
     (case create_route_checks p s of
        Inl err \<Rightarrow> Inl err
      | Inr (node, ew) \<Rightarrow>
          (case (case get_one_by (\<lambda>r. route_name r = rc_name p) (routes s) of
                   Some existing \<Rightarrow>
                     (case update_route_row (row_id existing) (route_create_data now p ew) s of
                        Inl err \<Rightarrow> Inl err
                      | Inr (None, _) \<Rightarrow> Inl (HTTPException 500 ''Failed to create route'')
                      | Inr (Some r, s1) \<Rightarrow> Inr (r, s1))
                 | None \<Rightarrow>
                     let (i, s1) = uuid4 s; r = route_create_data now p ew (blank_route now i) in
                     (case insert_route_row r s1 of Inl err \<Rightarrow> Inl err | Inr s2 \<Rightarrow> Inr (r, s2))) of
             Inl err \<Rightarrow> Inl err
           | Inr (r, s3) \<Rightarrow>
               Inr (r, case rc_entry_node_id p of
                         None \<Rightarrow> s3
                       | Some e \<Rightarrow> sync_entry_upstream now e (rc_node_id p) (Some node) s3)))"

section \<open>Updating a route\<close>

text \<open>A field that is given may still be \<open>None\<close>.\<close>

record route_update_in =
  ru_name :: "string option field"
  ru_node_id :: "uuid option field"
  ru_entry_node_id :: "uuid option field"
  ru_base_weight :: "int option field"

definition route_update_in_valid :: "route_update_in \<Rightarrow> bool" where
  "route_update_in_valid p \<longleftrightarrow>
     (case ru_base_weight p of Given (Some w) \<Rightarrow> 0 \<le> w \<and> w \<le> 100 | _ \<Rightarrow> True)"

text \<open>Writing a field; a \<open>None\<close> breaks the column's \<open>NOT NULL\<close>.\<close>

definition update_route_fields :: "time \<Rightarrow> route_update_in \<Rightarrow> route \<Rightarrow> route result" where
  "update_route_fields now p r =
     (if ru_name p = Given None \<or> ru_node_id p = Given None \<or> ru_base_weight p = Given None
      then Inl (IntegrityError ''not_null'')
      else Inr (r\<lparr>
        route_name := (case ru_name p of Given (Some v) \<Rightarrow> v | _ \<Rightarrow> route_name r),
        route_node_id := (case ru_node_id p of Given (Some v) \<Rightarrow> v | _ \<Rightarrow> route_node_id r),
        entry_node_id := (case ru_entry_node_id p of Given v \<Rightarrow> v | Unset \<Rightarrow> entry_node_id r),
        base_weight := (case ru_base_weight p of Given (Some v) \<Rightarrow> v | _ \<Rightarrow> base_weight r),
        effective_weight := (case ru_base_weight p of
            Given (Some v) \<Rightarrow> if effective_weight r = base_weight r then v else effective_weight r
          | _ \<Rightarrow> effective_weight r),
        updated_at := now\<rparr>))"

definition update_route_checks :: "route \<Rightarrow> route_update_in \<Rightarrow> db \<Rightarrow> vpn_node option result" where
  "update_route_checks r p s =
     (if (case ru_name p of
            Given (Some nm) \<Rightarrow>
              (case get_one_by (\<lambda>x. route_name x = nm) (routes s) of
                 None \<Rightarrow> False | Some e \<Rightarrow> is_active e \<and> row_id e \<noteq> row_id r)
          | _ \<Rightarrow> False)
      then Inl (HTTPException 409 ''Route name already exists'')
      else
        (case (case ru_node_id p of
                 Unset \<Rightarrow> Inr None
               | Given v \<Rightarrow>
                   (case (case v of None \<Rightarrow> None | Some i \<Rightarrow> get_by_id i (nodes s)) of
                      None \<Rightarrow> Inl (HTTPException 404 ''Node not found'')
                    | Some n \<Rightarrow> if normalized_node_role n \<noteq> Some role_backend
                        then Inl (HTTPException 422 ''Route backend node must have role=backend'')
                        else Inr (Some n))) of
           Inl err \<Rightarrow> Inl err
         | Inr loaded \<Rightarrow>
             (case ru_entry_node_id p of
                Given (Some e) \<Rightarrow>
                  (case get_by_id e (nodes s) of
                     None \<Rightarrow> Inl (HTTPException 404 ''Entry node not found'')
                   | Some en \<Rightarrow> if is_entry_role (normalized_node_role en) then Inr loaded
                       else Inl (HTTPException 422 ''Route entry node must have role in ['entry', 'whitelist_entry']''))
              | _ \<Rightarrow> Inr loaded)))"

definition update_route :: "time \<Rightarrow> uuid \<Rightarrow> route_update_in \<Rightarrow> db \<Rightarrow> (route \<times> db) result" where
  "update_route now route_id p s =
     (case get_by_id route_id (routes s) of
        None \<Rightarrow> Inl (HTTPException 404 ''Route not found'')
      | Some r \<Rightarrow>
          if \<not> is_active r then Inl (HTTPException 404 ''Route not found'')
          else if ru_name p = Unset \<and> ru_node_id p = Unset \<and> ru_entry_node_id p = Unset \<and> ru_base_weight p = Unset
          then Inr (r, s)
          else
            (case update_route_checks r p s of
               Inl err \<Rightarrow> Inl err
             | Inr loaded \<Rightarrow>
                 (case update_route_fields now p r of
                    Inl err \<Rightarrow> Inl err
                  | Inr r' \<Rightarrow>
                      (case update_route_row (row_id r) (\<lambda>_. r') s of
                         Inl err \<Rightarrow> Inl err
                       | Inr (None, _) \<Rightarrow> Inl (HTTPException 500 ''Failed to update route'')
                       | Inr (Some updated, s1) \<Rightarrow>
                           Inr (updated,
                             case (case ru_entry_node_id p of Given v \<Rightarrow> v | Unset \<Rightarrow> entry_node_id r) of
                               None \<Rightarrow> s1
                             | Some e \<Rightarrow>
                                 sync_entry_upstream now e
                                   (case ru_node_id p of Given (Some b) \<Rightarrow> b | _ \<Rightarrow> route_node_id r)
                                   loaded s1)))))"

definition set_route_active :: "time \<Rightarrow> uuid \<Rightarrow> bool \<Rightarrow> db \<Rightarrow> (route \<times> db) result" where
  "set_route_active now route_id active s =
     (case get_by_id route_id (routes s) of
        None \<Rightarrow> Inl (HTTPException 404 ''Route not found'')
      | Some r \<Rightarrow>
          if is_active r = active then Inr (r, s)
          else
            (case update_route_row route_id (\<lambda>x. x\<lparr>is_active := active, updated_at := now\<rparr>) s of
               Inl err \<Rightarrow> Inl err
             | Inr (None, _) \<Rightarrow> Inl (HTTPException 500 ''Failed to update route'')
             | Inr (Some updated, s1) \<Rightarrow> Inr (updated, s1)))"

section \<open>Health and warm-up\<close>

definition update_route_health ::
  "time \<Rightarrow> uuid \<Rightarrow> RouteHealthAction \<Rightarrow> int \<Rightarrow> db \<Rightarrow> (route \<times> db) result" where
  "update_route_health now route_id action cooldown_hours s =
     (case get_by_id route_id (routes s) of
        None \<Rightarrow> Inl (HTTPException 404 ''Route not found'')
      | Some r \<Rightarrow>
          if \<not> is_active r then Inl (HTTPException 404 ''Route not found'')
          else
            (case resolve_route_health_action r action now cooldown_hours DEFAULT_WARMUP_STAGES of
               Inl (ValueError detail) \<Rightarrow> Inl (HTTPException 409 detail)
             | Inl err \<Rightarrow> Inl err
             | Inr st \<Rightarrow>
                 (case update_route_row (row_id r) (apply_resolution now st) s of
                    Inl err \<Rightarrow> Inl err
                  | Inr (None, _) \<Rightarrow> Inl (HTTPException 500 ''Failed to update route health'')
                  | Inr (Some updated, s1) \<Rightarrow> Inr (updated, s1))))"

record warmup_tick_out =
  tick_processed :: nat
  tick_advanced :: nat
  tick_finalized :: nat

definition advance_one :: "time \<Rightarrow> route \<Rightarrow> warmup_tick_out \<times> db \<Rightarrow> (warmup_tick_out \<times> db) result" where
  "advance_one now r = (\<lambda>(out, s).
     let out1 = out\<lparr>tick_processed := tick_processed out + 1\<rparr> in
     case resolve_warmup_tick r now DEFAULT_WARMUP_STAGES of
       Inl err \<Rightarrow> Inl err
     | Inr None \<Rightarrow> Inr (out1, s)
     | Inr (Some (st, result)) \<Rightarrow>
         (case update_route_row (row_id r) (apply_resolution now st) s of
            Inl err \<Rightarrow> Inl err
          | Inr (None, s1) \<Rightarrow> Inr (out1, s1)
          | Inr (Some _, s1) \<Rightarrow>
              Inr (case result of
                     advanced \<Rightarrow> out1\<lparr>tick_advanced := tick_advanced out1 + 1\<rparr>
                   | finalized \<Rightarrow> out1\<lparr>tick_finalized := tick_finalized out1 + 1\<rparr>, s1)))"

fun advance_all :: "time \<Rightarrow> route list \<Rightarrow> warmup_tick_out \<times> db \<Rightarrow> (warmup_tick_out \<times> db) result" where
  "advance_all now [] acc = Inr acc"
| "advance_all now (r # rs) acc =
     (case advance_one now r acc of Inl err \<Rightarrow> Inl err | Inr acc' \<Rightarrow> advance_all now rs acc')"

definition advance_warmup :: "time \<Rightarrow> db \<Rightarrow> (warmup_tick_out \<times> db) result" where
  "advance_warmup now s =
     advance_all now (list_warming_up s)
       (\<lparr>tick_processed = 0, tick_advanced = 0, tick_finalized = 0\<rparr>, s)"

section \<open>Eligibility for routing\<close>

definition route_stale_after_sec :: "db \<Rightarrow> int" where
  "route_stale_after_sec s = max 30 (stale_after_sec (the_node_policy s))"

definition route_routing_reason ::
  "db \<Rightarrow> time \<Rightarrow> route \<Rightarrow> vpn_node \<Rightarrow> transport_profile \<Rightarrow> node_agent_state option \<Rightarrow> string option" where
  "route_routing_reason s now r n p agent =
     (if \<not> is_active r then Some ''route_inactive''
      else if effective_weight r \<le> 0 then Some ''route_zero_weight''
      else if \<not> routed_health (health_status r) then Some ''route_health_excluded''
      else if \<not> is_active p then Some ''transport_inactive''
      else if \<not> is_active n then Some ''node_inactive''
      else if \<not> is_enabled n then Some ''node_disabled''
      else if is_draining n then Some ''node_draining''
      else if is_virtual n then None
      else (case agent of
          None \<Rightarrow> Some ''agent_state_missing''
        | Some a \<Rightarrow>
            if \<not> is_healthy a then Some ''agent_unhealthy''
            else (case last_seen_at a of
                None \<Rightarrow> Some ''heartbeat_missing''
              | Some seen \<Rightarrow>
                  if seen < now - usec (route_stale_after_sec s) then Some ''heartbeat_stale'' else None)))"

record route_out =
  ro_route :: route
  ro_routing_eligible :: bool
  ro_routing_reason :: "string option"

definition build_route_out ::
  "db \<Rightarrow> time \<Rightarrow> route \<times> vpn_node \<times> transport_profile \<times> node_agent_state option \<Rightarrow> route_out" where
  "build_route_out s now = (\<lambda>(r, n, p, a).
     let reason = route_routing_reason s now r n p a in
     \<lparr>ro_route = r, ro_routing_eligible = (reason = None), ro_routing_reason = reason\<rparr>)"

definition list_routes :: "time \<Rightarrow> uuid option \<Rightarrow> nat \<Rightarrow> db \<Rightarrow> route_out list" where
  "list_routes now node n s = map (build_route_out s now) (list_active_detailed node (Some n) s)"

section \<open>reconcilers/auto_create.py\<close>

text \<open>The name of a created route: the arrow and the dot are written in UTF-8.\<close>

definition auto_route_name :: "vpn_node \<Rightarrow> vpn_node \<Rightarrow> string" where
  "auto_route_name entry backend =
     node_name entry @ [CHR 0xE2, CHR 0x86, CHR 0x92] @ node_name backend @ [CHR 0xC2, CHR 0xB7] @ ''reality''"

definition wanted_pairs :: "db \<Rightarrow> (uuid \<times> uuid) list" where
  "wanted_pairs s =
     remdups (map (\<lambda>a. (eba_entry_node_id a, eba_backend_node_id a))
       (filter (\<lambda>a. is_active a \<and> eba_enabled a \<and> get_by_id (eba_entry_node_id a) (nodes s) \<noteq> None)
         (assignments s)))"

definition auto_route :: "time \<Rightarrow> uuid \<Rightarrow> vpn_node \<Rightarrow> vpn_node \<Rightarrow> uuid \<Rightarrow> route" where
  "auto_route now i entry backend tp =
     \<lparr>row_id = i, created_at = now, updated_at = now, is_active = True,
      route_name = auto_route_name entry backend, route_node_id = row_id backend,
      entry_node_id = Some (row_id entry), transport_profile_id = tp, health_status = healthy,
      base_weight = 50, effective_weight = 50, cooldown_until = None, warmup_stage = None,
      warmup_started_at = None\<rparr>"

text \<open>The loop over the wanted pairs; it collects the pairs to announce.\<close>

fun auto_create_loop ::
  "time \<Rightarrow> uuid \<Rightarrow> (uuid \<times> uuid) list \<Rightarrow> (uuid \<times> uuid) list \<times> db \<Rightarrow> ((uuid \<times> uuid) list \<times> db) result" where
  "auto_create_loop now tp [] acc = Inr acc"
| "auto_create_loop now tp ((e, b) # ps) (announce, s) =
     (case get_by_triple b (Some e) tp s of
        Inl err \<Rightarrow> Inl err
      | Inr (Some _) \<Rightarrow> auto_create_loop now tp ps (announce, s)
      | Inr None \<Rightarrow>
          (case (get_by_id b (nodes s), get_by_id e (nodes s)) of
             (Some backend, Some entry) \<Rightarrow>
               let (i, s1) = uuid4 s in
               (case insert_route_row (auto_route now i entry backend tp) s1 of
                  Inl err \<Rightarrow> Inl err
                | Inr s2 \<Rightarrow> auto_create_loop now tp ps (announce @ [(e, b)], s2))
           | _ \<Rightarrow> Inl (LookupError ''node'')))"

definition unwanted :: "(uuid \<times> uuid) list \<Rightarrow> uuid \<Rightarrow> route \<Rightarrow> bool" where
  "unwanted want tp r \<longleftrightarrow>
     is_active r \<and> transport_profile_id r = tp \<and>
     (case entry_node_id r of None \<Rightarrow> False | Some e \<Rightarrow> (e, route_node_id r) \<notin> set want)"

definition reality_profile :: "db \<Rightarrow> transport_profile option" where
  "reality_profile s =
     find (\<lambda>p. tp_security p = ''reality'' \<and> tp_network p = ''tcp'') (list_active_profiles (Some 10) s)"

text \<open>The numbers of created and deactivated routes, or nothing without a reality profile.\<close>

definition auto_create_tick :: "time \<Rightarrow> db \<Rightarrow> ((nat \<times> nat) option \<times> db) result" where
  "auto_create_tick now s =
     (case reality_profile s of
        None \<Rightarrow> Inr (None, s)
      | Some tp \<Rightarrow>
          let want = wanted_pairs s in
          (case auto_create_loop now (row_id tp) want ([], s) of
             Inl err \<Rightarrow> Inl err
           | Inr (announce, s1) \<Rightarrow>
               let deactivated = length (filter (unwanted want (row_id tp)) (routes s1));
                   s2 = s1\<lparr>routes := update_where (unwanted want (row_id tp))
                          (\<lambda>r. r\<lparr>is_active := False, updated_at := now\<rparr>) (routes s1)\<rparr>;
                   s3 = fold (\<lambda>(e, b). sync_entry_upstream now e b None) announce s2
               in Inr (Some (length announce, deactivated), s3)))"

section \<open>What the writes keep\<close>

lemma update_route_row_inv:
  assumes "routes_inv s" "update_route_row i f s = Inr (r', s')" "\<And>r. row_id (f r) = row_id r"
  shows "routes_inv s'"
proof (cases "get_by_id i (routes s)")
  case None
  with assms show ?thesis by (simp add: update_route_row_def)
next
  case (Some r)
  with assms(2) have s': "s' = s\<lparr>routes := update_by_id i f (routes s)\<rparr>"
    and ck: "route_ck (f r)" and free: "\<not> route_name_taken i (route_name (f r)) s"
    by (auto simp: update_route_row_def split: if_splits)
  have r: "r \<in> set (routes s)" "row_id r = i" using get_by_id_Some [OF Some] by auto
  have only: "x = r" if "x \<in> set (routes s)" "row_id x = i" for x
    using assms(1) r that by (auto simp: routes_inv_def intro: ids_ok_unique)
  have "distinct (map route_name (update_by_id i f (routes s)))"
    using assms(1) free only
    by (intro distinct_update_by_id) (auto simp: routes_inv_def route_name_taken_def)
  moreover have "list_all route_ck (update_by_id i f (routes s))"
    using assms(1) ck only by (intro list_all_update_by_id) (auto simp: routes_inv_def)
  ultimately show ?thesis using assms(1,3) by (simp add: routes_inv_def s')
qed

lemma insert_route_row_inv:
  assumes "routes_inv s" "insert_route_row r (s\<lparr>uuid_supply := Suc (uuid_supply s)\<rparr>) = Inr s'"
    and "row_id r = uuid_supply s"
  shows "routes_inv s'"
proof -
  from assms have s': "s' = s\<lparr>uuid_supply := Suc (uuid_supply s), routes := create_row r (routes s)\<rparr>"
    and "route_ck r" and free: "\<not> route_name_taken (row_id r) (route_name r) s"
    by (auto simp: insert_route_row_def route_name_taken_def split: if_splits)
  moreover have "route_name r \<notin> route_name ` set (routes s)"
    using free assms(1,3) by (force simp: route_name_taken_def routes_inv_def below_def list_all_iff)
  ultimately show ?thesis
    using assms(1,3)
    by (auto simp: routes_inv_def below_Suc intro: ids_ok_create_fresh)
qed

lemma sync_entry_upstream_frame [simp]:
  "routes (sync_entry_upstream now e b bn s) = routes s"
  "profiles (sync_entry_upstream now e b bn s) = profiles s"
  "placements (sync_entry_upstream now e b bn s) = placements s"
  "agent_states (sync_entry_upstream now e b bn s) = agent_states s"
  "assignments (sync_entry_upstream now e b bn s) = assignments s"
  "the_node_policy (sync_entry_upstream now e b bn s) = the_node_policy s"
  by (simp_all add: sync_entry_upstream_def Let_def split_def uuid4_def split: option.splits)

lemma sync_entry_upstream_supply: "uuid_supply s \<le> uuid_supply (sync_entry_upstream now e b bn s)"
proof -
  have "uuid_supply s \<le> uuid_supply (enqueue_many now items (t\<lparr>uuid_supply := Suc (uuid_supply s)\<rparr>))"
    for items t
    using enqueue_many_supply [of "t\<lparr>uuid_supply := Suc (uuid_supply s)\<rparr>" now items] by simp
  from this [of _ "s\<lparr>nodes := _\<rparr>"] show ?thesis
    by (simp add: sync_entry_upstream_def Let_def split_def uuid4_def split: option.splits)
qed

lemma routes_inv_sync [simp]:
  "routes_inv s \<Longrightarrow> routes_inv (sync_entry_upstream now e b bn s)"
  using sync_entry_upstream_supply [of s now e b bn]
  by (auto simp: routes_inv_def intro: below_mono)

section \<open>Every handler keeps the table's constraints\<close>

lemma route_create_data_sel [simp]:
  "row_id (route_create_data now p ew r) = row_id r"
  "is_active (route_create_data now p ew r)"
  "route_name (route_create_data now p ew r) = rc_name p"
  by (simp_all add: route_create_data_def)

lemma create_route_cases:
  assumes "create_route now p s = Inr (r, s')"
  obtains (reactivate) existing node ew s3 where
      "create_route_checks p s = Inr (node, ew)"
      "get_one_by (\<lambda>x. route_name x = rc_name p) (routes s) = Some existing"
      "update_route_row (row_id existing) (route_create_data now p ew) s = Inr (Some r, s3)"
      "s' = (case rc_entry_node_id p of None \<Rightarrow> s3
             | Some e \<Rightarrow> sync_entry_upstream now e (rc_node_id p) (Some node) s3)"
  | (insert) node ew s3 where
      "create_route_checks p s = Inr (node, ew)"
      "get_one_by (\<lambda>x. route_name x = rc_name p) (routes s) = None"
      "r = route_create_data now p ew (blank_route now (uuid_supply s))"
      "insert_route_row r (s\<lparr>uuid_supply := Suc (uuid_supply s)\<rparr>) = Inr s3"
      "s' = (case rc_entry_node_id p of None \<Rightarrow> s3
             | Some e \<Rightarrow> sync_entry_upstream now e (rc_node_id p) (Some node) s3)"
proof (cases "get_one_by (\<lambda>x. route_name x = rc_name p) (routes s)")
  case None
  with assms insert show ?thesis
    by (auto simp: create_route_def uuid4_def Let_def split: sum.splits prod.splits)
next
  case (Some existing)
  with assms reactivate show ?thesis
    by (auto simp: create_route_def split: sum.splits option.splits prod.splits)
qed

lemma create_route_inv:
  assumes "routes_inv s" "create_route now p s = Inr (r, s')"
  shows "routes_inv s'"
  using assms(2)
proof (cases rule: create_route_cases)
  case (reactivate existing node ew s3)
  from update_route_row_inv [OF assms(1) reactivate(3)] have "routes_inv s3" by simp
  then show ?thesis by (simp add: reactivate(4) split: option.splits)
next
  case (insert node ew s3)
  from insert_route_row_inv [OF assms(1) insert(4)] have "routes_inv s3"
    by (simp add: insert(3) blank_route_def)
  then show ?thesis by (simp add: insert(5) split: option.splits)
qed

lemma update_route_row_const:
  "get_by_id i (routes s) = Some r \<Longrightarrow> ids_ok (routes s) \<Longrightarrow>
   update_route_row i (\<lambda>_. f r) s = update_route_row i f s"
  by (simp add: update_route_row_def update_by_id_const)

lemma update_route_inv:
  assumes "routes_inv s" "update_route now i p s = Inr (r, s')"
  shows "routes_inv s'"
proof (cases "s' = s")
  case False
  from assms(2) False obtain r0 r1 loaded s1 where
    r0: "get_by_id i (routes s) = Some r0" and
    f: "update_route_fields now p r0 = Inr r1" and
    u: "update_route_row (row_id r0) (\<lambda>_. r1) s = Inr (Some r, s1)" and
    s': "s' = (case (case ru_entry_node_id p of Given v \<Rightarrow> v | Unset \<Rightarrow> entry_node_id r0) of
              None \<Rightarrow> s1 | Some e \<Rightarrow> sync_entry_upstream now e
                (case ru_node_id p of Given (Some b) \<Rightarrow> b | _ \<Rightarrow> route_node_id r0) loaded s1)"
    by (auto simp: update_route_def split: option.splits sum.splits prod.splits if_splits)
  let ?f = "\<lambda>x. projr (update_route_fields now p x)"
  have id: "row_id r0 = i" using get_by_id_Some [OF r0] by simp
  have keeps: "row_id (?f x) = row_id x" for x
    using f by (auto simp: update_route_fields_def split: if_splits)
  have "?f r0 = r1" using f by simp
  with u id r0 assms(1) have "update_route_row i ?f s = Inr (Some r, s1)"
    using update_route_row_const [OF r0, of ?f] by (simp add: routes_inv_def)
  with assms(1) keeps have "routes_inv s1" by (blast intro: update_route_row_inv)
  then show ?thesis by (simp add: s' split: option.splits)
qed (use assms in simp)

lemma set_route_active_inv:
  "routes_inv s \<Longrightarrow> set_route_active now i a s = Inr (r, s') \<Longrightarrow> routes_inv s'"
  by (auto simp: set_route_active_def split: option.splits if_splits sum.splits prod.splits
      intro: update_route_row_inv)

lemma update_route_health_inv:
  "routes_inv s \<Longrightarrow> update_route_health now i a h s = Inr (r, s') \<Longrightarrow> routes_inv s'"
  by (auto simp: update_route_health_def split: option.splits if_splits sum.splits prod.splits
      api_error.splits intro: update_route_row_inv [where f = "apply_resolution now _"])

lemma advance_one_inv:
  "routes_inv s \<Longrightarrow> advance_one now r (out, s) = Inr (out', s') \<Longrightarrow> routes_inv s'"
  by (auto simp: advance_one_def Let_def split: option.splits sum.splits prod.splits
      intro: update_route_row_inv [where f = "apply_resolution now _"])

lemma advance_all_inv:
  "routes_inv s \<Longrightarrow> advance_all now rs (out, s) = Inr (out', s') \<Longrightarrow> routes_inv s'"
proof (induction rs arbitrary: out s)
  case (Cons r rs)
  from Cons.prems(2) obtain out1 s1 where
    "advance_one now r (out, s) = Inr (out1, s1)" "advance_all now rs (out1, s1) = Inr (out', s')"
    by (auto split: sum.splits)
  with Cons show ?case by (blast intro: advance_one_inv)
qed simp

lemma auto_create_loop_inv:
  "routes_inv s \<Longrightarrow> auto_create_loop now tp ps (an, s) = Inr (an', s') \<Longrightarrow> routes_inv s'"
proof (induction ps arbitrary: an s)
  case (Cons eb ps)
  obtain e b where eb: "eb = (e, b)" by (cases eb)
  show ?case
  proof (cases "get_by_triple b (Some e) tp s")
    case (Inr found)
    show ?thesis
    proof (cases found)
      case None
      with Inr Cons.prems(2) eb obtain backend entry s2 an2 where
        ins: "insert_route_row (auto_route now (uuid_supply s) entry backend tp)
               (s\<lparr>uuid_supply := Suc (uuid_supply s)\<rparr>) = Inr s2" and
        rest: "auto_create_loop now tp ps (an2, s2) = Inr (an', s')"
        by (auto simp: uuid4_def split: option.splits sum.splits)
      have "routes_inv s2"
        using insert_route_row_inv [OF Cons.prems(1) ins] by (simp add: auto_route_def)
      with rest Cons.IH show ?thesis by blast
    qed (use Inr Cons eb in auto)
  qed (use Cons.prems eb in auto)
qed simp

lemma routes_inv_deactivate:
  "routes_inv s \<Longrightarrow> routes_inv (s\<lparr>routes := update_where P (\<lambda>r. r\<lparr>is_active := False, updated_at := now\<rparr>) (routes s)\<rparr>)"
  by (auto simp: routes_inv_def ids_ok_update_where below_update_where map_update_where_same
      route_ck_def intro!: list_all_update_where)

lemma routes_inv_announce:
  "routes_inv s \<Longrightarrow> routes_inv (fold (\<lambda>(e, b). sync_entry_upstream now e b None) ps s)"
  by (induction ps arbitrary: s) auto

lemma auto_create_tick_inv:
  "routes_inv s \<Longrightarrow> auto_create_tick now s = Inr (out, s') \<Longrightarrow> routes_inv s'"
  by (auto simp: auto_create_tick_def Let_def split: option.splits sum.splits prod.splits
      intro!: routes_inv_announce routes_inv_deactivate dest: auto_create_loop_inv)

inductive route_service_step :: "db \<Rightarrow> db \<Rightarrow> bool" where
  create: "create_route now p s = Inr (r, s') \<Longrightarrow> route_service_step s s'"
| update: "update_route now i u s = Inr (r, s') \<Longrightarrow> route_service_step s s'"
| activate: "set_route_active now i a s = Inr (r, s') \<Longrightarrow> route_service_step s s'"
| health: "update_route_health now i act h s = Inr (r, s') \<Longrightarrow> route_service_step s s'"
| warmup: "advance_warmup now s = Inr (out, s') \<Longrightarrow> route_service_step s s'"
| auto_create: "auto_create_tick now s = Inr (cnt, s') \<Longrightarrow> route_service_step s s'"

lemma route_service_step_inv: "routes_inv s \<Longrightarrow> route_service_step s s' \<Longrightarrow> routes_inv s'"
  by (erule route_service_step.cases)
     (auto simp: advance_warmup_def dest: create_route_inv update_route_inv set_route_active_inv
       update_route_health_inv advance_all_inv auto_create_tick_inv)

interpretation route_svc: step_invariant routes_inv route_service_step routes_inv
  by unfold_locales (auto intro: route_service_step_inv)


lemmas sample_defs = sample_db_def sample_node_def sample_profile_def sample_agent_state_def
  sample_route_def

lemma sample_db_routes_inv: "routes_inv sample_db"
  by (simp add: routes_inv_def sample_db_def ids_ok_def below_def route_ck_def)


section \<open>What a created route is\<close>

lemma create_route_checks_Inr:
  assumes "create_route_checks p s = Inr (node, ew)"
  shows "get_by_id (rc_node_id p) (nodes s) = Some node \<and> normalized_node_role node = Some role_backend \<and>
         (\<exists>tp. get_by_id (rc_transport_profile_id p) (profiles s) = Some tp \<and> is_active tp) \<and>
         (\<forall>e. rc_entry_node_id p = Some e \<longrightarrow>
            (\<exists>en. get_by_id e (nodes s) = Some en \<and> is_entry_role (normalized_node_role en))) \<and>
         ew \<le> rc_base_weight p \<and>
         ew = (case rc_effective_weight p of None \<Rightarrow> rc_base_weight p | Some w \<Rightarrow> w) \<and>
         (\<forall>x. get_one_by (\<lambda>r. route_name r = rc_name p) (routes s) = Some x \<longrightarrow> \<not> is_active x)"
  using assms
  by (auto simp: create_route_checks_def Let_def split: option.splits if_splits sum.splits)

lemma route_create_data_coherent:
  assumes "route_create_in_valid p" "ew \<le> rc_base_weight p"
    and "ew = (case rc_effective_weight p of None \<Rightarrow> rc_base_weight p | Some w \<Rightarrow> w)"
  shows "route_coherent (route_create_data now p ew r)"
  using assms initial_warmup_weight_le [of "rc_base_weight p"]
  by (auto simp: route_create_data_def route_coherent_def route_ck_def route_create_in_valid_def
      initial_warmup_weight_nonneg split: option.splits)

lemma sync_case_routes [simp]:
  "routes (case e of None \<Rightarrow> s3 | Some e \<Rightarrow> sync_entry_upstream now e b bn s3) = routes s3"
  by (simp split: option.splits)

text \<open>A request to create a route that succeeds stores an active, coherent route under the
  requested name, through a node with the role of a backend and an active transport profile, with
  an entry that has an entry role if one is given; an inactive route of that name is reused, an
  active one is never overwritten, and no other route changes.\<close>

theorem create_route_stores:
  assumes "routes_inv s" and "route_create_in_valid p" and "create_route now p s = Inr (r, s')"
  shows "get_by_id (row_id r) (routes s') = Some r \<and> is_active r \<and> route_coherent r \<and>
         route_name r = rc_name p \<and>
         (\<exists>node. get_by_id (rc_node_id p) (nodes s) = Some node \<and> normalized_node_role node = Some role_backend) \<and>
         (\<forall>x. get_by_id (row_id r) (routes s) = Some x \<longrightarrow> \<not> is_active x \<and> route_name x = rc_name p) \<and>
         (\<forall>i. i \<noteq> row_id r \<longrightarrow> get_by_id i (routes s') = get_by_id i (routes s))"
  using assms(3)
proof (cases rule: create_route_cases)
  case (reactivate existing node ew s3)
  note ok = create_route_checks_Inr [OF reactivate(1)]
  have found: "existing \<in> set (routes s)" "route_name existing = rc_name p"
    using reactivate(2) find_Some_mem unfolding get_one_by_def by fastforce+
  then have get: "get_by_id (row_id existing) (routes s) = Some existing"
    using assms(1) by (simp add: routes_inv_def ids_ok_get)
  with reactivate(3) have r: "r = route_create_data now p ew existing"
    and s3: "routes s3 = update_by_id (row_id existing) (route_create_data now p ew) (routes s)"
    by (auto simp: update_route_row_def split: if_splits)
  show ?thesis
    using ok get found reactivate(2,4) assms(2)
    by (auto simp: r s3 repo_simps intro!: route_create_data_coherent)
next
  case (insert node ew s3)
  note ok = create_route_checks_Inr [OF insert(1)]
  have id: "row_id r = uuid_supply s" by (simp add: insert(3) blank_route_def)
  have new: "row_id r \<notin> ids_of (routes s)"
    using assms(1) id below_fresh by (auto simp: routes_inv_def)
  have s3: "routes s3 = create_row r (routes s)"
    using insert(4) by (auto simp: insert_route_row_def split: if_splits)
  show ?thesis
    using ok assms(2) new get_by_id_None [of "row_id r" "routes s"] insert(5)
    by (auto simp: s3 repo_simps insert(3) intro!: route_create_data_coherent)
qed

definition sample_create :: "RouteHealthStatus \<Rightarrow> route_create_in" where
  "sample_create h = \<lparr>rc_name = ''new'', rc_node_id = 2, rc_entry_node_id = None,
     rc_transport_profile_id = 3, rc_base_weight = 40, rc_effective_weight = None, rc_health_status = h\<rparr>"

theorem create_route_stores_witness:
  "effective_weight (fst (projr (create_route 7 (sample_create warming_up) sample_db))) = 10 \<and>
   route_coherent (fst (projr (create_route 7 (sample_create warming_up) sample_db)))"
proof
  let ?c = "create_route 7 (sample_create warming_up) sample_db"
  have eval: "?c = Inr (fst (projr ?c), snd (projr ?c)) \<and> effective_weight (fst (projr ?c)) = 10"
    by (simp add: create_route_def create_route_checks_def get_by_id_def get_one_by_def
        normalized_node_role_def py_strip_def py_lower_def is_space_def lower_char_def uuid4_def
        insert_route_row_def route_ck_def route_create_data_def blank_route_def
        route_name_taken_def sample_create_def sample_defs initial_warmup_weight_def
        DEFAULT_WARMUP_STAGES_def Let_def)
  then show "effective_weight (fst (projr ?c)) = 10" ..
  have "route_create_in_valid (sample_create warming_up)"
    by (simp add: route_create_in_valid_def sample_create_def)
  from create_route_stores [OF sample_db_routes_inv this conjunct1 [OF eval]]
  show "route_coherent (fst (projr ?c))" by blast
qed

section \<open>Updates the table refuses\<close>

definition only_base_weight :: "int \<Rightarrow> route_update_in" where
  "only_base_weight w =
     \<lparr>ru_name = Unset, ru_node_id = Unset, ru_entry_node_id = Unset, ru_base_weight = Given (Some w)\<rparr>"

text \<open>A request that changes the base weight of an active route succeeds, and keeps the effective
  weight in step when the two were equal, unless the route runs at a reduced weight above the new
  base weight: then the effective weight is left above the base weight and the database refuses
  the update.\<close>

theorem update_base_weight_outcome:
  assumes "routes_inv s" and "get_by_id i (routes s) = Some r" and "is_active r"
    and "entry_node_id r = None" and "0 \<le> w"
  shows "update_route now i (only_base_weight w) s =
    (if effective_weight r \<noteq> base_weight r \<and> w < effective_weight r
     then Inl (IntegrityError ''ck_route'')
     else let r' = r\<lparr>base_weight := w,
                     effective_weight := (if effective_weight r = base_weight r then w else effective_weight r),
                     updated_at := now\<rparr>
          in Inr (r', s\<lparr>routes := update_by_id i (\<lambda>_. r') (routes s)\<rparr>))"
proof -
  have r: "row_id r = i" "route_ck r"
    using assms(1,2) get_by_id_Some [OF assms(2)] by (auto simp: routes_inv_def list_all_iff)
  have free: "\<not> route_name_taken i (route_name r) s"
    using assms(1) get_by_id_Some [OF assms(2)]
    by (auto simp: route_name_taken_def routes_inv_def dest: distinct_map_unique)
  have fields: "update_route_fields now (only_base_weight w) r =
      Inr (r\<lparr>base_weight := w,
              effective_weight := (if effective_weight r = base_weight r then w else effective_weight r),
              updated_at := now\<rparr>)"
    by (cases r) (simp add: update_route_fields_def only_base_weight_def)
  have checks: "update_route_checks r (only_base_weight w) s = Inr None"
    by (simp add: update_route_checks_def only_base_weight_def)
  show ?thesis
    unfolding update_route_def assms(2) option.case fields checks
    using assms r free
    by (auto simp: only_base_weight_def update_route_row_def route_ck_def Let_def)
qed

theorem update_base_weight_outcome_witness:
  "update_route 9 1 (only_base_weight 5)
     (sample_db\<lparr>routes := [(sample_route 50)\<lparr>effective_weight := 25, health_status := degraded\<rparr>]\<rparr>)
   = Inl (IntegrityError ''ck_route'')"
  by (subst update_base_weight_outcome
        [where r = "(sample_route 50)\<lparr>effective_weight := 25, health_status := degraded\<rparr>"])
     (simp_all add: routes_inv_def ids_ok_def below_def route_ck_def get_by_id_def sample_defs)

section \<open>The warm-up tick is the row-wise step\<close>

lemma advance_one_spec:
  assumes "routes_inv s" "get_by_id (row_id r) (routes s) = Some r"
    and "health_status r = warming_up" "base_weight r \<le> 100"
  shows "\<exists>out'. advance_one now r (out, s) =
      Inr (out', s\<lparr>routes := update_by_id (row_id r) (warmup_tick_route DEFAULT_WARMUP_STAGES now) (routes s)\<rparr>) \<and>
      tick_processed out' = tick_processed out + 1"
proof -
  let ?D = DEFAULT_WARMUP_STAGES and ?g = "warmup_tick_route DEFAULT_WARMUP_STAGES now"
  have ids: "ids_ok (routes s)" using assms(1) by (simp add: routes_inv_def)
  have bw: "0 \<le> base_weight r" using list_all_get [of route_ck, OF _ assms(2)] assms(1)
    by (auto simp: routes_inv_def route_ck_def)
  then obtain res where res: "resolve_warmup_tick r now ?D = Inr res"
    using assms(4)
    by (fastforce simp: resolve_warmup_tick_def Let_def healthy_state_def RouteStateResolution_def
        stage_weight_def DEFAULT_WARMUP_STAGES_def nth_Cons' split: option.splits if_splits)
  show ?thesis
  proof (cases res)
    case None
    then have "?g r = r" using res assms(3) by (simp add: warmup_tick_route_def)
    then have "update_by_id (row_id r) ?g (routes s) = routes s"
      using ids assms(2) by (intro update_by_id_ident) auto
    then show ?thesis using res None by (simp add: advance_one_def)
  next
    case (Some p)
    obtain st tr where p: "p = (st, tr)" by (cases p)
    have g: "apply_resolution now st r = ?g r"
      using res Some p assms(3) by (simp add: warmup_tick_route_def)
    have "route_ck (apply_resolution now st r)"
      using res Some p bw assms(4)
      by (auto simp: route_ck_def healthy_state_def RouteStateResolution_Inr stage_weight_le
          elim: warmup_tick_cases)
    moreover have "\<not> route_name_taken (row_id r) (route_name r) s"
      using assms(1) get_by_id_Some [OF assms(2)]
      by (auto simp: route_name_taken_def routes_inv_def dest: distinct_map_unique)
    moreover have "update_by_id (row_id r) (apply_resolution now st) (routes s)
        = update_by_id (row_id r) ?g (routes s)"
      using ids assms(2) g by (rule update_by_id_same_at)
    ultimately show ?thesis
      using res Some p assms(2)
      by (auto simp: advance_one_def Let_def update_route_row_def split: RouteWarmupTickResult.splits)
  qed
qed

lemma row_id_warmup_tick [simp]: "row_id (warmup_tick_route stages now r) = row_id r"
  by (simp add: warmup_tick_route_def split: sum.splits option.splits)

lemma routes_inv_warmup_row:
  assumes "routes_inv s" "get_by_id (row_id r) (routes s) = Some r"
    and "health_status r = warming_up" "base_weight r \<le> 100"
  shows "routes_inv (s\<lparr>routes := update_by_id (row_id r) (warmup_tick_route DEFAULT_WARMUP_STAGES now) (routes s)\<rparr>)"
  using advance_one_spec [OF assms, of now undefined] advance_one_inv [OF assms(1)] by blast

lemma advance_all_spec:
  assumes "routes_inv s" "distinct (map row_id rs)"
    and "\<forall>r \<in> set rs. get_by_id (row_id r) (routes s) = Some r \<and> health_status r = warming_up \<and> base_weight r \<le> 100"
  shows "\<exists>out'. advance_all now rs (out, s) = Inr (out', s\<lparr>routes :=
      fold (\<lambda>j. update_by_id j (warmup_tick_route DEFAULT_WARMUP_STAGES now)) (map row_id rs) (routes s)\<rparr>) \<and>
      tick_processed out' = tick_processed out + length rs"
  using assms
proof (induction rs arbitrary: s out)
  case (Cons r rs)
  let ?s = "s\<lparr>routes := update_by_id (row_id r) (warmup_tick_route DEFAULT_WARMUP_STAGES now) (routes s)\<rparr>"
  from advance_one_spec [of s r now out] Cons.prems obtain out1 where
    1: "advance_one now r (out, s) = Inr (out1, ?s)" "tick_processed out1 = tick_processed out + 1" by auto
  have "routes_inv ?s" using Cons.prems by (intro routes_inv_warmup_row) auto
  moreover have "\<forall>x \<in> set rs. get_by_id (row_id x) (routes ?s) = Some x \<and> health_status x = warming_up \<and> base_weight x \<le> 100"
  proof
    fix x assume x: "x \<in> set rs"
    then have "row_id x \<noteq> row_id r" using Cons.prems(2) by (auto simp: image_iff)
    then have "get_by_id (row_id x) (routes ?s) = get_by_id (row_id x) (routes s)"
      by (simp add: tbl.get_upd_other)
    with x Cons.prems(3) show "get_by_id (row_id x) (routes ?s) = Some x \<and>
        health_status x = warming_up \<and> base_weight x \<le> 100" by simp
  qed
  moreover have "distinct (map row_id rs)" using Cons.prems(2) by simp
  ultimately obtain out' where
    "advance_all now rs (out1, ?s) = Inr (out', ?s\<lparr>routes :=
       fold (\<lambda>j. update_by_id j (warmup_tick_route DEFAULT_WARMUP_STAGES now)) (map row_id rs) (routes ?s)\<rparr>)"
    "tick_processed out' = tick_processed out1 + length rs"
    using Cons.IH [of ?s out1] by blast
  with 1 show ?case by simp
qed simp

text \<open>C37: The warm-up tick of the reconciler succeeds on a consistent table and is exactly the warm-up
  step of each active route: every other row and every other column stays, and it reports the
  number of active routes that were warming up.\<close>

theorem advance_warmup_row_wise:
  assumes "routes_inv s" and "\<forall>r \<in> set (routes s). base_weight r \<le> 100"
  shows "\<exists>out. advance_warmup now s = Inr (out, s\<lparr>routes :=
           map (\<lambda>r. if is_active r then warmup_tick_route DEFAULT_WARMUP_STAGES now r else r) (routes s)\<rparr>) \<and>
           tick_processed out = length (filter (\<lambda>r. is_active r \<and> health_status r = warming_up) (routes s))"
proof -
  let ?g = "warmup_tick_route DEFAULT_WARMUP_STAGES now" and ?rs = "list_warming_up s"
  have ids: "ids_ok (routes s)" using assms(1) by (simp add: routes_inv_def)
  have mset: "mset ?rs = mset (filter (\<lambda>r. is_active r \<and> health_status r = warming_up) (routes s))"
    by (simp add: list_warming_up_def)
  then have "mset (map row_id ?rs) = mset (map row_id (filter (\<lambda>r. is_active r \<and> health_status r = warming_up) (routes s)))"
    by simp
  then have dist: "distinct (map row_id ?rs)"
    using ids distinct_map_filter unfolding ids_ok_def by (metis mset_eq_imp_distinct_iff)
  have rows: "set ?rs = {r \<in> set (routes s). is_active r \<and> health_status r = warming_up}"
    by (auto simp: list_warming_up_def)
  have id_rows: "row_id r \<in> set (map row_id ?rs) \<longleftrightarrow> is_active r \<and> health_status r = warming_up"
    if "r \<in> set (routes s)" for r
    using that ids rows by (auto dest: ids_ok_unique)
  have "fold (\<lambda>j. update_by_id j ?g) (map row_id ?rs) (routes s) =
      map (\<lambda>r. if is_active r then ?g r else r) (routes s)"
    unfolding fold_update_by_id [where g = "\<lambda>_. ?g", OF row_id_warmup_tick dist]
    by (rule map_cong [OF refl]) (use id_rows in \<open>auto simp: warmup_tick_route_def\<close>)
  moreover have "length ?rs = length (filter (\<lambda>r. is_active r \<and> health_status r = warming_up) (routes s))"
    using arg_cong [OF mset, of size] by (simp only: size_mset)
  ultimately show ?thesis
    using advance_all_spec [OF assms(1) dist, of now] rows ids assms(2)
    by (fastforce simp: advance_warmup_def ids_ok_get)
qed

theorem advance_warmup_row_wise_witness:
  "\<exists>out. advance_warmup 5 sample_db = Inr (out, sample_db)"
proof -
  have "\<forall>r \<in> set (routes sample_db). base_weight r \<le> 100" by (simp add: sample_db_def)
  from advance_warmup_row_wise [OF sample_db_routes_inv this, of 5] show ?thesis
    by (auto simp: sample_db_def warmup_tick_route_def)
qed

section \<open>Eligibility and resolution agree\<close>

text \<open>The reason the API reports for a route agrees with what routing does: for a route through a
  node that is not virtual, no reason is reported exactly when the query for resolved routes, asked
  for nodes seen within the staleness window, accepts the route (the state of its entry apart).\<close>

theorem routing_reason_iff_resolved:
  assumes "\<not> is_virtual n"
  shows "route_routing_reason s now r n p (agent_state_of s (row_id n)) = None \<longleftrightarrow>
         resolved_active s (Some (now - usec (route_stale_after_sec s))) (r, n, p)"
  using assms
  by (auto simp: route_routing_reason_def resolved_active_def split: option.splits)

theorem routing_reason_iff_resolved_witness:
  "resolved_active sample_db (Some (5 - usec (route_stale_after_sec sample_db)))
     (sample_route 50, sample_node 2 ''backend'', sample_profile)"
  by (subst routing_reason_iff_resolved [symmetric])
     (simp_all add: route_routing_reason_def routed_health_def agent_state_of_def get_one_by_def
       route_stale_after_sec_def default_node_policy_def usec_def sample_defs)

text \<open>A virtual node is where the two disagree: a route through a virtual node without a healthy
  agent is reported as eligible, but routing never resolves it.\<close>

theorem virtual_node_reported_but_not_resolved:
  assumes "is_virtual n" and "agent_state_of s (row_id n) = None"
    and "is_active r" "effective_weight r > 0" "routed_health (health_status r)" "is_active p"
    and "node_available n"
  shows "route_routing_reason s now r n p None = None \<and> \<not> resolved_active s seen (r, n, p)"
  using assms by (simp add: route_routing_reason_def resolved_active_def node_available_def)

theorem virtual_node_reported_but_not_resolved_witness:
  "route_routing_reason empty_db 5 (sample_route 50) ((sample_node 2 ''backend'')\<lparr>is_virtual := True\<rparr>)
     sample_profile None = None"
  using virtual_node_reported_but_not_resolved [where s = empty_db and r = "sample_route 50"
      and n = "(sample_node 2 ''backend'')\<lparr>is_virtual := True\<rparr>" and p = sample_profile and now = 5]
  by (simp add: agent_state_of_def get_one_by_def routed_health_def node_available_def sample_defs)

section \<open>What the auto-create tick establishes\<close>

definition has_triple :: "uuid \<Rightarrow> uuid \<times> uuid \<Rightarrow> route \<Rightarrow> bool" where
  "has_triple tp eb r \<longleftrightarrow>
     route_node_id r = snd eb \<and> transport_profile_id r = tp \<and> entry_node_id r = Some (fst eb)"

abbreviation count_triple :: "uuid \<Rightarrow> uuid \<times> uuid \<Rightarrow> db \<Rightarrow> nat" where
  "count_triple tp eb s \<equiv> length (filter (has_triple tp eb) (routes s))"

lemma get_by_triple_count:
  "get_by_triple b (Some e) tp s = Inr (Some r) \<Longrightarrow> count_triple tp (e, b) s = 1"
  "get_by_triple b (Some e) tp s = Inr None \<longleftrightarrow> count_triple tp (e, b) s = 0"
  "count_triple tp (e, b) s = 1 \<Longrightarrow> \<exists>r. get_by_triple b (Some e) tp s = Inr (Some r)"
  by (auto simp: get_by_triple_def has_triple_def [abs_def] length_Suc_conv split: list.splits)

lemma auto_create_loop_spec:
  assumes "auto_create_loop now tp ps (an, s) = Inr (an', s')" and "distinct ps"
  shows "(\<forall>eb \<in> set ps. count_triple tp eb s' = 1) \<and>
         (\<forall>eb. eb \<notin> set ps \<longrightarrow> count_triple tp eb s' = count_triple tp eb s) \<and>
         (\<exists>new. routes s' = routes s @ new \<and> (\<forall>r \<in> set new. \<exists>eb \<in> set ps. has_triple tp eb r)) \<and>
         nodes s' = nodes s \<and> profiles s' = profiles s \<and> assignments s' = assignments s"
  using assms
proof (induction ps arbitrary: an s)
  case (Cons eb ps)
  obtain e b where eb: "eb = (e, b)" by (cases eb)
  from Cons.prems(1) eb obtain found where found: "get_by_triple b (Some e) tp s = Inr found"
    by (auto split: sum.splits)
  show ?case
  proof (cases found)
    case (Some r)
    with found Cons.prems(1) eb have "auto_create_loop now tp ps (an, s) = Inr (an', s')" by simp
    from Cons.IH [OF this] Cons.prems(2) found Some show ?thesis
      by (auto simp: eb get_by_triple_count(1))
  next
    case None
    with found Cons.prems(1) eb obtain backend entry s2 where
      nodes: "get_by_id b (nodes s) = Some backend" "get_by_id e (nodes s) = Some entry" and
      ins: "insert_route_row (auto_route now (uuid_supply s) entry backend tp)
              (s\<lparr>uuid_supply := Suc (uuid_supply s)\<rparr>) = Inr s2" and
      rest: "auto_create_loop now tp ps (an @ [(e, b)], s2) = Inr (an', s')"
      by (auto simp: uuid4_def split: option.splits sum.splits)
    let ?r = "auto_route now (uuid_supply s) entry backend tp"
    have s2: "routes s2 = routes s @ [?r]" "nodes s2 = nodes s" "profiles s2 = profiles s"
      "assignments s2 = assignments s"
      using ins by (auto simp: insert_route_row_def create_row_def split: if_splits)
    have triple: "has_triple tp x ?r \<longleftrightarrow> x = (e, b)" for x
      using nodes get_by_id_Some by (cases x) (auto simp: has_triple_def auto_route_def)
    have "count_triple tp (e, b) s = 0" using None found get_by_triple_count(2) by blast
    with Cons.IH [OF rest] Cons.prems(2) show ?thesis by (auto simp: eb s2 triple)
  qed
qed simp

lemma announce_frame:
  "routes (fold (\<lambda>(e, b). sync_entry_upstream now e b None) ps s) = routes s"
  "profiles (fold (\<lambda>(e, b). sync_entry_upstream now e b None) ps s) = profiles s"
  "assignments (fold (\<lambda>(e, b). sync_entry_upstream now e b None) ps s) = assignments s"
  by (induction ps arbitrary: s; simp add: split_def)+

lemma sync_entry_upstream_ids [simp]:
  "get_by_id i (nodes (sync_entry_upstream now e b bn s)) = None \<longleftrightarrow> get_by_id i (nodes s) = None"
  by (simp add: sync_entry_upstream_def Let_def split_def uuid4_def repo_simps split: option.splits)

lemma announce_ids:
  "get_by_id i (nodes (fold (\<lambda>(e, b). sync_entry_upstream now e b None) ps s)) = None \<longleftrightarrow>
   get_by_id i (nodes s) = None"
  by (induction ps arbitrary: s) (simp_all add: split_def)

lemma wanted_pairs_cong:
  "assignments s' = assignments s \<Longrightarrow>
   (\<And>i. get_by_id i (nodes s') = None \<longleftrightarrow> get_by_id i (nodes s) = None) \<Longrightarrow>
   wanted_pairs s' = wanted_pairs s"
  by (simp add: wanted_pairs_def)

lemma count_triple_deactivate:
  "length (filter (has_triple tp eb) (update_where P (\<lambda>r. r\<lparr>is_active := False, updated_at := now\<rparr>) t)) =
   length (filter (has_triple tp eb) t)"
  by (rule length_filter_update_where_same) (simp add: has_triple_def)

lemma auto_create_loop_idle:
  "\<forall>eb \<in> set ps. count_triple tp eb s = 1 \<Longrightarrow> auto_create_loop now tp ps (an, s) = Inr (an, s)"
proof (induction ps)
  case (Cons eb ps)
  obtain e b where eb: "eb = (e, b)" by (cases eb)
  with Cons get_by_triple_count(3) [of tp e b s] show ?case by auto
qed simp

text \<open>C36: After a tick of the auto-create reconciler there is exactly one reality route for every
  enabled assignment, every active reality route through an entry belongs to one, a route that was
  inactive stays untouched (the administrator's decision stands), and a further tick changes
  nothing.\<close>

theorem auto_create_tick_establishes:
  assumes "reality_profile s = Some tp" and "auto_create_tick now s = Inr (Some out, s')"
  shows "(\<forall>eb \<in> set (wanted_pairs s). count_triple (row_id tp) eb s' = 1) \<and>
         (\<forall>r \<in> set (routes s'). is_active r \<and> transport_profile_id r = row_id tp \<longrightarrow>
            (\<forall>e. entry_node_id r = Some e \<longrightarrow> (e, route_node_id r) \<in> set (wanted_pairs s))) \<and>
         (\<forall>r \<in> set (routes s). \<not> is_active r \<longrightarrow> r \<in> set (routes s')) \<and>
         auto_create_tick later s' = Inr (Some (0, 0), s')"
proof -
  let ?W = "wanted_pairs s" and ?t = "row_id tp"
  let ?off = "\<lambda>r :: route. r\<lparr>is_active := False, updated_at := now\<rparr>"
  from assms obtain an s1 where
    loop: "auto_create_loop now ?t ?W ([], s) = Inr (an, s1)" and
    s': "s' = fold (\<lambda>(e, b). sync_entry_upstream now e b None) an
           (s1\<lparr>routes := update_where (unwanted ?W ?t) ?off (routes s1)\<rparr>)"
    by (auto simp: auto_create_tick_def Let_def split: sum.splits)
  have "distinct ?W" by (simp add: wanted_pairs_def)
  note spec = auto_create_loop_spec [OF loop this]
  then obtain new where new: "routes s1 = routes s @ new" by blast
  have routes: "routes s' = update_where (unwanted ?W ?t) ?off (routes s1)"
    by (simp add: s' announce_frame)
  have one: "\<forall>eb \<in> set ?W. count_triple ?t eb s' = 1"
    using spec by (simp add: routes count_triple_deactivate)
  have none: "\<not> unwanted ?W ?t r" if "r \<in> set (routes s')" for r
    using that by (auto simp: routes set_update_where unwanted_def)
  have want: "wanted_pairs s' = ?W"
    using spec by (intro wanted_pairs_cong) (simp_all add: s' announce_frame announce_ids)
  have prof: "reality_profile s' = Some tp"
    using spec assms(1)
    by (simp add: reality_profile_def list_active_profiles_def s' announce_frame)
  have "auto_create_tick later s' = Inr (Some (0, 0), s')"
    using auto_create_loop_idle [OF one, of later "[]"] none
    by (simp add: auto_create_tick_def prof want Let_def update_where_none filter_False)
  moreover have "r \<in> set (routes s')" if "r \<in> set (routes s)" "\<not> is_active r" for r
    using that by (auto simp: routes new set_update_where unwanted_def)
  moreover have "(e, route_node_id r) \<in> set ?W"
    if "r \<in> set (routes s')" "is_active r" "transport_profile_id r = ?t" "entry_node_id r = Some e" for r e
    using none [OF that(1)] that(2-) by (simp add: unwanted_def)
  ultimately show ?thesis using one by blast
qed

definition sample_assignment :: entry_backend_assignment where
  "sample_assignment =
     \<lparr>row_id = 8, created_at = 0, updated_at = 0, is_active = True, eba_entry_node_id = 5,
      eba_backend_node_id = 2, eba_weight = 100, eba_enabled = True, eba_rank = 0\<rparr>"

definition sample_entry_db :: db where
  "sample_entry_db = empty_db\<lparr>nodes := [sample_node 2 ''backend'', sample_node 5 ''entry''],
     profiles := [sample_profile], assignments := [sample_assignment]\<rparr>"

lemma sample_entry_db_sel [simp]:
  "nodes sample_entry_db = [sample_node 2 ''backend'', sample_node 5 ''entry'']"
  "profiles sample_entry_db = [sample_profile]" "assignments sample_entry_db = [sample_assignment]"
  "routes sample_entry_db = []" "outbox sample_entry_db = []" "uuid_supply sample_entry_db = 1000"
  by (simp_all add: sample_entry_db_def)

lemma sample_node_sel [simp]:
  "row_id (sample_node i r) = i" "is_active (sample_node i r)" "role (sample_node i r) = r"
  "upstream_node_id (sample_node i r) = None" "node_name (sample_node i r) = ''n''"
  by (simp_all add: sample_node_def)

theorem auto_create_tick_establishes_witness:
  "count_triple 3 (5, 2) (snd (projr (auto_create_tick 7 sample_entry_db))) = 1"
proof -
  let ?t = "auto_create_tick 7 sample_entry_db"
  have prof: "reality_profile sample_entry_db = Some sample_profile"
    by (simp add: reality_profile_def list_active_profiles_def limit_rows_def sample_profile_def)
  have want: "wanted_pairs sample_entry_db = [(5, 2)]"
    by (simp add: wanted_pairs_def sample_assignment_def get_by_id_def)
  have "?t = Inr (Some (1, 0), snd (projr ?t))"
    unfolding auto_create_tick_def prof want
    by (simp add: Let_def uuid4_def get_by_triple_def get_by_id_def insert_route_row_def route_ck_def
        route_name_taken_def auto_route_def unwanted_def)
  from auto_create_tick_establishes [OF prof this] show ?thesis
    by (simp add: want sample_profile_def)
qed

section \<open>Transport profiles\<close>

text \<open>The combinations of transport, security and their parameters that a client can be given.\<close>

definition profile_consistent :: "profile_create_in \<Rightarrow> bool" where
  "profile_consistent p \<longleftrightarrow> pc_protocol p = ''vless'' \<and>
     (pc_security p = ''reality'' \<and> pc_network p = ''tcp'' \<and> truthy (pc_reality_public_key p) \<and>
        truthy (pc_reality_short_id p) \<and> truthy (pc_reality_server_name p) \<and>
        \<not> truthy (pc_grpc_service_name p) \<or>
      pc_security p = ''tls'' \<and> \<not> truthy (pc_flow p) \<and> \<not> truthy (pc_reality_public_key p) \<and>
        \<not> truthy (pc_reality_short_id p) \<and> \<not> truthy (pc_reality_server_name p) \<and>
        (pc_network p = ''grpc'' \<and> truthy (pc_grpc_service_name p) \<or>
         pc_network p = ''ws'' \<and> \<not> truthy (pc_grpc_service_name p)))"

lemma normalize_consistent:
  "normalize_transport_profile_payload p = Inr q \<Longrightarrow> profile_consistent q"
  by (auto simp: normalize_transport_profile_payload_def profile_consistent_def split: if_splits)

lemma normalize_of_consistent:
  "profile_consistent p \<Longrightarrow> normalize_transport_profile_payload p = Inr p"
  unfolding profile_consistent_def
  by (elim conjE disjE) (cases p, simp add: normalize_transport_profile_payload_def)+

text \<open>The normalisation of a transport profile is a decision procedure for consistent profiles: a
  request is accepted exactly when it is consistent as it stands or when it is a TLS gRPC profile
  that lacks only its service name; what it returns is consistent, differs from the request at
  most in that service name, and normalising it again changes nothing.\<close>

theorem normalize_transport_profile_decides:
  "(case normalize_transport_profile_payload p of
      Inr q \<Rightarrow> profile_consistent q \<and> normalize_transport_profile_payload q = Inr q \<and>
               q = p\<lparr>pc_grpc_service_name := pc_grpc_service_name q\<rparr> \<and>
               (q = p \<or> pc_network p = ''grpc'' \<and> \<not> truthy (pc_grpc_service_name p) \<and>
                  pc_grpc_service_name q = Some ''vl'')
    | Inl err \<Rightarrow> (\<exists>detail. err = HTTPException 422 detail) \<and>
               \<not> profile_consistent p \<and> \<not> profile_consistent (p\<lparr>pc_grpc_service_name := Some ''vl''\<rparr>))"
proof (cases "normalize_transport_profile_payload p")
  case (Inl err)
  then have "\<exists>detail. err = HTTPException 422 detail"
    by (auto simp: normalize_transport_profile_payload_def split: if_splits)
  moreover have "\<not> profile_consistent p" using Inl normalize_of_consistent by fastforce
  moreover have "\<not> profile_consistent (p\<lparr>pc_grpc_service_name := Some ''vl''\<rparr>)"
    using Inl by (auto simp: normalize_transport_profile_payload_def profile_consistent_def split: if_splits)
  ultimately show ?thesis using Inl by simp
next
  case (Inr q)
  have "q = p \<or> q = p\<lparr>pc_grpc_service_name := Some ''vl''\<rparr> \<and> pc_network p = ''grpc'' \<and>
      \<not> truthy (pc_grpc_service_name p)"
    using Inr by (auto simp: normalize_transport_profile_payload_def split: if_splits)
  with Inr normalize_consistent [OF Inr] normalize_of_consistent [of q] show ?thesis by auto
qed

section \<open>Upstream messages\<close>

text \<open>Synchronising an entry with a backend leaves the entry pointing at that backend, and it
  enqueues one message to the entry exactly when the upstream changed; synchronising again is a
  no-op, so an unchanged upstream never causes a message.\<close>

theorem sync_entry_upstream_effect:
  assumes "get_by_id e (nodes s) = Some en" and "get_by_id b (nodes s) = Some bn" and "e \<noteq> b"
    and "outbox_inv s" and "\<forall>r \<in> set (outbox s). ob_message_id r \<noteq> UpstreamChangedId e b now"
    and s'_def: "s' = sync_entry_upstream now e b None s"
  shows "map_option upstream_node_id (get_by_id e (nodes s')) = Some (Some b) \<and>
         length (outbox s') = length (outbox s) + (if upstream_node_id en = Some b then 0 else 1) \<and>
         sync_entry_upstream later e b bo s' = s' \<and> outbox_inv s'"
proof (cases "upstream_node_id en = Some b")
  case True
  with assms show ?thesis by (simp add: sync_entry_upstream_def)
next
  case False
  let ?f = "\<lambda>n. n\<lparr>upstream_node_id := Some b, updated_at := now\<rparr>"
  let ?s2 = "s\<lparr>nodes := update_by_id e ?f (nodes s), uuid_supply := Suc (uuid_supply s)\<rparr>"
  let ?item = "upstream_changed_item now e b bn (uuid_supply s)"
  have s': "s' = enqueue_many now [?item] ?s2"
    using False assms(1-3) by (simp add: s'_def sync_entry_upstream_def Let_def uuid4_def repo_simps)
  have nodes: "get_by_id e (nodes s') = Some (?f en)" using assms(1) by (simp add: s' repo_simps)
  have inv2: "outbox_inv ?s2" using assms(4) by (simp add: outbox_inv_def below_Suc)
  have "length (outbox s') = length (outbox s) + 1"
    using assms(5) by (auto simp: s' enqueue_many_def enqueue_one_def upstream_changed_item_def
        uuid4_def create_row_def Let_def)
  moreover have "outbox_inv s'" unfolding s' using inv2 by (rule ob.enq_ok)
  moreover have "sync_entry_upstream later e b bo s' = s'"
    using nodes by (simp add: sync_entry_upstream_def)
  ultimately show ?thesis using False nodes by simp
qed

theorem sync_entry_upstream_effect_witness:
  "length (outbox (sync_entry_upstream 7 5 2 None sample_entry_db)) = 1"
  using sync_entry_upstream_effect [of 5 sample_entry_db "sample_node 5 ''entry''" 2 "sample_node 2 ''backend''" 7]
  by (simp add: get_by_id_def outbox_inv_def)

end
