(* ===== verification/Node_Display.thy ===== *)
theory Node_Display
  imports Models
begin

text \<open>
  \<open>shared/utils/node_display.py\<close>: the country and the zone of a region name, and the flag of a
  country.  Region names are ASCII; a flag is the list of its two code points.
\<close>

section \<open>Tables\<close>

definition REGION_TO_COUNTRY_CODE :: "(string \<times> string) list" where
  "REGION_TO_COUNTRY_CODE =
     [(''fi'', ''FI''), (''hel'', ''FI''), (''de'', ''DE''), (''fra'', ''DE''),
      (''nl'', ''NL''), (''ams'', ''NL''), (''pl'', ''PL''), (''waw'', ''PL''),
      (''gb'', ''GB''), (''uk'', ''GB''), (''lon'', ''GB''), (''fr'', ''FR''),
      (''par'', ''FR''), (''es'', ''ES''), (''mad'', ''ES''), (''it'', ''IT''),
      (''rom'', ''IT''), (''mil'', ''IT''), (''se'', ''SE''), (''sto'', ''SE''),
      (''no'', ''NO''), (''osl'', ''NO''), (''dk'', ''DK''), (''cph'', ''DK''),
      (''ch'', ''CH''), (''zrh'', ''CH''), (''at'', ''AT''), (''vie'', ''AT''),
      (''cz'', ''CZ''), (''prg'', ''CZ''), (''us'', ''US''), (''nyc'', ''US''),
      (''lax'', ''US''), (''ca'', ''CA''), (''tor'', ''CA''), (''sg'', ''SG''),
      (''jp'', ''JP''), (''tok'', ''JP''), (''kr'', ''KR''), (''sel'', ''KR''),
      (''hk'', ''HK''), (''au'', ''AU''), (''syd'', ''AU''), (''in'', ''IN''),
      (''tr'', ''TR''), (''ua'', ''UA''), (''ru'', ''RU''), (''kz'', ''KZ''),
      (''ae'', ''AE''), (''dxb'', ''AE''), (''br'', ''BR''), (''mx'', ''MX''),
      (''il'', ''IL''), (''lv'', ''LV''), (''rig'', ''LV'')]"

definition COUNTRY_CODE_TO_NAME :: "(string \<times> string) list" where
  "COUNTRY_CODE_TO_NAME =
     [(''FI'', ''Finland''), (''DE'', ''Germany''), (''NL'', ''Netherlands''),
      (''PL'', ''Poland''), (''GB'', ''United Kingdom''), (''FR'', ''France''),
      (''ES'', ''Spain''), (''IT'', ''Italy''), (''SE'', ''Sweden''), (''NO'', ''Norway''),
      (''DK'', ''Denmark''), (''CH'', ''Switzerland''), (''AT'', ''Austria''),
      (''CZ'', ''Czechia''), (''US'', ''United States''), (''CA'', ''Canada''),
      (''SG'', ''Singapore''), (''JP'', ''Japan''), (''KR'', ''South Korea''),
      (''HK'', ''Hong Kong''), (''AU'', ''Australia''), (''IN'', ''India''),
      (''TR'', ''Turkey''), (''UA'', ''Ukraine''), (''RU'', ''Russia''),
      (''KZ'', ''Kazakhstan''), (''AE'', ''United Arab Emirates''), (''BR'', ''Brazil''),
      (''MX'', ''Mexico''), (''IL'', ''Israel''), (''LV'', ''Latvia'')]"

definition COUNTRY_CODE_TO_ZONE :: "(string \<times> string) list" where
  "COUNTRY_CODE_TO_ZONE =
     [(''FI'', ''europe''), (''DE'', ''europe''), (''NL'', ''europe''),
      (''PL'', ''europe''), (''GB'', ''europe''), (''FR'', ''europe''),
      (''ES'', ''europe''), (''IT'', ''europe''), (''SE'', ''europe''),
      (''NO'', ''europe''), (''DK'', ''europe''), (''CH'', ''europe''),
      (''AT'', ''europe''), (''CZ'', ''europe''), (''UA'', ''europe''),
      (''RU'', ''europe''), (''KZ'', ''europe''), (''LV'', ''europe''),
      (''TR'', ''europe''), (''SG'', ''asia''), (''JP'', ''asia''), (''KR'', ''asia''),
      (''HK'', ''asia''), (''IN'', ''asia''), (''AE'', ''asia''), (''IL'', ''asia''),
      (''US'', ''americas''), (''CA'', ''americas''), (''MX'', ''americas''),
      (''BR'', ''americas''), (''AU'', ''oceania'')]"

definition VALID_ZONES :: "string list" where
  "VALID_ZONES = [''europe'', ''asia'', ''americas'', ''oceania'', ''africa'', ''unknown'']"

section \<open>Letters\<close>

definition is_lower :: "char \<Rightarrow> bool" where
  "is_lower c \<longleftrightarrow> 97 \<le> (of_char c :: nat) \<and> (of_char c :: nat) \<le> 122"

definition is_letter :: "char \<Rightarrow> bool" where
  "is_letter c \<longleftrightarrow> is_lower c \<or> (65 \<le> (of_char c :: nat) \<and> (of_char c :: nat) \<le> 90)"

definition upper_char :: "char \<Rightarrow> char" where
  "upper_char c = (if is_lower c then char_of ((of_char c :: nat) - 32) else c)"

definition py_upper :: "string \<Rightarrow> string" where
  "py_upper xs = map upper_char xs"

section \<open>Countries and zones\<close>

text \<open>\<open>re.split(r"[^a-zA-Z]+", ...)\<close> without the empty pieces: the maximal runs of letters.\<close>

fun letter_runs :: "string \<Rightarrow> string \<Rightarrow> string list" where
  "letter_runs acc [] = (if acc = [] then [] else [rev acc])"
| "letter_runs acc (c # cs) =
     (if is_letter c then letter_runs (c # acc) cs
      else if acc = [] then letter_runs [] cs
      else rev acc # letter_runs [] cs)"

definition extract_region_tokens :: "string \<Rightarrow> string list" where
  "extract_region_tokens region_name = letter_runs [] (py_lower region_name)"

definition country_code_from_region :: "string option \<Rightarrow> string option" where
  "country_code_from_region region_name =
     (case region_name of
        None \<Rightarrow> None
      | Some raw \<Rightarrow>
          let clean = py_lower (py_strip raw) in
          if clean = [] then None
          else
            let tokens = extract_region_tokens clean in
            (case find (\<lambda>t. truthy (map_of REGION_TO_COUNTRY_CODE t)) tokens of
               Some t \<Rightarrow> map_of REGION_TO_COUNTRY_CODE t
             | None \<Rightarrow>
                 map_option py_upper (find (\<lambda>t. length t = 2 \<and> (\<forall>c \<in> set t. is_letter c)) tokens)))"

definition zone_from_country_code :: "string option \<Rightarrow> string option" where
  "zone_from_country_code code =
     (if \<not> truthy code then None
      else map_of COUNTRY_CODE_TO_ZONE (py_upper (py_strip (the code))))"

definition infer_zone_from_region :: "string option \<Rightarrow> string option" where
  "infer_zone_from_region region_name = zone_from_country_code (country_code_from_region region_name)"

definition effective_zone :: "string option \<Rightarrow> string option \<Rightarrow> string" where
  "effective_zone explicit_zone region_name =
     (let inferred = (if truthy (infer_zone_from_region region_name)
                      then the (infer_zone_from_region region_name) else ''unknown'')
      in if truthy explicit_zone \<and> py_lower (py_strip (the explicit_zone)) \<in> set VALID_ZONES
         then py_lower (py_strip (the explicit_zone)) else inferred)"

section \<open>Flags\<close>

definition UNKNOWN_FLAG :: "nat list" where
  "UNKNOWN_FLAG = [0x1F310]"

definition flag_emoji_from_country_code :: "string option \<Rightarrow> nat list" where
  "flag_emoji_from_country_code code =
     (if \<not> truthy code then UNKNOWN_FLAG
      else let c = py_upper (py_strip (the code)) in
        if length c \<noteq> 2 \<or> \<not> (\<forall>x \<in> set c. is_letter x) then UNKNOWN_FLAG
        else [0x1F1E6 + of_char (c ! 0) - 65, 0x1F1E6 + of_char (c ! 1) - 65])"

section \<open>The tables are closed\<close>

lemma map_of_mem: "map_of t k = Some v \<Longrightarrow> v \<in> snd ` set t"
  by (force dest: map_of_SomeD)

lemma zone_values: "snd ` set COUNTRY_CODE_TO_ZONE \<subseteq> set VALID_ZONES"
  by (simp add: COUNTRY_CODE_TO_ZONE_def VALID_ZONES_def)

lemma country_has_zone: "c \<in> snd ` set REGION_TO_COUNTRY_CODE \<Longrightarrow> map_of COUNTRY_CODE_TO_ZONE c \<noteq> None"
  by (auto simp: REGION_TO_COUNTRY_CODE_def COUNTRY_CODE_TO_ZONE_def)

lemma country_has_name: "c \<in> snd ` set REGION_TO_COUNTRY_CODE \<Longrightarrow> map_of COUNTRY_CODE_TO_NAME c \<noteq> None"
  by (auto simp: REGION_TO_COUNTRY_CODE_def COUNTRY_CODE_TO_NAME_def)

lemma country_is_code:
  "c \<in> snd ` set REGION_TO_COUNTRY_CODE \<Longrightarrow>
   py_upper (py_strip c) = c \<and> length c = 2 \<and> (\<forall>x \<in> set c. is_letter x)"
  by (auto simp: REGION_TO_COUNTRY_CODE_def py_upper_def py_strip_def is_space_def upper_char_def
      is_lower_def is_letter_def)

lemma valid_zone_normal: "z \<in> set VALID_ZONES \<Longrightarrow> z \<noteq> [] \<and> py_lower (py_strip z) = z"
  by (auto simp: VALID_ZONES_def py_lower_def py_strip_def is_space_def lower_char_def)

lemma zone_from_country_code_valid: "zone_from_country_code c = Some z \<Longrightarrow> z \<in> set VALID_ZONES"
  using map_of_mem [of COUNTRY_CODE_TO_ZONE] zone_values
  by (auto simp: zone_from_country_code_def split: if_splits)

lemma infer_zone_valid: "infer_zone_from_region r = Some z \<Longrightarrow> z \<in> set VALID_ZONES"
  by (simp add: infer_zone_from_region_def zone_from_country_code_valid)

lemma country_code_of_alias:
  assumes "t \<in> set (extract_region_tokens (py_lower (py_strip raw)))"
    and "t \<in> fst ` set REGION_TO_COUNTRY_CODE"
  shows "\<exists>c \<in> snd ` set REGION_TO_COUNTRY_CODE. country_code_from_region (Some raw) = Some c"
proof -
  let ?P = "\<lambda>t. truthy (map_of REGION_TO_COUNTRY_CODE t)"
  let ?tokens = "extract_region_tokens (py_lower (py_strip raw))"
  have "map_of REGION_TO_COUNTRY_CODE t \<noteq> None" using assms(2) by (simp add: map_of_eq_None_iff)
  then obtain c where c: "map_of REGION_TO_COUNTRY_CODE t = Some c" by auto
  then have "c \<noteq> []" using country_is_code [OF map_of_mem [OF c]] by auto
  with c assms(1) have "find ?P ?tokens \<noteq> None" by (auto simp: find_None_iff)
  then obtain t' where t': "find ?P ?tokens = Some t'" by auto
  then have "?P t'" by (auto dest: find_Some_mem)
  then obtain c' where c': "map_of REGION_TO_COUNTRY_CODE t' = Some c'"
    by (cases "map_of REGION_TO_COUNTRY_CODE t'") auto
  have "py_lower (py_strip raw) \<noteq> []"
    using assms(1) by (auto simp: extract_region_tokens_def py_lower_def)
  then have "country_code_from_region (Some raw) = Some c'"
    using t' c' by (simp add: country_code_from_region_def Let_def)
  with map_of_mem [OF c'] show ?thesis by blast
qed

text \<open>Every node has a zone of the fixed list of zones: an explicit zone from the list wins, and a
  region name that contains a known alias is never of the unknown zone.\<close>

theorem effective_zone_total:
  "effective_zone ez r \<in> set VALID_ZONES \<and>
   (\<forall>z \<in> set VALID_ZONES. effective_zone (Some z) r = z) \<and>
   (\<forall>raw. (\<exists>t \<in> set (extract_region_tokens (py_lower (py_strip raw))).
              t \<in> fst ` set REGION_TO_COUNTRY_CODE) \<longrightarrow>
          effective_zone None (Some raw) \<noteq> ''unknown'')"
proof (intro conjI ballI allI impI)
  show "effective_zone ez r \<in> set VALID_ZONES"
    using infer_zone_valid [of r]
    by (cases "infer_zone_from_region r") (auto simp: effective_zone_def Let_def VALID_ZONES_def)
next
  fix z assume "z \<in> set VALID_ZONES"
  with valid_zone_normal [OF this] show "effective_zone (Some z) r = z"
    by (simp add: effective_zone_def Let_def)
next
  fix raw assume "\<exists>t \<in> set (extract_region_tokens (py_lower (py_strip raw))). t \<in> fst ` set REGION_TO_COUNTRY_CODE"
  with country_code_of_alias obtain c where
    c: "c \<in> snd ` set REGION_TO_COUNTRY_CODE" "country_code_from_region (Some raw) = Some c" by blast
  from country_has_zone [OF c(1)] obtain z where z2: "map_of COUNTRY_CODE_TO_ZONE c = Some z" by auto
  moreover have "c \<noteq> []" using country_is_code [OF c(1)] by auto
  ultimately have z1: "infer_zone_from_region (Some raw) = Some z"
    using c(2) country_is_code [OF c(1)]
    by (simp add: infer_zone_from_region_def zone_from_country_code_def)
  note z = z1 z2
  have "z \<noteq> [] \<and> z \<noteq> ''unknown''"
    using map_of_mem [OF z(2)] by (auto simp: COUNTRY_CODE_TO_ZONE_def)
  with z show "effective_zone None (Some raw) \<noteq> ''unknown''"
    by (simp add: effective_zone_def Let_def)
qed

theorem effective_zone_total_witness:
  "effective_zone None (Some ''eu-fra-1'') \<noteq> ''unknown''"
proof -
  have "''fra'' \<in> set (extract_region_tokens (py_lower (py_strip ''eu-fra-1'')))"
    by (simp add: extract_region_tokens_def py_lower_def py_strip_def is_space_def lower_char_def
        is_letter_def is_lower_def)
  moreover have "''fra'' \<in> fst ` set REGION_TO_COUNTRY_CODE" by (simp add: REGION_TO_COUNTRY_CODE_def)
  ultimately show ?thesis using effective_zone_total by blast
qed

end
