(* ===== verification/Entry_Pool.thy ===== *)
theory Entry_Pool
  imports Route_Service Node_Display
begin

text \<open>
  \<open>services/entry/service.py\<close>, \<open>services/entry/repository.py\<close>, \<open>services/entry/events.py\<close> and
  the route names of \<open>services/nodes/naming\<close>: the pools of backends that the entries relay to.
  Every change of an assignment and every change of a backend's health announces the pools it
  touches through the outbox.  The port of the relays is configuration and a parameter.
\<close>

section \<open>EntryBackendAssignmentRepository\<close>

definition list_by_entry :: "uuid \<Rightarrow> db \<Rightarrow> entry_backend_assignment list" where
  "list_by_entry entry s =
     sort_key created_at (filter (\<lambda>a. eba_entry_node_id a = entry \<and> is_active a) (assignments s))"

definition get_by_entry_and_backend :: "uuid \<Rightarrow> uuid \<Rightarrow> db \<Rightarrow> entry_backend_assignment option" where
  "get_by_entry_and_backend entry backend s =
     get_one_by (\<lambda>a. eba_entry_node_id a = entry \<and> eba_backend_node_id a = backend) (assignments s)"

definition list_entry_ids_for_backend :: "uuid \<Rightarrow> db \<Rightarrow> uuid list" where
  "list_entry_ids_for_backend backend s =
     remdups (map eba_entry_node_id
       (filter (\<lambda>a. eba_backend_node_id a = backend \<and> is_active a) (assignments s)))"

definition list_active_for_backends :: "uuid list \<Rightarrow> db \<Rightarrow> entry_backend_assignment list" where
  "list_active_for_backends backends s =
     sort_key (\<lambda>a. (eba_rank a, - eba_weight a))
       (filter (\<lambda>a. eba_backend_node_id a \<in> set backends \<and> is_active a \<and> eba_enabled a) (assignments s))"

section \<open>The relay pool\<close>

definition ENTRY_ROLES :: "string list" where
  "ENTRY_ROLES = [''entry'', ''whitelist_entry'']"

definition RELAY_POOL_TTL_SEC :: int where
  "RELAY_POOL_TTL_SEC = 300"

definition resolve_backend_address :: "vpn_node \<Rightarrow> string option" where
  "resolve_backend_address b =
     (let candidate = py_strip (if truthy (reality_ip b) then the (reality_ip b) else internal_wg_ip b)
      in if candidate = [] then None else Some candidate)"

text \<open>\<open>int(latest.timestamp())\<close>: whole seconds, cut off towards zero.\<close>

definition int_timestamp :: "time \<Rightarrow> int" where
  "int_timestamp t = (if 0 \<le> t then t div usec 1 else - ((- t) div usec 1))"

definition pool_generation_of :: "entry_backend_assignment list \<Rightarrow> int" where
  "pool_generation_of as = (if as = [] then 0 else int_timestamp (Max (updated_at ` set as)))"

definition relay_backend_of :: "int \<Rightarrow> db \<Rightarrow> entry_backend_assignment \<Rightarrow> relay_backend option" where
  "relay_backend_of port s a =
     (case get_by_id (eba_backend_node_id a) (nodes s) of
        None \<Rightarrow> None
      | Some b \<Rightarrow>
          if \<not> is_active b then None
          else map_option (\<lambda>addr.
            \<lparr>rb_id = row_id b, rb_address = addr, rb_port = port, rb_weight = eba_weight a,
             rb_enabled = (eba_enabled a \<and> is_enabled b \<and> \<not> is_draining b), rb_rank = eba_rank a\<rparr>)
            (resolve_backend_address b))"

definition require_entry :: "uuid \<Rightarrow> db \<Rightarrow> vpn_node result" where
  "require_entry entry s =
     (case get_by_id entry (nodes s) of
        None \<Rightarrow> Inl (LookupError ''entry node not found'')
      | Some e \<Rightarrow>
          if \<not> is_active e then Inl (LookupError ''entry node not found'')
          else if role e \<notin> set ENTRY_ROLES then Inl (ValueError ''entry role'')
          else Inr e)"

definition get_relay_pool :: "int \<Rightarrow> uuid \<Rightarrow> db \<Rightarrow> relay_pool result" where
  "get_relay_pool port entry s =
     (case require_entry entry s of
        Inl err \<Rightarrow> Inl err
      | Inr _ \<Rightarrow>
          let as = list_by_entry entry s in
          Inr \<lparr>pool_entry_id = entry, pool_generation = pool_generation_of as,
               pool_ttl_seconds = RELAY_POOL_TTL_SEC,
               pool_backends = sort_key (\<lambda>b. (rb_rank b, rb_id b)) (List.map_filter (relay_backend_of port s) as)\<rparr>)"

section \<open>Announcements\<close>

definition pool_changed_item :: "time \<Rightarrow> uuid \<Rightarrow> uuid \<Rightarrow> relay_pool \<Rightarrow> outbox_item" where
  "pool_changed_item now eid entry pool =
     \<lparr>oi_node_id = entry, oi_event_type = pool_changed, oi_aggregate_id = None, oi_op_version = None,
      oi_subject = PoolSubject entry,
      oi_payload = PoolPayload \<lparr>pp_event_id = eid, pp_node_id = entry, pp_emitted_at = now, pp_pool = pool\<rparr>,
      oi_message_id = PoolChangedId entry (pool_generation pool) eid\<rparr>"

definition enqueue_pool_snapshot :: "int \<Rightarrow> time \<Rightarrow> uuid \<Rightarrow> db \<Rightarrow> db result" where
  "enqueue_pool_snapshot port now entry s =
     (case get_relay_pool port entry s of
        Inl err \<Rightarrow> Inl err
      | Inr pool \<Rightarrow>
          let (eid, s1) = uuid4 s in
          Inr (enqueue_many now [pool_changed_item now eid entry pool] s1))"

fun enqueue_pool_snapshots :: "int \<Rightarrow> time \<Rightarrow> uuid list \<Rightarrow> db \<Rightarrow> db result" where
  "enqueue_pool_snapshots port now [] s = Inr s"
| "enqueue_pool_snapshots port now (e # es) s =
     (case enqueue_pool_snapshot port now e s of
        Inl err \<Rightarrow> Inl err
      | Inr s1 \<Rightarrow> enqueue_pool_snapshots port now es s1)"

text \<open>Also \<open>enqueue_pool_snapshots_for_backend\<close>, the entry point of the other services.\<close>

definition notify_backend_health_changed :: "int \<Rightarrow> time \<Rightarrow> uuid \<Rightarrow> db \<Rightarrow> (nat \<times> db) result" where
  "notify_backend_health_changed port now backend s =
     (let es = list_entry_ids_for_backend backend s in
      case enqueue_pool_snapshots port now es s of
        Inl err \<Rightarrow> Inl err
      | Inr s1 \<Rightarrow> Inr (length es, s1))"

lemma only_outbox_pool_snapshot: "enqueue_pool_snapshot port now e s = Inr s' \<Longrightarrow> only_outbox s s'"
  by (auto simp: enqueue_pool_snapshot_def uuid4_def split: sum.splits
      intro: only_outbox_trans [OF only_outbox_supply only_outbox_enqueue_many])

lemma only_outbox_pool_snapshots: "enqueue_pool_snapshots port now es s = Inr s' \<Longrightarrow> only_outbox s s'"
  by (induction es arbitrary: s) (auto split: sum.splits dest!: only_outbox_pool_snapshot intro: only_outbox_trans)

lemma only_outbox_notify: "notify_backend_health_changed port now b s = Inr (k, s') \<Longrightarrow> only_outbox s s'"
  by (auto simp: notify_backend_health_changed_def Let_def split: sum.splits dest!: only_outbox_pool_snapshots)

section \<open>Routes of an assignment\<close>

definition TRANSPORT_SHORT :: "(string \<times> string) list" where
  "TRANSPORT_SHORT = [(''reality_tcp_v1'', ''reality''), (''ws_tls_v1'', ''wstls'')]"

definition transport_short_code :: "string \<Rightarrow> string" where
  "transport_short_code name = (case map_of TRANSPORT_SHORT name of None \<Rightarrow> name | Some x \<Rightarrow> x)"

definition MAX_ROUTE_NAME_LEN :: nat where
  "MAX_ROUTE_NAME_LEN = 100"

text \<open>
  The arrow and the dot are one character each and are written in UTF-8; names of nodes and
  profiles are ASCII.  The name is cut after 100 characters.
\<close>

definition canonical_route_name :: "string option \<Rightarrow> string \<Rightarrow> string \<Rightarrow> string" where
  "canonical_route_name entry_name backend_name profile_name =
     (let ascii = map (\<lambda>c. [c]);
          arrow = [[CHR 0xE2, CHR 0x86, CHR 0x92]];
          dot = [[CHR 0xC2, CHR 0xB7]];
          base = ascii backend_name @ dot @ ascii (transport_short_code profile_name)
      in concat (take MAX_ROUTE_NAME_LEN
           (if truthy entry_name then ascii (the entry_name) @ arrow @ base else base)))"

definition assignment_route :: "time \<Rightarrow> uuid \<Rightarrow> vpn_node \<Rightarrow> vpn_node \<Rightarrow> transport_profile \<Rightarrow> route" where
  "assignment_route now i entry backend tp =
     (let bw = 50 in
      \<lparr>row_id = i, created_at = now, updated_at = now, is_active = True,
       route_name = canonical_route_name (Some (node_name entry)) (node_name backend) (tp_name tp),
       route_node_id = row_id backend, entry_node_id = Some (row_id entry), transport_profile_id = row_id tp,
       health_status = warming_up, base_weight = bw, effective_weight = max 1 (bw div 2),
       cooldown_until = None, warmup_stage = Some 1, warmup_started_at = None\<rparr>)"

text \<open>
  The loop over the profiles.  The exception of a failing insert is caught, but the failed flush
  has ended the transaction, and the next statement of the handler raises: the outcome of the
  handler is the error.
\<close>

fun ensure_routes_loop ::
  "time \<Rightarrow> vpn_node \<Rightarrow> vpn_node \<Rightarrow> transport_profile list \<Rightarrow> nat \<Rightarrow> db \<Rightarrow> (nat \<times> db) result" where
  "ensure_routes_loop now entry backend [] created s = Inr (created, s)"
| "ensure_routes_loop now entry backend (tp # tps) created s =
     (case get_by_triple (row_id backend) (Some (row_id entry)) (row_id tp) s of
        Inl err \<Rightarrow> Inl err
      | Inr (Some r) \<Rightarrow>
          if is_active r then ensure_routes_loop now entry backend tps created s
          else (case update_route_row (row_id r) (\<lambda>r. r\<lparr>is_active := True, updated_at := now\<rparr>) s of
                  Inl err \<Rightarrow> Inl err
                | Inr (_, s1) \<Rightarrow> ensure_routes_loop now entry backend tps created s1)
      | Inr None \<Rightarrow>
          let (i, s1) = uuid4 s in
          (case insert_route_row (assignment_route now i entry backend tp) s1 of
             Inl err \<Rightarrow> Inl err
           | Inr s2 \<Rightarrow> ensure_routes_loop now entry backend tps (created + 1) s2))"

definition ensure_routes_for_assignment :: "time \<Rightarrow> uuid \<Rightarrow> uuid \<Rightarrow> db \<Rightarrow> (nat \<times> db) result" where
  "ensure_routes_for_assignment now entry backend s =
     (let tps = list_active_profiles None s in
      if tps = [] then Inr (0, s)
      else case (get_by_id entry (nodes s), get_by_id backend (nodes s)) of
             (Some e, Some b) \<Rightarrow> ensure_routes_loop now e b tps 0 s
           | _ \<Rightarrow> Inr (0, s))"

section \<open>Assignments\<close>

definition require_backend :: "uuid \<Rightarrow> db \<Rightarrow> vpn_node result" where
  "require_backend backend s =
     (case get_by_id backend (nodes s) of
        None \<Rightarrow> Inl (LookupError ''backend node not found'')
      | Some b \<Rightarrow>
          if \<not> is_active b then Inl (LookupError ''backend node not found'')
          else if role b \<noteq> ''backend'' then Inl (ValueError ''backend role'')
          else Inr b)"

definition node_zone :: "vpn_node \<Rightarrow> string" where
  "node_zone n = effective_zone (zone n) (Some (region n))"

definition require_zone_match :: "vpn_node \<Rightarrow> vpn_node \<Rightarrow> unit result" where
  "require_zone_match entry backend =
     (if node_zone entry = ''unknown'' \<or> node_zone backend = ''unknown'' then Inr ()
      else if node_zone entry \<noteq> node_zone backend then Inl (ValueError ''zone mismatch'')
      else Inr ())"

definition list_assignments :: "uuid \<Rightarrow> db \<Rightarrow> entry_backend_assignment list result" where
  "list_assignments entry s =
     (case require_entry entry s of Inl err \<Rightarrow> Inl err | Inr _ \<Rightarrow> Inr (list_by_entry entry s))"

record assign_in =
  ai_backend_node_id :: uuid
  ai_weight :: int
  ai_enabled :: bool
  ai_rank :: int

definition assign_in_valid :: "assign_in \<Rightarrow> bool" where
  "assign_in_valid pl \<longleftrightarrow>
     1 \<le> ai_weight pl \<and> ai_weight pl \<le> 100000 \<and> 0 \<le> ai_rank pl \<and> ai_rank pl \<le> 15"

definition new_assignment :: "time \<Rightarrow> uuid \<Rightarrow> uuid \<Rightarrow> assign_in \<Rightarrow> entry_backend_assignment" where
  "new_assignment now i entry pl =
     \<lparr>row_id = i, created_at = now, updated_at = now, is_active = True, eba_entry_node_id = entry,
      eba_backend_node_id = ai_backend_node_id pl, eba_weight = ai_weight pl,
      eba_enabled = ai_enabled pl, eba_rank = ai_rank pl\<rparr>"

definition store_assignment :: "time \<Rightarrow> uuid \<Rightarrow> assign_in \<Rightarrow> db \<Rightarrow> uuid \<times> db" where
  "store_assignment now entry pl s =
     (case get_by_entry_and_backend entry (ai_backend_node_id pl) s of
        Some a \<Rightarrow>
          (row_id a, s\<lparr>assignments := update_by_id (row_id a)
             (\<lambda>a. a\<lparr>eba_weight := ai_weight pl, eba_enabled := ai_enabled pl, eba_rank := ai_rank pl,
                    is_active := True, updated_at := now\<rparr>) (assignments s)\<rparr>)
      | None \<Rightarrow>
          let (i, s1) = uuid4 s in
          (i, s1\<lparr>assignments := create_row (new_assignment now i entry pl) (assignments s1)\<rparr>))"

definition assign_backend :: "int \<Rightarrow> time \<Rightarrow> uuid \<Rightarrow> assign_in \<Rightarrow> db \<Rightarrow> (uuid \<times> db) result" where
  "assign_backend port now entry pl s =
     (if \<not> assign_in_valid pl then Inl (ValidationError ''EntryBackendAssignIn'')
      else case require_entry entry s of
        Inl err \<Rightarrow> Inl err
      | Inr e \<Rightarrow>
        (case require_backend (ai_backend_node_id pl) s of
           Inl err \<Rightarrow> Inl err
         | Inr b \<Rightarrow>
           (case require_zone_match e b of
              Inl err \<Rightarrow> Inl err
            | Inr _ \<Rightarrow>
              let (i, s1) = store_assignment now entry pl s in
              (case ensure_routes_for_assignment now entry (ai_backend_node_id pl) s1 of
                 Inl err \<Rightarrow> Inl err
               | Inr (_, s2) \<Rightarrow>
                 (case enqueue_pool_snapshot port now entry s2 of
                    Inl err \<Rightarrow> Inl err
                  | Inr s3 \<Rightarrow> Inr (i, s3))))))"

text \<open>A field that is given as \<open>null\<close> goes into the statement and violates its column.\<close>

record assign_update_in =
  au_weight :: "int option field"
  au_enabled :: "bool option field"
  au_rank :: "int option field"

fun given_or :: "'a \<Rightarrow> 'a option field \<Rightarrow> 'a result" where
  "given_or old Unset = Inr old"
| "given_or old (Given None) = Inl (IntegrityError ''NotNullViolation'')"
| "given_or old (Given (Some v)) = Inr v"

fun in_range :: "int \<Rightarrow> int \<Rightarrow> int option field \<Rightarrow> bool" where
  "in_range lo hi (Given (Some v)) \<longleftrightarrow> lo \<le> v \<and> v \<le> hi"
| "in_range lo hi _ \<longleftrightarrow> True"

definition update_assignment_fields ::
  "time \<Rightarrow> assign_update_in \<Rightarrow> entry_backend_assignment \<Rightarrow> entry_backend_assignment result" where
  "update_assignment_fields now pl a =
     (case given_or (eba_weight a) (au_weight pl) of Inl err \<Rightarrow> Inl err | Inr w \<Rightarrow>
      (case given_or (eba_enabled a) (au_enabled pl) of Inl err \<Rightarrow> Inl err | Inr en \<Rightarrow>
       (case given_or (eba_rank a) (au_rank pl) of Inl err \<Rightarrow> Inl err | Inr r \<Rightarrow>
          Inr (a\<lparr>eba_weight := w, eba_enabled := en, eba_rank := r, updated_at := now\<rparr>))))"

definition update_assignment ::
  "int \<Rightarrow> time \<Rightarrow> uuid \<Rightarrow> uuid \<Rightarrow> assign_update_in \<Rightarrow> db \<Rightarrow> (entry_backend_assignment option \<times> db) result" where
  "update_assignment port now entry backend pl s =
     (if \<not> in_range 1 100000 (au_weight pl) \<or> \<not> in_range 0 15 (au_rank pl)
      then Inl (ValidationError ''EntryBackendUpdateIn'')
      else case get_by_entry_and_backend entry backend s of
        None \<Rightarrow> Inr (None, s)
      | Some a \<Rightarrow>
        if \<not> is_active a then Inr (None, s)
        else if au_weight pl = Unset \<and> au_enabled pl = Unset \<and> au_rank pl = Unset then Inr (Some a, s)
        else (case update_assignment_fields now pl a of
                Inl err \<Rightarrow> Inl err
              | Inr a' \<Rightarrow>
                (case enqueue_pool_snapshot port now entry
                        (s\<lparr>assignments := update_by_id (row_id a) (\<lambda>_. a') (assignments s)\<rparr>) of
                   Inl err \<Rightarrow> Inl err
                 | Inr s1 \<Rightarrow> Inr (Some a', s1))))"

definition remove_assignment :: "int \<Rightarrow> time \<Rightarrow> uuid \<Rightarrow> uuid \<Rightarrow> db \<Rightarrow> (bool \<times> db) result" where
  "remove_assignment port now entry backend s =
     (case get_by_entry_and_backend entry backend s of
        None \<Rightarrow> Inr (False, s)
      | Some a \<Rightarrow>
        if \<not> is_active a then Inr (False, s)
        else (case enqueue_pool_snapshot port now entry
                     (s\<lparr>assignments := update_by_id (row_id a)
                          (\<lambda>a. a\<lparr>is_active := False, updated_at := now\<rparr>) (assignments s)\<rparr>) of
                Inl err \<Rightarrow> Inl err
              | Inr s1 \<Rightarrow> Inr (True, s1)))"

section \<open>What a pool contains\<close>

lemma set_list_by_entry: "set (list_by_entry e s) = {a \<in> set (assignments s). eba_entry_node_id a = e \<and> is_active a}"
  by (auto simp: list_by_entry_def)

lemma get_relay_pool_Inr:
  "get_relay_pool port e s = Inr pool \<longleftrightarrow> (\<exists>n. require_entry e s = Inr n) \<and>
     pool = \<lparr>pool_entry_id = e, pool_generation = pool_generation_of (list_by_entry e s),
             pool_ttl_seconds = RELAY_POOL_TTL_SEC,
             pool_backends = sort_key (\<lambda>b. (rb_rank b, rb_id b))
               (List.map_filter (relay_backend_of port s) (list_by_entry e s))\<rparr>"
  by (auto simp: get_relay_pool_def Let_def split: sum.splits)

definition assignment_pair :: "entry_backend_assignment \<Rightarrow> uuid \<times> uuid" where
  "assignment_pair a = (eba_entry_node_id a, eba_backend_node_id a)"

lemma relay_backend_of_id: "relay_backend_of port s a = Some x \<Longrightarrow> rb_id x = eba_backend_node_id a"
  by (auto simp: relay_backend_of_def split: option.splits if_splits dest: get_by_id_Some)

lemma distinct_map_map_filter:
  assumes "\<And>a x. a \<in> set as \<Longrightarrow> f a = Some x \<Longrightarrow> g x = h a" and "distinct (map h as)"
  shows "distinct (map g (List.map_filter f as))"
  using assms
proof (induction as)
  case (Cons a as)
  have IH: "distinct (map g (List.map_filter f as))"
    using Cons.IH [OF Cons.prems(1)] Cons.prems(2) by simp
  have "g x \<noteq> g y" if "f a = Some x" "y \<in> set (List.map_filter f as)" for x y
  proof -
    from that(2) obtain b where "b \<in> set as" "f b = Some y" by (auto simp: set_map_filter)
    then have "g y = h b" "h b \<in> h ` set as" using Cons.prems(1) by auto
    moreover have "g x = h a" using Cons.prems(1) that(1) by simp
    ultimately show ?thesis using Cons.prems(2) by auto
  qed
  with IH show ?case by (auto simp: List.map_filter_simps split: option.splits)
qed simp

lemma distinct_map_sort_key: "distinct (map g (sort_key k xs)) = distinct (map g xs)"
  by (simp add: distinct_map)

text \<open>C8: The relay pool of an entry is exactly what its assignments say.  It lists, ordered by
  tier and id and each backend once, one relay for every active assignment of the entry whose
  backend is active and has an address (the reality address, or else the mesh address); a relay is
  enabled exactly when the assignment and the backend are enabled and the backend is not draining;
  and the generation is 0 for an entry without assignments, otherwise the second of the latest
  change of one of them.\<close>

theorem relay_pool_exact:
  assumes "get_relay_pool port e s = Inr pool"
    and "distinct (map assignment_pair (assignments s))"
  shows "sorted (map (\<lambda>x. (rb_rank x, rb_id x)) (pool_backends pool)) \<and>
         distinct (map rb_id (pool_backends pool)) \<and>
         (\<forall>x. x \<in> set (pool_backends pool) \<longleftrightarrow>
            (\<exists>a b. a \<in> set (assignments s) \<and> eba_entry_node_id a = e \<and> is_active a \<and>
               get_by_id (eba_backend_node_id a) (nodes s) = Some b \<and> is_active b \<and>
               resolve_backend_address b = Some (rb_address x) \<and> rb_id x = row_id b \<and> rb_port x = port \<and>
               rb_weight x = eba_weight a \<and> rb_rank x = eba_rank a \<and>
               (rb_enabled x \<longleftrightarrow> eba_enabled a \<and> is_enabled b \<and> \<not> is_draining b))) \<and>
         pool_generation pool =
           (if \<exists>a \<in> set (assignments s). eba_entry_node_id a = e \<and> is_active a
            then int_timestamp (Max (updated_at ` {a \<in> set (assignments s). eba_entry_node_id a = e \<and> is_active a}))
            else 0)"
proof -
  have pool: "pool_backends pool = sort_key (\<lambda>b. (rb_rank b, rb_id b))
       (List.map_filter (relay_backend_of port s) (list_by_entry e s))"
    "pool_generation pool = pool_generation_of (list_by_entry e s)"
    using assms(1) by (auto simp: get_relay_pool_Inr)
  have "distinct (map eba_backend_node_id (list_by_entry e s))"
  proof -
    have "distinct (map assignment_pair (filter (\<lambda>a. eba_entry_node_id a = e \<and> is_active a) (assignments s)))"
      using assms(2) by (rule distinct_map_filter)
    then show ?thesis
      by (auto simp: list_by_entry_def distinct_map inj_on_def assignment_pair_def)
  qed
  then have "distinct (map rb_id (pool_backends pool))"
    unfolding pool distinct_map_sort_key by (intro distinct_map_map_filter) (auto dest: relay_backend_of_id)
  moreover have "sorted (map (\<lambda>x. (rb_rank x, rb_id x)) (pool_backends pool))" by (simp add: pool)
  moreover have "x \<in> set (pool_backends pool) \<longleftrightarrow>
            (\<exists>a b. a \<in> set (assignments s) \<and> eba_entry_node_id a = e \<and> is_active a \<and>
               get_by_id (eba_backend_node_id a) (nodes s) = Some b \<and> is_active b \<and>
               resolve_backend_address b = Some (rb_address x) \<and> rb_id x = row_id b \<and> rb_port x = port \<and>
               rb_weight x = eba_weight a \<and> rb_rank x = eba_rank a \<and>
               (rb_enabled x \<longleftrightarrow> eba_enabled a \<and> is_enabled b \<and> \<not> is_draining b))" for x
    unfolding pool
    by (cases x) (auto simp: set_map_filter set_list_by_entry relay_backend_of_def split: option.splits if_splits)
  moreover have "list_by_entry e s = [] \<longleftrightarrow> \<not> (\<exists>a \<in> set (assignments s). eba_entry_node_id a = e \<and> is_active a)"
    using set_list_by_entry [of e s] by (auto simp flip: set_empty)
  then have "pool_generation pool =
           (if \<exists>a \<in> set (assignments s). eba_entry_node_id a = e \<and> is_active a
            then int_timestamp (Max (updated_at ` {a \<in> set (assignments s). eba_entry_node_id a = e \<and> is_active a}))
            else 0)"
    unfolding pool(2) pool_generation_of_def set_list_by_entry by auto
  ultimately show ?thesis by blast
qed

section \<open>Entries always know their pool\<close>

fun pool_of_payload :: "payload \<Rightarrow> relay_pool option" where
  "pool_of_payload (PoolPayload p) = Some (pp_pool p)"
| "pool_of_payload _ = None"

definition pools_sent :: "uuid \<Rightarrow> outbox_row list \<Rightarrow> relay_pool list" where
  "pools_sent e rows = List.map_filter (\<lambda>r. pool_of_payload (ob_payload r)) (filter (\<lambda>r. ob_node_id r = e) rows)"

text \<open>The pool that the latest announcement for an entry carries.\<close>

definition announced_pool :: "uuid \<Rightarrow> db \<Rightarrow> relay_pool option" where
  "announced_pool e s = (let ps = pools_sent e (outbox s) in if ps = [] then None else Some (last ps))"

text \<open>
  An entry is informed when the latest announcement carries its current pool; an entry that never
  had an assignment needs none.
\<close>

definition informed :: "int \<Rightarrow> db \<Rightarrow> uuid \<Rightarrow> bool" where
  "informed port s e \<longleftrightarrow>
     (\<forall>pool. get_relay_pool port e s = Inr pool \<longrightarrow>
        announced_pool e s = Some pool \<or>
        announced_pool e s = None \<and> (\<forall>a \<in> set (assignments s). eba_entry_node_id a \<noteq> e))"

text \<open>Ids that pool messages carry were drawn before.\<close>

definition pool_ids_drawn :: "db \<Rightarrow> bool" where
  "pool_ids_drawn s \<longleftrightarrow>
     (\<forall>r \<in> set (outbox s). case ob_message_id r of PoolChangedId _ _ i \<Rightarrow> i < uuid_supply s | _ \<Rightarrow> True)"

definition pools_inv :: "int \<Rightarrow> db \<Rightarrow> bool" where
  "pools_inv port s \<longleftrightarrow>
     ids_ok (assignments s) \<and> below (uuid_supply s) (assignments s) \<and> ids_ok (nodes s) \<and>
     pool_ids_drawn s \<and> (\<forall>e. informed port s e)"

lemma pools_sent_append: "pools_sent e (xs @ ys) = pools_sent e xs @ pools_sent e ys"
  by (simp add: pools_sent_def map_filter_def)

lemma get_relay_pool_cong:
  assumes "require_entry e s' = require_entry e s" "list_by_entry e s' = list_by_entry e s"
    and "\<And>a. a \<in> set (list_by_entry e s) \<Longrightarrow>
      get_by_id (eba_backend_node_id a) (nodes s') = get_by_id (eba_backend_node_id a) (nodes s)"
  shows "get_relay_pool port e s' = get_relay_pool port e s"
proof -
  have "List.map_filter (relay_backend_of port s') (list_by_entry e s)
      = List.map_filter (relay_backend_of port s) (list_by_entry e s)"
    unfolding List.map_filter_def using assms(3)
    by (intro map_cong filter_cong refl) (auto simp: relay_backend_of_def)
  with assms(1,2) show ?thesis by (simp add: get_relay_pool_def Let_def split: sum.split)
qed

lemma get_relay_pool_frame:
  "nodes s' = nodes s \<Longrightarrow> assignments s' = assignments s \<Longrightarrow> get_relay_pool port e s' = get_relay_pool port e s"
  by (rule get_relay_pool_cong) (simp_all add: require_entry_def list_by_entry_def)

text \<open>Announcing a pool: what it does to the database.\<close>

lemma enqueue_pool_snapshot_Inr:
  assumes "enqueue_pool_snapshot port now e s = Inr s'" and "pool_ids_drawn s"
  obtains pool row where "get_relay_pool port e s = Inr pool" "outbox s' = outbox s @ [row]"
    "ob_node_id row = e" "ob_payload row = PoolPayload \<lparr>pp_event_id = uuid_supply s, pp_node_id = e,
       pp_emitted_at = now, pp_pool = pool\<rparr>" "pool_ids_drawn s'" "uuid_supply s' = uuid_supply s + 2"
    "nodes s' = nodes s" "assignments s' = assignments s" "routes s' = routes s" "agent_states s' = agent_states s"
proof -
  obtain pool where pool: "get_relay_pool port e s = Inr pool"
    using assms(1) by (auto simp: enqueue_pool_snapshot_def split: sum.splits)
  let ?s1 = "s\<lparr>uuid_supply := Suc (uuid_supply s)\<rparr>"
  let ?item = "pool_changed_item now (uuid_supply s) e pool"
  have "oi_message_id ?item \<notin> ob_message_id ` set (outbox ?s1)"
  proof
    assume "oi_message_id ?item \<in> ob_message_id ` set (outbox ?s1)"
    then obtain r where "r \<in> set (outbox s)" "ob_message_id r = PoolChangedId e (pool_generation pool) (uuid_supply s)"
      by (auto simp: pool_changed_item_def)
    with assms(2) show False by (auto simp: pool_ids_drawn_def)
  qed
  then have "s' = ?s1\<lparr>uuid_supply := Suc (Suc (uuid_supply s)),
      outbox := outbox s @ [new_outbox_row now (Suc (uuid_supply s)) ?item]\<rparr>"
    using assms(1) by (simp add: enqueue_pool_snapshot_def pool enqueue_many_def enqueue_one_def uuid4_def create_row_def)
  moreover have "pool_ids_drawn s'"
    unfolding calculation using assms(2)
    by (auto simp: pool_ids_drawn_def new_outbox_row_def pool_changed_item_def split: message_id.splits)
  ultimately show thesis
    by (intro that [OF pool, of "new_outbox_row now (Suc (uuid_supply s)) ?item"])
      (simp_all add: new_outbox_row_def pool_changed_item_def)
qed

lemma enqueue_pool_snapshot_informs:
  assumes "enqueue_pool_snapshot port now e s = Inr s'" "pool_ids_drawn s"
  shows "informed port s' e \<and> (\<forall>e'. informed port s e' \<longrightarrow> informed port s' e')"
proof -
  obtain pool row where h: "get_relay_pool port e s = Inr pool" "outbox s' = outbox s @ [row]"
    "ob_node_id row = e" "ob_payload row = PoolPayload \<lparr>pp_event_id = uuid_supply s, pp_node_id = e,
       pp_emitted_at = now, pp_pool = pool\<rparr>" "nodes s' = nodes s" "assignments s' = assignments s"
    by (rule enqueue_pool_snapshot_Inr [OF assms])
  have sent: "pools_sent e' (outbox s') = pools_sent e' (outbox s) @ (if e' = e then [pool] else [])" for e'
    using h(3,4) by (simp add: h(2) pools_sent_append) (simp add: pools_sent_def List.map_filter_simps)
  have "get_relay_pool port e' s' = get_relay_pool port e' s" for e'
    by (rule get_relay_pool_frame [OF h(5,6)])
  then show ?thesis using h(1) sent
    by (auto simp: informed_def announced_pool_def Let_def h(6))
qed

text \<open>Announcing the pools of a list of entries.\<close>

lemma enqueue_pool_snapshots_informs:
  assumes "enqueue_pool_snapshots port now es s = Inr s'" "pool_ids_drawn s"
  shows "(\<forall>e. e \<in> set es \<or> informed port s e \<longrightarrow> informed port s' e) \<and> pool_ids_drawn s' \<and>
    nodes s' = nodes s \<and> assignments s' = assignments s \<and> uuid_supply s \<le> uuid_supply s'"
  using assms
proof (induction es arbitrary: s)
  case Nil
  then show ?case by simp
next
  case (Cons e es)
  then obtain s1 where s1: "enqueue_pool_snapshot port now e s = Inr s1" "enqueue_pool_snapshots port now es s1 = Inr s'"
    by (auto split: sum.splits)
  have h: "pool_ids_drawn s1" "uuid_supply s1 = uuid_supply s + 2" "nodes s1 = nodes s"
    "assignments s1 = assignments s"
    by (rule enqueue_pool_snapshot_Inr [OF s1(1) Cons.prems(2)]; assumption)+
  with Cons.IH [OF s1(2) h(1)] enqueue_pool_snapshot_informs [OF s1(1) Cons.prems(2)] show ?case by auto
qed

subsection \<open>The operations\<close>

lemma ensure_routes_loop_frame:
  "ensure_routes_loop now e b tps n s = Inr (k, s') \<Longrightarrow>
     nodes s' = nodes s \<and> assignments s' = assignments s \<and> outbox s' = outbox s \<and> placements s' = placements s \<and>
     uuid_supply s \<le> uuid_supply s'"
proof (induction tps arbitrary: n s)
  case (Cons tp tps)
  show ?case
  proof (cases "get_by_triple (row_id b) (Some (row_id e)) (row_id tp) s")
    case (Inl err)
    with Cons.prems show ?thesis by simp
  next
    case (Inr ro)
    show ?thesis
    proof (cases ro)
      case None
      obtain s2 where s2: "insert_route_row (assignment_route now (uuid_supply s) e b tp)
            (s\<lparr>uuid_supply := Suc (uuid_supply s)\<rparr>) = Inr s2"
        "ensure_routes_loop now e b tps (n + 1) s2 = Inr (k, s')"
        using Cons.prems Inr None by (auto simp: uuid4_def split: sum.splits)
      from Cons.IH [OF s2(2)] s2(1) show ?thesis
        by (auto simp: insert_route_row_def split: if_splits)
    next
      case (Some r)
      show ?thesis
      proof (cases "is_active r")
        case True
        with Cons.IH Cons.prems Inr Some show ?thesis by simp
      next
        case False
        obtain o' s1 where s1: "update_route_row (row_id r) (\<lambda>r. r\<lparr>is_active := True, updated_at := now\<rparr>) s = Inr (o', s1)"
          "ensure_routes_loop now e b tps n s1 = Inr (k, s')"
          using Cons.prems Inr Some False by (auto split: sum.splits)
        from Cons.IH [OF s1(2)] s1(1) show ?thesis
          by (auto simp: update_route_row_def split: if_splits option.splits)
      qed
    qed
  qed
qed simp

lemma ensure_routes_frame:
  assumes "ensure_routes_for_assignment now e b s = Inr (k, s')"
  shows "nodes s' = nodes s \<and> assignments s' = assignments s \<and> outbox s' = outbox s \<and> placements s' = placements s \<and>
     uuid_supply s \<le> uuid_supply s'"
  using assms ensure_routes_loop_frame
  by (auto simp: ensure_routes_for_assignment_def Let_def split: if_splits option.splits)

text \<open>Changes of the assignments of one entry leave the other entries informed.\<close>

lemma informed_other:
  assumes "informed port s e'" "nodes s' = nodes s" "outbox s' = outbox s"
    and "list_by_entry e' s' = list_by_entry e' s"
    and "(\<exists>a \<in> set (assignments s'). eba_entry_node_id a = e') \<longleftrightarrow> (\<exists>a \<in> set (assignments s). eba_entry_node_id a = e')"
  shows "informed port s' e'"
proof -
  have "get_relay_pool port e' s' = get_relay_pool port e' s"
    using assms(2,4) by (intro get_relay_pool_cong) (simp_all add: require_entry_def)
  with assms show ?thesis by (auto simp: informed_def announced_pool_def)
qed

lemma list_by_entry_update_other:
  assumes "ids_ok (assignments s)" "a \<in> set (assignments s)" "eba_entry_node_id a \<noteq> e'"
    and "\<And>x. eba_entry_node_id (f x) = eba_entry_node_id x"
  shows "list_by_entry e' (s\<lparr>assignments := update_by_id (row_id a) f (assignments s)\<rparr>) = list_by_entry e' s"
proof -
  let ?P = "\<lambda>x. eba_entry_node_id x = e' \<and> is_active x"
  have "filter ?P (update_by_id (row_id a) f t) = filter ?P t" if "set t \<subseteq> set (assignments s)" for t
    using that
  proof (induction t)
    case (Cons x t)
    have "eba_entry_node_id x \<noteq> e'" if "row_id x = row_id a"
      using ids_ok_unique [OF assms(1) _ assms(2) that] Cons.prems assms(3) by auto
    with Cons assms(4) show ?case by (auto simp: update_by_id_def)
  qed (simp add: update_by_id_def)
  then show ?thesis by (simp add: list_by_entry_def)
qed

lemma entries_update:
  "(\<And>x. eba_entry_node_id (f x) = eba_entry_node_id x) \<Longrightarrow>
   (\<exists>x \<in> set (update_by_id i f t). eba_entry_node_id x = e) \<longleftrightarrow> (\<exists>x \<in> set t. eba_entry_node_id x = e)"
  by (auto simp: update_by_id_def update_where_def)

lemma get_by_entry_and_backend_Some:
  "get_by_entry_and_backend e b s = Some a \<Longrightarrow>
     a \<in> set (assignments s) \<and> eba_entry_node_id a = e \<and> eba_backend_node_id a = b"
  by (auto simp: get_by_entry_and_backend_def get_one_by_def dest: find_Some_mem)

text \<open>The part of the invariant that does not speak of the outbox.\<close>

definition pool_tables_ok :: "db \<Rightarrow> bool" where
  "pool_tables_ok s \<longleftrightarrow> ids_ok (assignments s) \<and> below (uuid_supply s) (assignments s) \<and> ids_ok (nodes s)"

lemma pools_inv_alt: "pools_inv port s \<longleftrightarrow> pool_tables_ok s \<and> pool_ids_drawn s \<and> (\<forall>e. informed port s e)"
  by (auto simp: pools_inv_def pool_tables_ok_def)

text \<open>An operation that touches the assignments of one entry and then announces its pool.\<close>

lemma announce_entry_inv:
  assumes "pool_tables_ok s1" "pool_ids_drawn s1" "\<And>e'. e' \<noteq> e \<Longrightarrow> informed port s1 e'"
    and "enqueue_pool_snapshot port now e s1 = Inr s'"
  shows "pools_inv port s'"
proof -
  have h: "pool_ids_drawn s'" "uuid_supply s' = uuid_supply s1 + 2" "nodes s' = nodes s1"
    "assignments s' = assignments s1"
    by (rule enqueue_pool_snapshot_Inr [OF assms(4,2)]; assumption)+
  then have "pool_tables_ok s'" using assms(1) by (auto simp: pool_tables_ok_def intro: below_mono)
  moreover have "informed port s' e'" for e'
    using enqueue_pool_snapshot_informs [OF assms(4,2)] assms(3) [of e'] by (cases "e' = e") auto
  ultimately show ?thesis using h(1) by (simp add: pools_inv_alt)
qed

lemma pool_ids_drawn_mono:
  "pool_ids_drawn s \<Longrightarrow> outbox s' = outbox s \<Longrightarrow> uuid_supply s \<le> uuid_supply s' \<Longrightarrow> pool_ids_drawn s'"
  by (fastforce simp: pool_ids_drawn_def split: message_id.splits)

lemma update_one_assignment_inv:
  assumes "pools_inv port s" "get_by_entry_and_backend e b s = Some a"
    and "\<And>x. eba_entry_node_id (f x) = eba_entry_node_id x" "\<And>x. row_id (f x) = row_id x"
    and "enqueue_pool_snapshot port now e (s\<lparr>assignments := update_by_id (row_id a) f (assignments s)\<rparr>) = Inr s'"
  shows "pools_inv port s'"
proof (rule announce_entry_inv [OF _ _ _ assms(5)])
  let ?s1 = "s\<lparr>assignments := update_by_id (row_id a) f (assignments s)\<rparr>"
  show "pool_tables_ok ?s1" using assms(1,4) by (simp add: pools_inv_alt pool_tables_ok_def)
  show "pool_ids_drawn ?s1" using assms(1) by (auto simp: pools_inv_alt intro: pool_ids_drawn_mono)
  show "informed port ?s1 e'" if "e' \<noteq> e" for e'
  proof (rule informed_other [of port s])
    show "informed port s e'" using assms(1) by (simp add: pools_inv_alt)
    show "list_by_entry e' ?s1 = list_by_entry e' s"
      using assms(1) get_by_entry_and_backend_Some [OF assms(2)] that assms(3)
      by (intro list_by_entry_update_other) (auto simp: pools_inv_alt pool_tables_ok_def)
    show "(\<exists>a \<in> set (assignments ?s1). eba_entry_node_id a = e') = (\<exists>a \<in> set (assignments s). eba_entry_node_id a = e')"
      using entries_update [of f, OF assms(3)] by simp
  qed simp_all
qed

lemma update_assignment_inv:
  assumes "pools_inv port s" "update_assignment port now e b pl s = Inr (r, s')"
  shows "pools_inv port s'"
proof -
  consider "s' = s"
    | a a' where "get_by_entry_and_backend e b s = Some a" "update_assignment_fields now pl a = Inr a'"
      "enqueue_pool_snapshot port now e (s\<lparr>assignments := update_by_id (row_id a) (\<lambda>_. a') (assignments s)\<rparr>) = Inr s'"
    using assms(2) by (auto simp: update_assignment_def split: if_splits option.splits sum.splits)
  then show ?thesis
  proof cases
    case 1
    with assms(1) show ?thesis by simp
  next
    case (2 a a')
    obtain w en r where a': "a' = a\<lparr>eba_weight := w, eba_enabled := en, eba_rank := r, updated_at := now\<rparr>"
      using 2(2) by (auto simp: update_assignment_fields_def split: sum.splits)
    let ?f = "\<lambda>x. x\<lparr>eba_weight := w, eba_enabled := en, eba_rank := r, updated_at := now\<rparr>"
    have ids: "ids_ok (assignments s)" using assms(1) by (simp add: pools_inv_def)
    have "get_by_id (row_id a) (assignments s) = Some a"
      using ids get_by_entry_and_backend_Some [OF 2(1)] by (simp add: ids_ok_get)
    from update_by_id_same_at [OF ids this, of "\<lambda>_. a'" ?f] a'
    have "update_by_id (row_id a) (\<lambda>_. a') (assignments s) = update_by_id (row_id a) ?f (assignments s)" by simp
    from update_one_assignment_inv [OF assms(1) 2(1) _ _ 2(3) [unfolded this]] show ?thesis by simp
  qed
qed

lemma remove_assignment_inv:
  assumes "pools_inv port s" "remove_assignment port now e b s = Inr (r, s')"
  shows "pools_inv port s'"
  using assms update_one_assignment_inv [OF assms(1), of e b _ "\<lambda>a. a\<lparr>is_active := False, updated_at := now\<rparr>"]
  by (auto simp: remove_assignment_def split: if_splits option.splits sum.splits)

lemma store_assignment_frame:
  assumes "pools_inv port s"
  shows "pool_tables_ok (snd (store_assignment now e pl s))"
    and "nodes (snd (store_assignment now e pl s)) = nodes s"
    and "outbox (snd (store_assignment now e pl s)) = outbox s"
    and "uuid_supply s \<le> uuid_supply (snd (store_assignment now e pl s))"
    and "e' \<noteq> e \<Longrightarrow> informed port (snd (store_assignment now e pl s)) e'"
proof -
  let ?b = "ai_backend_node_id pl"
  have tab: "pool_tables_ok s" "informed port s e'" using assms by (simp_all add: pools_inv_alt)
  have "pool_tables_ok (snd (store_assignment now e pl s)) \<and> nodes (snd (store_assignment now e pl s)) = nodes s \<and>
    outbox (snd (store_assignment now e pl s)) = outbox s \<and> uuid_supply s \<le> uuid_supply (snd (store_assignment now e pl s)) \<and>
    (e' \<noteq> e \<longrightarrow> informed port (snd (store_assignment now e pl s)) e')"
  proof (cases "get_by_entry_and_backend e ?b s")
    case None
    let ?s1 = "s\<lparr>uuid_supply := Suc (uuid_supply s),
        assignments := create_row (new_assignment now (uuid_supply s) e pl) (assignments s)\<rparr>"
    have s1: "snd (store_assignment now e pl s) = ?s1" by (simp add: store_assignment_def None uuid4_def)
    have "informed port ?s1 e'" if "e' \<noteq> e"
    proof (rule informed_other [OF tab(2)])
      show "list_by_entry e' ?s1 = list_by_entry e' s"
        using that by (simp add: list_by_entry_def create_row_def new_assignment_def)
    qed (use that in \<open>auto simp: new_assignment_def\<close>)
    then show ?thesis
      using tab(1) unfolding s1
      by (auto simp: pool_tables_ok_def new_assignment_def intro!: ids_ok_create_fresh below_Suc)
  next
    case (Some a)
    let ?f = "\<lambda>a. a\<lparr>eba_weight := ai_weight pl, eba_enabled := ai_enabled pl, eba_rank := ai_rank pl,
                    is_active := True, updated_at := now\<rparr>"
    let ?s1 = "s\<lparr>assignments := update_by_id (row_id a) ?f (assignments s)\<rparr>"
    have s1: "snd (store_assignment now e pl s) = ?s1" by (simp add: store_assignment_def Some)
    have "informed port ?s1 e'" if "e' \<noteq> e"
    proof (rule informed_other [OF tab(2)])
      show "list_by_entry e' ?s1 = list_by_entry e' s"
        using tab(1) get_by_entry_and_backend_Some [OF Some] that
        by (intro list_by_entry_update_other) (auto simp: pool_tables_ok_def)
      show "(\<exists>a \<in> set (assignments ?s1). eba_entry_node_id a = e') = (\<exists>a \<in> set (assignments s). eba_entry_node_id a = e')"
        using entries_update [of ?f] by simp
    qed simp_all
    then show ?thesis using tab(1) unfolding s1 by (simp add: pool_tables_ok_def)
  qed
  then show "pool_tables_ok (snd (store_assignment now e pl s))"
    "nodes (snd (store_assignment now e pl s)) = nodes s"
    "outbox (snd (store_assignment now e pl s)) = outbox s"
    "uuid_supply s \<le> uuid_supply (snd (store_assignment now e pl s))"
    "e' \<noteq> e \<Longrightarrow> informed port (snd (store_assignment now e pl s)) e'"
    by blast+
qed

lemma assign_backend_inv:
  assumes "pools_inv port s" "assign_backend port now e pl s = Inr (i, s')"
  shows "pools_inv port s'"
proof -
  let ?s1 = "snd (store_assignment now e pl s)"
  obtain k s2 where s2: "ensure_routes_for_assignment now e (ai_backend_node_id pl) ?s1 = Inr (k, s2)"
    "enqueue_pool_snapshot port now e s2 = Inr s'"
    using assms(2) by (auto simp: assign_backend_def split_def Let_def split: if_splits sum.splits)
  note f = store_assignment_frame [OF assms(1), where now = now and e = e and pl = pl] and g = ensure_routes_frame [OF s2(1)]
  show ?thesis
  proof (rule announce_entry_inv [OF _ _ _ s2(2)])
    show "pool_tables_ok s2" using f(1) g by (auto simp: pool_tables_ok_def intro: below_mono)
    show "pool_ids_drawn s2"
      by (rule pool_ids_drawn_mono [of s]) (use assms(1) f g in \<open>auto simp: pools_inv_alt\<close>)
    show "informed port s2 e'" if "e' \<noteq> e" for e'
      by (rule informed_other [OF f(5) [OF that]]) (use g in \<open>simp_all add: list_by_entry_def\<close>)
  qed
qed

text \<open>
  A change of a backend node, followed by the notification of its entries.  An entry that does not
  use the backend does not see the change.
\<close>

lemma backend_change_inv:
  assumes "pools_inv port s" "get_by_id b (nodes s) = Some n" "role n \<notin> set ENTRY_ROLES"
    and f: "\<And>x. row_id (f x) = row_id x" "role (f n) \<notin> set ENTRY_ROLES"
    and "notify_backend_health_changed port now b (s\<lparr>nodes := update_by_id b f (nodes s)\<rparr>) = Inr (k, s')"
  shows "pools_inv port s'"
proof -
  let ?s1 = "s\<lparr>nodes := update_by_id b f (nodes s)\<rparr>"
  have enq: "enqueue_pool_snapshots port now (list_entry_ids_for_backend b ?s1) ?s1 = Inr s'"
    using assms(6) by (auto simp: notify_backend_health_changed_def Let_def split: sum.splits)
  have drawn: "pool_ids_drawn ?s1" using assms(1) by (auto simp: pools_inv_alt intro: pool_ids_drawn_mono)
  note inf = enqueue_pool_snapshots_informs [OF enq drawn]
  have "informed port ?s1 e" if "e \<notin> set (list_entry_ids_for_backend b ?s1)" for e
  proof -
    have req: "require_entry e ?s1 = require_entry e s" if "e \<noteq> b"
      using that f(1) by (simp add: require_entry_def tbl.get_upd)
    have not_b: "get_relay_pool port b t = Inr pool \<Longrightarrow> False" if "t = s \<or> t = ?s1" for t pool
      using that assms(2,3) f
      by (auto simp: get_relay_pool_def require_entry_def tbl.get_upd split: sum.splits if_splits)
    have "get_relay_pool port e ?s1 = get_relay_pool port e s" if "e \<noteq> b"
    proof (rule get_relay_pool_cong [OF req [OF that]])
      show "list_by_entry e ?s1 = list_by_entry e s" by (simp add: list_by_entry_def)
      fix a assume "a \<in> set (list_by_entry e s)"
      then have "eba_backend_node_id a \<noteq> b"
        using \<open>e \<notin> _\<close> by (auto simp: set_list_by_entry list_entry_ids_for_backend_def)
      then show "get_by_id (eba_backend_node_id a) (nodes ?s1) = get_by_id (eba_backend_node_id a) (nodes s)"
        using f(1) by (simp add: tbl.get_upd)
    qed
    moreover have "informed port s e" using assms(1) by (simp add: pools_inv_alt)
    ultimately show ?thesis
      using not_b by (cases "e = b") (auto simp: informed_def announced_pool_def)
  qed
  with inf have "informed port s' e" for e by blast
  moreover have "pool_tables_ok s'"
    using assms(1) f(1) inf by (auto simp: pools_inv_alt pool_tables_ok_def intro: below_mono)
  ultimately show ?thesis using inf by (simp add: pools_inv_alt)
qed

text \<open>
  The steps that concern pools: the three operations on assignments, and a change of a node that
  is no entry (draining, enabling, its address, deactivation) with the notification that follows.
\<close>

inductive pool_step :: "int \<Rightarrow> db \<Rightarrow> db \<Rightarrow> bool" for port where
  assign: "assign_backend port now e pl s = Inr (i, s') \<Longrightarrow> pool_step port s s'"
| update: "update_assignment port now e b au s = Inr (r, s') \<Longrightarrow> pool_step port s s'"
| remove: "remove_assignment port now e b s = Inr (ok, s') \<Longrightarrow> pool_step port s s'"
| health: "get_by_id b (nodes s) = Some n \<Longrightarrow> role n \<notin> set ENTRY_ROLES \<Longrightarrow>
    (\<And>x. row_id (f x) = row_id x) \<Longrightarrow> role (f n) \<notin> set ENTRY_ROLES \<Longrightarrow>
    notify_backend_health_changed port now b (s\<lparr>nodes := update_by_id b f (nodes s)\<rparr>) = Inr (k, s') \<Longrightarrow>
    pool_step port s s'"

lemma pool_step_inv:
  assumes "pool_step port s s'" and inv: "pools_inv port s"
  shows "pools_inv port s'"
  using assms(1)
proof cases
  case (assign now e pl i)
  from assign_backend_inv [OF inv this] show ?thesis .
next
  case (update now e b au r)
  from update_assignment_inv [OF inv this] show ?thesis .
next
  case (remove now e b ok)
  from remove_assignment_inv [OF inv this] show ?thesis .
next
  case (health b n f now k)
  show ?thesis
    by (rule backend_change_inv [where f = f and n = n and b = b, OF inv health(1,2) _ health(4,5)]) (rule health(3))
qed

interpretation pool_sm: step_invariant "pools_inv port" "pool_step port" "pools_inv port" for port
  by unfold_locales (assumption, rule pool_step_inv)

text \<open>Entries always know their pool.  From a database in which every entry is informed, after
  any sequence of assigning, updating and removing assignments and of health changes of backends
  with their notification, the latest announcement in the outbox for every entry that has (or had)
  an assignment carries exactly the pool that a query for this entry would return now.\<close>

theorem entries_informed:
  assumes "pools_inv port s" and "(pool_step port)\<^sup>*\<^sup>* s s'"
    and "get_relay_pool port e s' = Inr pool" and "\<exists>a \<in> set (assignments s'). eba_entry_node_id a = e"
  shows "announced_pool e s' = Some pool"
  using pool_sm.steps_inv [OF assms(2,1)] assms(3,4) by (auto simp: pools_inv_def informed_def)

definition pool_nodes_db :: db where
  "pool_nodes_db = empty_db\<lparr>nodes := [sample_node 1 ''entry'',
     (sample_node 2 ''backend'')\<lparr>reality_ip := Some ''10.0.0.2''\<rparr>]\<rparr>"

lemma pool_nodes_inv: "pools_inv port pool_nodes_db"
  by (simp add: pools_inv_def pool_nodes_db_def informed_def announced_pool_def pools_sent_def
      pool_ids_drawn_def ids_ok_def sample_node_def List.map_filter_simps)

definition sample_assign :: assign_in where
  "sample_assign = \<lparr>ai_backend_node_id = 2, ai_weight = 100, ai_enabled = True, ai_rank = 0\<rparr>"

definition pool_db :: db where
  "pool_db = pool_nodes_db\<lparr>assignments := [new_assignment 5 30 1 sample_assign]\<rparr>"

lemmas pool_eval = pool_nodes_db_def sample_assign_def new_assignment_def sample_node_def get_by_id_def
  require_entry_def ENTRY_ROLES_def get_relay_pool_def relay_backend_of_def resolve_backend_address_def
  py_strip_def is_space_def list_by_entry_def List.map_filter_simps

theorem relay_pool_exact_witness:
  "case get_relay_pool 443 1 pool_db of
     Inr pool \<Rightarrow> map rb_enabled (pool_backends pool) = [True] \<and> distinct (map rb_id (pool_backends pool))
   | Inl _ \<Rightarrow> False"
proof -
  obtain pool where p: "get_relay_pool 443 1 pool_db = Inr pool" "map rb_enabled (pool_backends pool) = [True]"
    by (simp add: pool_db_def pool_eval Let_def)
  have "distinct (map assignment_pair (assignments pool_db))" by (simp add: pool_db_def)
  from relay_pool_exact [OF p(1) this] p show ?thesis by simp
qed

lemma assign_sample:
  "\<exists>i s'. assign_backend 443 5 1 sample_assign pool_nodes_db = Inr (i, s') \<and>
     (\<exists>a \<in> set (assignments s'). eba_entry_node_id a = 1) \<and>
     (\<exists>pool. get_relay_pool 443 1 s' = Inr pool \<and> map rb_id (pool_backends pool) = [2])"
  by (simp add: assign_backend_def assign_in_valid_def require_backend_def require_zone_match_def node_zone_def
      store_assignment_def get_by_entry_and_backend_def get_one_by_def ensure_routes_for_assignment_def
      list_active_profiles_def limit_rows_def enqueue_pool_snapshot_def enqueue_many_def enqueue_one_def
      uuid4_def create_row_def pool_eval Let_def)

theorem entries_informed_witness:
  "\<exists>s' pool. (pool_step 443)\<^sup>*\<^sup>* pool_nodes_db s' \<and> announced_pool 1 s' = Some pool \<and>
     map rb_id (pool_backends pool) = [2]"
proof -
  obtain i s' pool where h: "assign_backend 443 5 1 sample_assign pool_nodes_db = Inr (i, s')"
    "\<exists>a \<in> set (assignments s'). eba_entry_node_id a = 1" "get_relay_pool 443 1 s' = Inr pool"
    "map rb_id (pool_backends pool) = [2]"
    using assign_sample by (elim exE conjE) (rule that)
  have steps: "(pool_step 443)\<^sup>*\<^sup>* pool_nodes_db s'" using pool_step.assign [OF h(1)] by (rule r_into_rtranclp)
  have "announced_pool 1 s' = Some pool" by (rule entries_informed [OF pool_nodes_inv steps h(3,2)])
  with steps h(4) show ?thesis by (intro exI [of _ s'] exI [of _ pool] conjI)
qed

section \<open>Where announcing fails\<close>

text \<open>
  The fan-out asks for the pool of every entry with an active assignment of the backend; an entry
  that was deactivated or changed its role meanwhile makes the whole operation fail, and with it
  the health change of the backend.
\<close>

lemma enqueue_pool_snapshots_fails:
  assumes "e \<in> set es" "require_entry e s = Inl err" "pool_ids_drawn s"
  shows "\<exists>err'. enqueue_pool_snapshots port now es s = Inl err'"
  using assms
proof (induction es arbitrary: s)
  case (Cons x es)
  show ?case
  proof (cases "enqueue_pool_snapshot port now x s")
    case (Inr s1)
    have keeps: "pool_ids_drawn s1" "nodes s1 = nodes s"
      by (rule enqueue_pool_snapshot_Inr [OF Inr Cons.prems(3)]; assumption)+
    have "x \<noteq> e" using Inr Cons.prems(2) by (auto simp: enqueue_pool_snapshot_def get_relay_pool_def)
    with Cons.prems keeps Cons.IH [of s1] Inr show ?thesis by (simp add: require_entry_def)
  qed simp
qed simp

lemma notify_fails_for_inactive_entry:
  assumes "a \<in> set (assignments s)" "is_active a" "eba_backend_node_id a = b" "pool_ids_drawn s"
    and "require_entry (eba_entry_node_id a) s = Inl err"
  shows "\<exists>err'. notify_backend_health_changed port now b s = Inl err'"
proof -
  have "eba_entry_node_id a \<in> set (list_entry_ids_for_backend b s)"
    using assms(1-3) by (auto simp: list_entry_ids_for_backend_def)
  from enqueue_pool_snapshots_fails [OF this assms(5,4), of port now] show ?thesis
    by (auto simp: notify_backend_health_changed_def)
qed

text \<open>
  A route created for an assignment is marked as warming up but carries no start time, so the
  first tick of the warm-up makes it healthy with its full weight, whenever it comes.
\<close>

lemma assignment_route_skips_warmup:
  "\<exists>st. resolve_warmup_tick (assignment_route now i e b tp) now' stages = Inr (Some (st, finalized)) \<and>
     res_health_status st = healthy \<and> res_effective_weight st = 50"
  by (simp add: resolve_warmup_tick_def assignment_route_def healthy_state_def Let_def RouteStateResolution_def)

end
