(* ===== verification/Placements.thy ===== *)
theory Placements
  imports Route_Repository
begin

text \<open>
  \<open>services/placements/repository.py\<close>: the placements of keys on backends.  A placement row
  carries what is wanted (\<open>desired_state\<close>, \<open>op_version\<close>) and what the backend has confirmed
  (\<open>applied_state\<close>, \<open>applied_version\<close>); every statement that changes what is wanted counts the
  version up.  The statements whose check or unique constraints can fail return an error; for
  the others the invariant shows that they cannot.
\<close>

section \<open>Queries\<close>

definition get_by_key_and_backend :: "uuid \<Rightarrow> uuid \<Rightarrow> bool \<Rightarrow> db \<Rightarrow> user_placement option" where
  "get_by_key_and_backend key node active_only s =
     get_one_by (\<lambda>p. key_id p = key \<and> backend_node_id p = node \<and> (active_only \<longrightarrow> is_active p)) (placements s)"

definition list_by_key_id :: "uuid \<Rightarrow> bool \<Rightarrow> PlacementDesiredState option \<Rightarrow> db \<Rightarrow> user_placement list" where
  "list_by_key_id key active_only desired s =
     sort_key (\<lambda>p. (- updated_at p, row_id p))
       (filter (\<lambda>p. key_id p = key \<and> (active_only \<longrightarrow> is_active p) \<and>
                    (desired \<noteq> None \<longrightarrow> desired = Some (desired_state p))) (placements s))"

definition get_by_key_id :: "uuid \<Rightarrow> db \<Rightarrow> user_placement option" where
  "get_by_key_id key s =
     (case list_by_key_id key True None s of [] \<Rightarrow> None | row # _ \<Rightarrow> Some row)"

definition list_active :: "uuid option \<Rightarrow> nat option \<Rightarrow> db \<Rightarrow> user_placement list" where
  "list_active node n s =
     limit_rows n (sort_key (\<lambda>p. - updated_at p)
       (filter (\<lambda>p. is_active p \<and> (case node of None \<Rightarrow> True | Some b \<Rightarrow> backend_node_id p = b)) (placements s)))"

definition count_by_backend :: "user_placement list \<Rightarrow> (uuid \<times> nat) list" where
  "count_by_backend ps =
     map (\<lambda>b. (b, length (filter (\<lambda>p. backend_node_id p = b) ps))) (remdups (map backend_node_id ps))"

definition count_active_by_backend_node :: "db \<Rightarrow> (uuid \<times> nat) list" where
  "count_active_by_backend_node s = count_by_backend (filter is_active (placements s))"

definition count_desired_active_by_backend_node :: "db \<Rightarrow> (uuid \<times> nat) list" where
  "count_desired_active_by_backend_node s =
     count_by_backend (filter (\<lambda>p. is_active p \<and> desired_state p = ds_active) (placements s))"

text \<open>The join of a placement with its key, both active.\<close>

definition join_key :: "db \<Rightarrow> user_placement \<Rightarrow> (user_placement \<times> vpn_key) option" where
  "join_key s p =
     (case get_by_id (key_id p) (vpn_keys s) of
        None \<Rightarrow> None
      | Some k \<Rightarrow> if is_active p \<and> is_active k then Some (p, k) else None)"

definition list_transport_rows_by_placement_ids :: "uuid list \<Rightarrow> db \<Rightarrow> (user_placement \<times> vpn_key) list" where
  "list_transport_rows_by_placement_ids ids s =
     (if ids = [] then []
      else List.map_filter (join_key s) (filter (\<lambda>p. row_id p \<in> set ids) (placements s)))"

definition list_transport_rows_for_backend :: "uuid \<Rightarrow> db \<Rightarrow> (user_placement \<times> vpn_key) list" where
  "list_transport_rows_for_backend node s =
     sort_key (\<lambda>(p, _). (updated_at p, row_id p))
       (List.map_filter (join_key s) (filter (\<lambda>p. backend_node_id p = node) (placements s)))"

definition list_transport_rows_for_entry :: "uuid \<Rightarrow> db \<Rightarrow> (user_placement \<times> vpn_key) list" where
  "list_transport_rows_for_entry entry s =
     sort_key (\<lambda>(p, _). (updated_at p, row_id p))
       (concat (map (\<lambda>(p, k). map (\<lambda>_. (p, k))
            (filter (\<lambda>a. eba_backend_node_id a = backend_node_id p \<and> eba_entry_node_id a = entry \<and> eba_enabled a)
              (assignments s)))
          (List.map_filter (join_key s) (placements s))))"

definition list_active_ids_for_key ::
  "uuid \<Rightarrow> PlacementDesiredState \<Rightarrow> uuid list option \<Rightarrow> db \<Rightarrow> uuid list" where
  "list_active_ids_for_key key desired backends s =
     map row_id (filter (\<lambda>p. key_id p = key \<and> is_active p \<and> desired_state p = desired \<and>
       (case backends of None \<Rightarrow> True | Some bs \<Rightarrow> backend_node_id p \<in> set bs)) (placements s))"

definition list_active_ids_for_keys :: "uuid list \<Rightarrow> uuid option \<Rightarrow> db \<Rightarrow> uuid list" where
  "list_active_ids_for_keys keys node s =
     map row_id (filter (\<lambda>p. key_id p \<in> set keys \<and> is_active p \<and>
       (case node of None \<Rightarrow> True | Some b \<Rightarrow> backend_node_id p = b)) (placements s))"

definition map_active_backend_nodes_by_key :: "uuid list \<Rightarrow> db \<Rightarrow> uuid \<Rightarrow> uuid set" where
  "map_active_backend_nodes_by_key keys s key =
     (if key \<in> set keys
      then set (map backend_node_id (filter (\<lambda>p. key_id p = key \<and> is_active p) (placements s))) else {})"

text \<open>\<open>DISTINCT ON (key_id)\<close>: the first row of each key in the order of the statement.\<close>

definition map_selected_backend_by_key :: "uuid list \<Rightarrow> db \<Rightarrow> (uuid \<rightharpoonup> uuid)" where
  "map_selected_backend_by_key keys s key =
     (if key \<in> set keys
      then map_option backend_node_id
        (min_by (\<lambda>p. (- op_version p, - updated_at p, - int (backend_node_id p)))
          (filter (\<lambda>p. key_id p = key \<and> is_active p \<and> desired_state p = ds_active) (placements s)))
      else None)"

definition active_keys :: "db \<Rightarrow> uuid list" where
  "active_keys s = remdups (map key_id (filter (\<lambda>p. is_active p \<and> desired_state p = ds_active) (placements s)))"

definition find_missing_placements :: "uuid list \<Rightarrow> nat \<Rightarrow> db \<Rightarrow> (uuid \<times> uuid) list" where
  "find_missing_placements healthy_nodes batch_size s =
     take batch_size (filter (\<lambda>(k, n). \<not> (\<exists>p \<in> set (placements s).
         key_id p = k \<and> backend_node_id p = n \<and> is_active p \<and> desired_state p = ds_active))
       (List.product (active_keys s) healthy_nodes))"

section \<open>Statements\<close>

text \<open>The columns that every change of what is wanted sets.\<close>

definition bump :: "time \<Rightarrow> user_placement \<Rightarrow> user_placement" where
  "bump now p = p\<lparr>applied_state := as_pending, op_version := op_version p + 1, updated_at := now\<rparr>"

definition new_placement ::
  "time \<Rightarrow> uuid \<Rightarrow> uuid \<Rightarrow> uuid \<Rightarrow> PlacementDesiredState \<Rightarrow> time option \<Rightarrow> string option \<Rightarrow> user_placement" where
  "new_placement now i key node desired sticky reason =
     \<lparr>row_id = i, created_at = now, updated_at = now, is_active = True, key_id = key,
      backend_node_id = node, desired_state = desired, applied_state = as_pending, op_version = 1,
      applied_version = 0, sticky_until = sticky, last_migration_reason = reason\<rparr>"

text \<open>
  \<open>INSERT ... ON CONFLICT (key_id, backend_node_id) DO UPDATE\<close> of one row: the id of the row
  that is there afterwards, and the table.
\<close>

definition upsert_one ::
  "time \<Rightarrow> uuid \<Rightarrow> uuid \<Rightarrow> PlacementDesiredState \<Rightarrow> time option \<Rightarrow> string option \<Rightarrow> db \<Rightarrow> uuid \<times> db" where
  "upsert_one now key node desired sticky reason s =
     (case get_by_key_and_backend key node False s of
        Some p \<Rightarrow> (row_id p, s\<lparr>placements := update_by_id (row_id p)
            (\<lambda>p. (bump now p)\<lparr>desired_state := desired, sticky_until := sticky,
                   last_migration_reason := reason, is_active := True\<rparr>) (placements s)\<rparr>)
      | None \<Rightarrow>
          let (i, s1) = uuid4 s in
          (i, s1\<lparr>placements := create_row (new_placement now i key node desired sticky reason) (placements s1)\<rparr>))"

definition upsert_set_pending ::
  "time \<Rightarrow> uuid \<Rightarrow> uuid \<Rightarrow> PlacementDesiredState \<Rightarrow> time option \<Rightarrow> string option \<Rightarrow> db
   \<Rightarrow> (user_placement \<times> db) result" where
  "upsert_set_pending now key node desired sticky reason s =
     (let s1 = snd (upsert_one now key node desired sticky reason s) in
      case get_by_key_and_backend key node True s1 of
        None \<Rightarrow> Inl (RuntimeError ''placement upsert failed to load placement row'')
      | Some row \<Rightarrow> Inr (row, s1))"

fun upsert_pairs ::
  "time \<Rightarrow> PlacementDesiredState \<Rightarrow> string option \<Rightarrow> (uuid \<times> uuid) list \<Rightarrow> db \<Rightarrow> uuid list \<times> db" where
  "upsert_pairs now desired reason [] s = ([], s)"
| "upsert_pairs now desired reason ((key, node) # pairs) s =
     (let (i, s1) = upsert_one now key node desired None reason s;
          (ids, s2) = upsert_pairs now desired reason pairs s1
      in (i # ids, s2))"

text \<open>One statement cannot update the same row twice: PostgreSQL refuses repeated pairs.\<close>

definition bulk_upsert_set_pending ::
  "time \<Rightarrow> (uuid \<times> uuid) list \<Rightarrow> PlacementDesiredState \<Rightarrow> string option \<Rightarrow> db \<Rightarrow> (uuid list \<times> db) result" where
  "bulk_upsert_set_pending now pairs desired reason s =
     (if pairs = [] then Inr ([], s)
      else if \<not> distinct pairs then Inl (IntegrityError ''CardinalityViolation'')
      else Inr (upsert_pairs now desired reason pairs s))"

definition deactivate_placements_on_node :: "time \<Rightarrow> uuid \<Rightarrow> string \<Rightarrow> db \<Rightarrow> uuid list \<times> db" where
  "deactivate_placements_on_node now node reason s =
     (let ids = map row_id (filter (\<lambda>p. is_active p \<and> desired_state p \<noteq> ds_inactive \<and> backend_node_id p = node)
                 (placements s))
      in if ids = [] then ([], s)
         else (ids, s\<lparr>placements := update_where (\<lambda>p. row_id p \<in> set ids)
                 (\<lambda>p. (bump now p)\<lparr>desired_state := ds_inactive, last_migration_reason := Some reason\<rparr>)
                 (placements s)\<rparr>))"

definition set_desired_state_for_key ::
  "uuid \<Rightarrow> PlacementDesiredState \<Rightarrow> string option \<Rightarrow> time \<Rightarrow> uuid list option \<Rightarrow> db \<Rightarrow> nat \<times> db" where
  "set_desired_state_for_key key desired reason updated backends s =
     (let hit = (\<lambda>p. key_id p = key \<and> is_active p \<and>
                  (\<exists>n \<in> set (nodes s). row_id n = backend_node_id p \<and> role n = ''backend'') \<and>
                  (desired_state p \<noteq> desired \<or> applied_state p \<noteq> as_pending) \<and>
                  (case backends of None \<Rightarrow> True | Some bs \<Rightarrow> backend_node_id p \<in> set bs))
      in if backends = Some [] then (0, s)
         else (length (filter hit (placements s)),
               s\<lparr>placements := update_where hit
                   (\<lambda>p. (bump updated p)\<lparr>desired_state := desired, last_migration_reason := reason\<rparr>)
                   (placements s)\<rparr>))"

definition set_pending_for_backend :: "uuid \<Rightarrow> string option \<Rightarrow> time \<Rightarrow> db \<Rightarrow> uuid list \<times> db" where
  "set_pending_for_backend node reason updated s =
     (let hit = (\<lambda>p. backend_node_id p = node \<and> is_active p) in
      (map row_id (filter hit (placements s)),
       s\<lparr>placements := update_where hit (\<lambda>p. (bump updated p)\<lparr>last_migration_reason := reason\<rparr>) (placements s)\<rparr>))"

definition bulk_set_desired_state_for_keys ::
  "uuid list \<Rightarrow> PlacementDesiredState \<Rightarrow> string option \<Rightarrow> time \<Rightarrow> db \<Rightarrow> uuid list \<times> db" where
  "bulk_set_desired_state_for_keys keys desired reason updated s =
     (let hit = (\<lambda>p. key_id p \<in> set keys \<and> is_active p \<and>
                  (desired_state p \<noteq> desired \<or> applied_state p \<noteq> as_pending))
      in if keys = [] then ([], s)
         else (map row_id (filter hit (placements s)),
               s\<lparr>placements := update_where hit
                   (\<lambda>p. (bump updated p)\<lparr>desired_state := desired, last_migration_reason := reason\<rparr>)
                   (placements s)\<rparr>))"

text \<open>The check and unique constraints of the table.\<close>

definition placement_ck :: "user_placement \<Rightarrow> bool" where
  "placement_ck p \<longleftrightarrow> 1 \<le> op_version p \<and> 0 \<le> applied_version p \<and> applied_version p \<le> op_version p"

definition placement_pair :: "user_placement \<Rightarrow> uuid \<times> uuid" where
  "placement_pair p = (key_id p, backend_node_id p)"

definition store_placements :: "user_placement list \<Rightarrow> db \<Rightarrow> db result" where
  "store_placements t s =
     (if \<not> list_all placement_ck t then Inl (IntegrityError ''ck_user_placement'')
      else if \<not> distinct (map placement_pair t) then Inl (IntegrityError ''uq_user_placement_key_backend'')
      else Inr (s\<lparr>placements := t\<rparr>))"

definition apply_backend_report ::
  "uuid \<Rightarrow> int \<Rightarrow> PlacementAppliedState \<Rightarrow> int \<Rightarrow> time \<Rightarrow> uuid \<Rightarrow> db \<Rightarrow> (nat \<times> db) result" where
  "apply_backend_report i expected state version updated reporter s =
     (let hit = (\<lambda>p. row_id p = i \<and> op_version p = expected \<and> backend_node_id p = reporter) in
      case store_placements (update_where hit
             (\<lambda>p. p\<lparr>applied_state := state, applied_version := version, updated_at := updated\<rparr>) (placements s)) s of
        Inl e \<Rightarrow> Inl e
      | Inr s' \<Rightarrow> Inr (length (filter hit (placements s)), s'))"

record report_item =
  ri_id :: uuid
  ri_op_version :: int
  ri_backend_node_id :: uuid
  ri_applied_state :: PlacementAppliedState
  ri_updated_at :: time

text \<open>One statement per applied state that occurs, in the order of the first occurrences.\<close>

definition apply_report_group :: "report_item list \<Rightarrow> PlacementAppliedState \<Rightarrow> db \<Rightarrow> uuid list \<times> db" where
  "apply_report_group items state s =
     (let grp = filter (\<lambda>x. ri_applied_state x = state) items;
          hit = (\<lambda>p. (row_id p, op_version p, backend_node_id p) \<in>
                  set (map (\<lambda>x. (ri_id x, ri_op_version x, ri_backend_node_id x)) grp))
      in (map row_id (filter hit (placements s)),
          s\<lparr>placements := update_where hit
              (\<lambda>p. p\<lparr>applied_state := state, applied_version := op_version p, updated_at := ri_updated_at (hd grp)\<rparr>)
              (placements s)\<rparr>))"

fun apply_report_groups ::
  "report_item list \<Rightarrow> PlacementAppliedState list \<Rightarrow> db \<Rightarrow> uuid set \<times> db" where
  "apply_report_groups items [] s = ({}, s)"
| "apply_report_groups items (state # states) s =
     (let (ids, s1) = apply_report_group items state s;
          (more, s2) = apply_report_groups items states s1
      in (set ids \<union> more, s2))"

definition bulk_apply_backend_report :: "report_item list \<Rightarrow> db \<Rightarrow> uuid set \<times> db" where
  "bulk_apply_backend_report items s =
     apply_report_groups items (rev (remdups (rev (map ri_applied_state items)))) s"

section \<open>Migration\<close>

definition migration_sources :: "uuid list \<Rightarrow> db \<Rightarrow> user_placement list" where
  "migration_sources ids s = filter (\<lambda>p. row_id p \<in> set ids \<and> is_active p) (placements s)"

definition target_by_key :: "uuid \<Rightarrow> db \<Rightarrow> uuid \<Rightarrow> user_placement option" where
  "target_by_key target s key = get_by_key_and_backend key target False s"

definition simple_move_ids :: "uuid list \<Rightarrow> uuid \<Rightarrow> db \<Rightarrow> uuid list" where
  "simple_move_ids ids target s =
     map row_id (filter (\<lambda>p. target_by_key target s (key_id p) = None) (migration_sources ids s))"

definition merge_source_ids :: "uuid list \<Rightarrow> uuid \<Rightarrow> db \<Rightarrow> uuid list" where
  "merge_source_ids ids target s =
     map row_id (filter (\<lambda>p. case target_by_key target s (key_id p) of
         None \<Rightarrow> False | Some existing \<Rightarrow> row_id existing \<noteq> row_id p) (migration_sources ids s))"

definition move_placements :: "uuid list \<Rightarrow> uuid \<Rightarrow> string option \<Rightarrow> time \<Rightarrow> db \<Rightarrow> (uuid list \<times> db) result" where
  "move_placements moves target reason updated s =
     (if moves = [] then Inr ([], s)
      else case store_placements (update_where (\<lambda>p. row_id p \<in> set moves)
                  (\<lambda>p. (bump updated p)\<lparr>backend_node_id := target, last_migration_reason := reason\<rparr>)
                  (placements s)) s of
             Inl e \<Rightarrow> Inl e
           | Inr s' \<Rightarrow> Inr (map row_id (filter (\<lambda>p. row_id p \<in> set moves) (placements s)), s'))"

text \<open>\<open>UPDATE ... FROM src\<close>: the source row that a target row of the same key is merged with.\<close>

definition merge_source :: "uuid list \<Rightarrow> user_placement list \<Rightarrow> uuid \<Rightarrow> user_placement option" where
  "merge_source merges t key = find (\<lambda>q. row_id q \<in> set merges \<and> key_id q = key) t"

definition merge_placements :: "uuid list \<Rightarrow> uuid \<Rightarrow> string option \<Rightarrow> time \<Rightarrow> db \<Rightarrow> uuid list \<times> db" where
  "merge_placements merges target reason updated s =
     (let hit = (\<lambda>p. backend_node_id p = target \<and> merge_source merges (placements s) (key_id p) \<noteq> None);
          merged = update_where hit
            (\<lambda>p. let src = the (merge_source merges (placements s) (key_id p)) in
                 (bump updated p)\<lparr>desired_state := desired_state src, sticky_until := sticky_until src,
                    last_migration_reason := reason, is_active := True\<rparr>) (placements s);
          retired = update_where (\<lambda>p. row_id p \<in> set merges)
            (\<lambda>p. p\<lparr>is_active := False, updated_at := updated\<rparr>) merged
      in if merges = [] then ([], s)
         else (map row_id (filter hit (placements s)), s\<lparr>placements := retired\<rparr>))"

definition bulk_migrate_backend ::
  "uuid list \<Rightarrow> uuid \<Rightarrow> string option \<Rightarrow> time \<Rightarrow> db \<Rightarrow> ((nat \<times> uuid list) \<times> db) result" where
  "bulk_migrate_backend ids target reason updated s =
     (if migration_sources ids s = [] then Inr ((0, []), s)
      else let moves = simple_move_ids ids target s; merges = merge_source_ids ids target s in
        case move_placements moves target reason updated s of
          Inl e \<Rightarrow> Inl e
        | Inr (moved, s1) \<Rightarrow>
            let (merged, s2) = merge_placements merges target reason updated s1 in
            Inr ((length moved + length merged, moved @ merged), s2))"

section \<open>The invariant\<close>

text \<open>
  Ids are unique, a key has at most one placement on a backend, the check constraints hold, and
  a placement counts as applied only when the version its backend confirmed is the current one.
\<close>

definition placement_synced :: "user_placement \<Rightarrow> bool" where
  "placement_synced p \<longleftrightarrow> (applied_state p = as_applied \<longrightarrow> applied_version p = op_version p)"

definition placements_inv :: "db \<Rightarrow> bool" where
  "placements_inv s \<longleftrightarrow>
     ids_ok (placements s) \<and> below (uuid_supply s) (placements s) \<and>
     distinct (map placement_pair (placements s)) \<and>
     list_all placement_ck (placements s) \<and> list_all placement_synced (placements s)"

text \<open>
  How one row may change: it keeps its id and key, its version never decreases, and while the
  version stays, what is wanted stays.  A table evolves when each of its rows does and the rows
  that are added have fresh ids.
\<close>

definition row_le :: "user_placement \<Rightarrow> user_placement \<Rightarrow> bool" where
  "row_le p q \<longleftrightarrow>
     row_id q = row_id p \<and> key_id q = key_id p \<and> op_version p \<le> op_version q \<and>
     (op_version q = op_version p \<longrightarrow> desired_state q = desired_state p \<and> backend_node_id q = backend_node_id p)"

definition evolves :: "uuid \<Rightarrow> user_placement list \<Rightarrow> user_placement list \<Rightarrow> bool" where
  "evolves n t t' \<longleftrightarrow>
     length t \<le> length t' \<and> list_all2 row_le t (take (length t) t') \<and>
     list_all (\<lambda>p. n \<le> row_id p) (drop (length t) t')"

definition placement_change :: "db \<Rightarrow> db \<Rightarrow> bool" where
  "placement_change s s' \<longleftrightarrow>
     placements_inv s' \<and> evolves (uuid_supply s) (placements s) (placements s') \<and>
     uuid_supply s \<le> uuid_supply s' \<and> outbox s' = outbox s"

lemma placements_inv_empty [simp]: "placements_inv empty_db"
  by (simp add: placements_inv_def)

lemma row_le_refl [simp]: "row_le p p"
  by (simp add: row_le_def)

lemma row_le_trans: "row_le p q \<Longrightarrow> row_le q r \<Longrightarrow> row_le p r"
  by (auto simp: row_le_def)

lemma evolves_refl [simp]: "evolves n t t"
  by (simp add: evolves_def list_all2_refl)

lemma evolves_split:
  "evolves n t t' \<longleftrightarrow> (\<exists>u new. t' = u @ new \<and> list_all2 row_le t u \<and> list_all (\<lambda>p. n \<le> row_id p) new)"
proof
  assume "evolves n t t'"
  then show "\<exists>u new. t' = u @ new \<and> list_all2 row_le t u \<and> list_all (\<lambda>p. n \<le> row_id p) new"
    by (metis append_take_drop_id evolves_def)
next
  assume "\<exists>u new. t' = u @ new \<and> list_all2 row_le t u \<and> list_all (\<lambda>p. n \<le> row_id p) new"
  then show "evolves n t t'" by (auto simp: evolves_def list_all2_lengthD)
qed

lemma list_all2_mem: "list_all2 R xs ys \<Longrightarrow> x \<in> set xs \<Longrightarrow> \<exists>y \<in> set ys. R x y"
  by (induction rule: list_all2_induct) auto

lemma list_all2_mem_right: "list_all2 R xs ys \<Longrightarrow> y \<in> set ys \<Longrightarrow> \<exists>x \<in> set xs. R x y"
  by (induction rule: list_all2_induct) auto

lemma list_all2_row_le_ids: "list_all2 row_le t u \<Longrightarrow> map row_id u = map row_id t"
  by (induction rule: list_all2_induct) (auto simp: row_le_def)

lemma list_all_row_ids:
  assumes "map row_id u = map row_id t"
  shows "list_all (\<lambda>p. Q (row_id p)) u = list_all (\<lambda>p. Q (row_id p)) t"
proof -
  have "list_all Q (map row_id u) = list_all Q (map row_id t)" by (simp only: assms)
  then show ?thesis by (simp add: list_all_iff)
qed

lemma evolves_trans:
  assumes "evolves n t t'" "evolves m t' t''" "n \<le> m"
  shows "evolves n t t''"
proof -
  obtain u new where u: "t' = u @ new" "list_all2 row_le t u" "list_all (\<lambda>p. n \<le> row_id p) new"
    using assms(1) evolves_split by blast
  obtain v new' where v: "t'' = v @ new'" "list_all2 row_le t' v" "list_all (\<lambda>p. m \<le> row_id p) new'"
    using assms(2) evolves_split by blast
  obtain v1 v2 where w: "v = v1 @ v2" "list_all2 row_le u v1" "list_all2 row_le new v2"
    using v(2) u(1) by (auto simp: list_all2_append1)
  have "list_all2 row_le t v1"
    by (rule list_all2_trans [OF _ u(2) w(2)]) (rule row_le_trans)
  moreover have "list_all (\<lambda>p. n \<le> row_id p) (v2 @ new')"
    using list_all_row_ids [OF list_all2_row_le_ids [OF w(3)], of "\<lambda>i. n \<le> i"] u(3) v(3) assms(3)
    by (auto simp: list_all_iff)
  moreover have "t'' = v1 @ (v2 @ new')" using v(1) w(1) by simp
  ultimately show ?thesis unfolding evolves_split by blast
qed

lemma list_all2_update_where:
  "(\<And>p. p \<in> set t \<Longrightarrow> P p \<Longrightarrow> row_le p (f p)) \<Longrightarrow> list_all2 row_le t (update_where P f t)"
  by (induction t) auto

lemma evolves_update_where:
  "(\<And>p. p \<in> set t \<Longrightarrow> P p \<Longrightarrow> row_le p (f p)) \<Longrightarrow> evolves n t (update_where P f t)"
  by (simp add: evolves_def list_all2_update_where)

lemma evolves_create: "n \<le> row_id r \<Longrightarrow> evolves n t (create_row r t)"
  by (simp add: evolves_def create_row_def list_all2_refl)

lemma placement_change_trans: "placement_change s s' \<Longrightarrow> placement_change s' s'' \<Longrightarrow> placement_change s s''"
  by (auto simp: placement_change_def intro: evolves_trans)

lemma placement_change_refl: "placements_inv s \<Longrightarrow> placement_change s s"
  by (simp add: placement_change_def)

text \<open>An update that evolves the rows it hits and keeps their pair is a change of the table.\<close>

definition row_update_ok :: "user_placement \<Rightarrow> user_placement \<Rightarrow> bool" where
  "row_update_ok p q \<longleftrightarrow>
     row_le p q \<and> placement_pair q = placement_pair p \<and> placement_ck q \<and> placement_synced q"

lemma placement_change_update:
  assumes inv: "placements_inv s"
    and ok: "\<And>p. p \<in> set (placements s) \<Longrightarrow> P p \<Longrightarrow> placement_ck p \<Longrightarrow> placement_synced p \<Longrightarrow> row_update_ok p (f p)"
  shows "placement_change s (s\<lparr>placements := update_where P f (placements s)\<rparr>)"
proof -
  have row: "row_update_ok p (f p)" if "p \<in> set (placements s)" "P p" for p
    using ok [OF that] inv that by (simp add: placements_inv_def list_all_iff)
  have ids: "map row_id (update_where P f (placements s)) = map row_id (placements s)"
    by (rule map_update_where_same) (use row in \<open>simp add: row_update_ok_def row_le_def\<close>)
  then have below: "below n (update_where P f (placements s)) = below n (placements s)" for n
    unfolding below_def by (rule list_all_row_ids)
  have pairs: "map placement_pair (update_where P f (placements s)) = map placement_pair (placements s)"
    by (rule map_update_where_same) (use row in \<open>simp add: row_update_ok_def\<close>)
  have "list_all placement_ck (update_where P f (placements s))"
    "list_all placement_synced (update_where P f (placements s))"
    using inv row by (auto simp: placements_inv_def row_update_ok_def intro!: list_all_update_where)
  moreover have "evolves (uuid_supply s) (placements s) (update_where P f (placements s))"
    using row by (intro evolves_update_where) (simp add: row_update_ok_def)
  ultimately show ?thesis
    using inv by (simp add: placement_change_def placements_inv_def ids_ok_def ids pairs below)
qed

lemma row_update_ok_bump:
  assumes "placement_ck p" "row_id q = row_id p" "placement_pair q = placement_pair p"
    "op_version q = op_version p + 1" "applied_state q = as_pending" "applied_version q = applied_version p"
  shows "row_update_ok p q"
  using assms by (auto simp: row_update_ok_def row_le_def placement_ck_def placement_synced_def placement_pair_def)

lemma bump_sel [simp]:
  "row_id (bump now p) = row_id p" "key_id (bump now p) = key_id p"
  "backend_node_id (bump now p) = backend_node_id p" "op_version (bump now p) = op_version p + 1"
  "applied_state (bump now p) = as_pending" "applied_version (bump now p) = applied_version p"
  "is_active (bump now p) = is_active p" "desired_state (bump now p) = desired_state p"
  "updated_at (bump now p) = now" "sticky_until (bump now p) = sticky_until p"
  by (simp_all add: bump_def)

section \<open>Every statement changes the table consistently\<close>

lemma get_by_key_and_backend_Some:
  "get_by_key_and_backend k n b s = Some p \<Longrightarrow>
   p \<in> set (placements s) \<and> key_id p = k \<and> backend_node_id p = n \<and> (b \<longrightarrow> is_active p)"
  unfolding get_by_key_and_backend_def get_one_by_def by (drule find_Some_mem) auto

lemma get_by_key_and_backend_None:
  "get_by_key_and_backend k n False s = None \<longleftrightarrow> (k, n) \<notin> placement_pair ` set (placements s)"
  by (auto simp: get_by_key_and_backend_def get_one_by_def find_None_all placement_pair_def)

lemma placements_inv_unique:
  "placements_inv s \<Longrightarrow> p \<in> set (placements s) \<Longrightarrow> q \<in> set (placements s) \<Longrightarrow>
   placement_pair p = placement_pair q \<Longrightarrow> p = q"
  by (auto simp: placements_inv_def dest: distinct_map_unique)

lemma get_by_key_and_backend_unique:
  assumes "placements_inv s" "p \<in> set (placements s)" "key_id p = k" "backend_node_id p = n" "b \<longrightarrow> is_active p"
  shows "get_by_key_and_backend k n b s = Some p"
proof (cases "get_by_key_and_backend k n b s")
  case None
  then show ?thesis
    using assms by (auto simp: get_by_key_and_backend_def get_one_by_def find_None_all)
next
  case (Some q)
  with get_by_key_and_backend_Some [OF Some] placements_inv_unique [OF assms(1,2), of q] assms
  show ?thesis by (simp add: placement_pair_def)
qed

lemma placement_change_create:
  assumes "placements_inv s" "row_id r = uuid_supply s" "placement_pair r \<notin> placement_pair ` set (placements s)"
    "placement_ck r" "placement_synced r"
  shows "placement_change s (s\<lparr>uuid_supply := Suc (uuid_supply s), placements := create_row r (placements s)\<rparr>)"
  using assms
  by (auto simp: placement_change_def placements_inv_def evolves_create below_Suc
      intro: ids_ok_create_fresh)

lemma new_placement_sel [simp]:
  "row_id (new_placement now i k n d st r) = i" "key_id (new_placement now i k n d st r) = k"
  "backend_node_id (new_placement now i k n d st r) = n"
  "desired_state (new_placement now i k n d st r) = d" "is_active (new_placement now i k n d st r)"
  "op_version (new_placement now i k n d st r) = 1" "applied_state (new_placement now i k n d st r) = as_pending"
  "placement_ck (new_placement now i k n d st r)" "placement_synced (new_placement now i k n d st r)"
  by (simp_all add: new_placement_def placement_ck_def placement_synced_def)

lemma upsert_one_change:
  assumes "placements_inv s"
  shows "placement_change s (snd (upsert_one now k n d st r s))"
proof (cases "get_by_key_and_backend k n False s")
  case None
  let ?r = "new_placement now (uuid_supply s) k n d st r"
  have "placement_change s (s\<lparr>uuid_supply := Suc (uuid_supply s), placements := create_row ?r (placements s)\<rparr>)"
    using assms None
    by (intro placement_change_create) (simp_all add: get_by_key_and_backend_None placement_pair_def)
  with None show ?thesis by (simp add: upsert_one_def Let_def split_def)
next
  case (Some p)
  with assms show ?thesis
    by (auto simp: upsert_one_def update_by_id_def placement_pair_def
        intro!: placement_change_update row_update_ok_bump)
qed

lemma placement_change_inv: "placement_change s s' \<Longrightarrow> placements_inv s'"
  by (simp add: placement_change_def)

lemma upsert_pairs_change:
  "placements_inv s \<Longrightarrow> placement_change s (snd (upsert_pairs now d r pairs s))"
proof (induction pairs arbitrary: s)
  case Nil
  then show ?case by (simp add: placement_change_refl)
next
  case (Cons x pairs)
  obtain k n where x: "x = (k, n)" by (cases x)
  note step = upsert_one_change [OF Cons.prems, of now k n d None r]
  from placement_change_trans [OF step Cons.IH [OF placement_change_inv [OF step]]]
  show ?case by (simp add: x split_def Let_def)
qed

lemma upsert_set_pending_change:
  "placements_inv s \<Longrightarrow> upsert_set_pending now k n d st r s = Inr (p, s') \<Longrightarrow> placement_change s s'"
  using upsert_one_change [of s now k n d st r] by (auto simp: upsert_set_pending_def Let_def split: option.splits)

lemma bulk_upsert_set_pending_change:
  "placements_inv s \<Longrightarrow> bulk_upsert_set_pending now pairs d r s = Inr (ids, s') \<Longrightarrow> placement_change s s'"
  using upsert_pairs_change [of s now d r pairs]
  by (auto simp: bulk_upsert_set_pending_def placement_change_refl split: if_splits)

lemma deactivate_placements_on_node_change:
  "placements_inv s \<Longrightarrow> placement_change s (snd (deactivate_placements_on_node now n r s))"
  by (auto simp: deactivate_placements_on_node_def Let_def placement_change_refl placement_pair_def
      intro!: placement_change_update row_update_ok_bump)

lemma set_desired_state_for_key_change:
  "placements_inv s \<Longrightarrow> placement_change s (snd (set_desired_state_for_key k d r t bs s))"
  by (auto simp: set_desired_state_for_key_def Let_def placement_change_refl placement_pair_def
      intro!: placement_change_update row_update_ok_bump)

lemma set_pending_for_backend_change:
  "placements_inv s \<Longrightarrow> placement_change s (snd (set_pending_for_backend n r t s))"
  by (auto simp: set_pending_for_backend_def Let_def placement_pair_def
      intro!: placement_change_update row_update_ok_bump)

lemma bulk_set_desired_state_for_keys_change:
  "placements_inv s \<Longrightarrow> placement_change s (snd (bulk_set_desired_state_for_keys ks d r t s))"
  by (auto simp: bulk_set_desired_state_for_keys_def Let_def placement_change_refl placement_pair_def
      intro!: placement_change_update row_update_ok_bump)

text \<open>A report confirms the version it was asked for, so it keeps what is wanted.\<close>

lemma row_update_ok_report:
  "placement_ck p \<Longrightarrow> row_update_ok p (p\<lparr>applied_state := st, applied_version := op_version p, updated_at := t\<rparr>)"
  by (auto simp: row_update_ok_def row_le_def placement_pair_def placement_ck_def placement_synced_def)

lemma apply_report_group_change:
  "placements_inv s \<Longrightarrow> placement_change s (snd (apply_report_group items st s))"
  by (auto simp: apply_report_group_def Let_def intro!: placement_change_update row_update_ok_report)

lemma apply_report_groups_change:
  "placements_inv s \<Longrightarrow> placement_change s (snd (apply_report_groups items sts s))"
proof (induction sts arbitrary: s)
  case Nil
  then show ?case by (simp add: placement_change_refl)
next
  case (Cons st sts)
  note step = apply_report_group_change [OF Cons.prems, of items st]
  from placement_change_trans [OF step Cons.IH [OF placement_change_inv [OF step]]]
  show ?case by (simp add: split_def Let_def)
qed

lemma bulk_apply_backend_report_change:
  "placements_inv s \<Longrightarrow> placement_change s (snd (bulk_apply_backend_report items s))"
  unfolding bulk_apply_backend_report_def by (rule apply_report_groups_change)

lemma store_placements_Inr:
  "store_placements t s = Inr s' \<longleftrightarrow>
   s' = s\<lparr>placements := t\<rparr> \<and> list_all placement_ck t \<and> distinct (map placement_pair t)"
  by (auto simp: store_placements_def)

lemma apply_backend_report_eq:
  assumes "placements_inv s"
  shows "apply_backend_report i v st v t reporter s =
     (let hit = (\<lambda>p. row_id p = i \<and> op_version p = v \<and> backend_node_id p = reporter) in
      Inr (length (filter hit (placements s)), s\<lparr>placements := update_where hit
        (\<lambda>p. p\<lparr>applied_state := st, applied_version := op_version p, updated_at := t\<rparr>) (placements s)\<rparr>))"
proof -
  let ?hit = "\<lambda>p. row_id p = i \<and> op_version p = v \<and> backend_node_id p = reporter"
  let ?t = "update_where ?hit (\<lambda>p. p\<lparr>applied_state := st, applied_version := op_version p, updated_at := t\<rparr>) (placements s)"
  have eq: "update_where ?hit (\<lambda>p. p\<lparr>applied_state := st, applied_version := v, updated_at := t\<rparr>) (placements s) = ?t"
    by (rule update_where_cong) auto
  have "placement_change s (s\<lparr>placements := ?t\<rparr>)"
    using assms by (intro placement_change_update row_update_ok_report)
  then have "store_placements ?t s = Inr (s\<lparr>placements := ?t\<rparr>)"
    by (simp add: store_placements_Inr placement_change_def placements_inv_def)
  then show ?thesis by (simp add: apply_backend_report_def Let_def eq)
qed

lemma apply_backend_report_change:
  assumes "placements_inv s" "apply_backend_report i v st v t reporter s = Inr (n, s')"
  shows "placement_change s s'"
  using assms(2) unfolding apply_backend_report_eq [OF assms(1)]
  by (auto simp: Let_def intro!: placement_change_update [OF assms(1)] row_update_ok_report)

lemma move_placements_change:
  assumes inv: "placements_inv s" and move: "move_placements moves target reason t s = Inr (ids, s')"
  shows "placement_change s s'"
proof (cases "moves = []")
  case True
  with assms show ?thesis by (simp add: move_placements_def placement_change_refl)
next
  case False
  let ?P = "\<lambda>p. row_id p \<in> set moves"
  let ?f = "\<lambda>p. (bump t p)\<lparr>backend_node_id := target, last_migration_reason := reason\<rparr>"
  let ?t = "update_where ?P ?f (placements s)"
  have s': "s' = s\<lparr>placements := ?t\<rparr>" and ck: "list_all placement_ck ?t" and uq: "distinct (map placement_pair ?t)"
    using move False by (auto simp: move_placements_def store_placements_Inr split: sum.splits)
  have "list_all placement_synced ?t"
    using inv by (auto simp: placements_inv_def placement_synced_def intro!: list_all_update_where)
  moreover have "ids_ok ?t" "below (uuid_supply s) ?t"
    using inv by (simp_all add: placements_inv_def ids_ok_update_where below_update_where)
  moreover have "evolves (uuid_supply s) (placements s) ?t"
    by (rule evolves_update_where) (simp add: row_le_def)
  ultimately show ?thesis using ck uq by (simp add: s' placement_change_def placements_inv_def)
qed

lemma row_update_ok_retire:
  "placement_ck p \<Longrightarrow> placement_synced p \<Longrightarrow> row_update_ok p (p\<lparr>is_active := False, updated_at := t\<rparr>)"
  by (auto simp: row_update_ok_def row_le_def placement_pair_def placement_ck_def placement_synced_def)

lemma merge_placements_change:
  assumes inv: "placements_inv s"
  shows "placement_change s (snd (merge_placements merges target reason t s))"
proof (cases "merges = []")
  case True
  with inv show ?thesis by (simp add: merge_placements_def Let_def placement_change_refl)
next
  case False
  let ?src = "\<lambda>p. the (merge_source merges (placements s) (key_id p))"
  let ?s1 = "s\<lparr>placements := update_where
      (\<lambda>p. backend_node_id p = target \<and> merge_source merges (placements s) (key_id p) \<noteq> None)
      (\<lambda>p. (bump t p)\<lparr>desired_state := desired_state (?src p), sticky_until := sticky_until (?src p),
              last_migration_reason := reason, is_active := True\<rparr>) (placements s)\<rparr>"
  have 1: "placement_change s ?s1"
    using inv by (intro placement_change_update row_update_ok_bump) (simp_all add: placement_pair_def)
  have "placement_change ?s1 (?s1\<lparr>placements := update_where (\<lambda>p. row_id p \<in> set merges)
      (\<lambda>p. p\<lparr>is_active := False, updated_at := t\<rparr>) (placements ?s1)\<rparr>)"
    using placement_change_inv [OF 1] by (intro placement_change_update row_update_ok_retire)
  from placement_change_trans [OF 1 this] False show ?thesis
    by (simp add: merge_placements_def Let_def)
qed

lemma bulk_migrate_backend_change:
  assumes inv: "placements_inv s" and mig: "bulk_migrate_backend ids target reason t s = Inr (out, s')"
  shows "placement_change s s'"
proof (cases "migration_sources ids s = []")
  case True
  with assms show ?thesis by (auto simp: bulk_migrate_backend_def placement_change_refl)
next
  case False
  then obtain moved s1 where s1: "move_placements (simple_move_ids ids target s) target reason t s = Inr (moved, s1)"
    and s': "s' = snd (merge_placements (merge_source_ids ids target s) target reason t s1)"
    using mig by (auto simp: bulk_migrate_backend_def Let_def split_def split: sum.splits)
  note step = move_placements_change [OF inv s1]
  from placement_change_trans [OF step merge_placements_change [OF placement_change_inv [OF step]]]
  show ?thesis by (simp add: s')
qed

section \<open>Sequences of statements\<close>

inductive placement_step :: "db \<Rightarrow> db \<Rightarrow> bool" where
  upsert: "upsert_set_pending now k n d st r s = Inr (p, s') \<Longrightarrow> placement_step s s'"
| bulk_upsert: "bulk_upsert_set_pending now pairs d r s = Inr (ids, s') \<Longrightarrow> placement_step s s'"
| deactivate: "placement_step s (snd (deactivate_placements_on_node now n r' s))"
| set_desired: "placement_step s (snd (set_desired_state_for_key k d r t bs s))"
| set_pending: "placement_step s (snd (set_pending_for_backend n r t s))"
| bulk_set_desired: "placement_step s (snd (bulk_set_desired_state_for_keys ks d r t s))"
| report: "apply_backend_report i v a v t reporter s = Inr (m, s') \<Longrightarrow> placement_step s s'"
| bulk_report: "placement_step s (snd (bulk_apply_backend_report items s))"
| migrate: "bulk_migrate_backend ids n r t s = Inr (out, s') \<Longrightarrow> placement_step s s'"

lemmas placement_changes =
  upsert_set_pending_change bulk_upsert_set_pending_change deactivate_placements_on_node_change
  set_desired_state_for_key_change set_pending_for_backend_change bulk_set_desired_state_for_keys_change
  apply_backend_report_change bulk_apply_backend_report_change bulk_migrate_backend_change

lemma placement_step_change: "placement_step s s' \<Longrightarrow> placements_inv s \<Longrightarrow> placement_change s s'"
  by (induction rule: placement_step.induct) (auto dest: placement_changes)

interpretation placement_sm: step_invariant placements_inv placement_step placements_inv
  by unfold_locales (auto dest: placement_step_change placement_change_inv)

lemma placement_steps_change:
  "placement_step\<^sup>*\<^sup>* s s' \<Longrightarrow> placements_inv s \<Longrightarrow> placement_change s s'"
proof (induction rule: rtranclp_induct)
  case base
  then show ?case by (rule placement_change_refl)
next
  case (step y z)
  then have "placement_change s y" by simp
  with step placement_step_change [of y z] show ?case
    by (blast intro: placement_change_trans dest: placement_change_inv)
qed

section \<open>Properties\<close>

text \<open>C4: Whatever sequence of statements runs on the placements (upserts, deactivations, state
  changes, reports of backends, migrations), the table stays consistent: ids are unique, a key has
  one row per backend, the check constraints hold, a placement is applied only in its current
  version; and no row is lost: each keeps its key, its version never decreases, and what is wanted
  of it changes only together with the version.\<close>

theorem placement_steps_sound:
  assumes "placements_inv s" and "placement_step\<^sup>*\<^sup>* s s'"
  shows "placements_inv s' \<and>
         (\<forall>p \<in> set (placements s). \<exists>q. get_by_id (row_id p) (placements s') = Some q \<and>
            key_id q = key_id p \<and> op_version p \<le> op_version q \<and>
            (op_version q = op_version p \<longrightarrow>
               desired_state q = desired_state p \<and> backend_node_id q = backend_node_id p))"
proof -
  have change: "placement_change s s'" using assms by (blast intro: placement_steps_change)
  then have inv: "placements_inv s'" by (rule placement_change_inv)
  have "\<exists>q. get_by_id (row_id p) (placements s') = Some q \<and> row_le p q" if p: "p \<in> set (placements s)" for p
  proof -
    obtain u new where u: "placements s' = u @ new" "list_all2 row_le (placements s) u"
      using change by (auto simp: placement_change_def evolves_split)
    then obtain q where q: "q \<in> set u" "row_le p q"
      using list_all2_mem [OF u(2) p] by blast
    have "ids_ok (placements s')" using inv by (simp add: placements_inv_def)
    then have "get_by_id (row_id q) (placements s') = Some q" using q u(1) by (simp add: ids_ok_get)
    with q show ?thesis by (auto simp: row_le_def)
  qed
  with inv show ?thesis unfolding row_le_def by blast
qed

definition sample_placement :: "uuid \<Rightarrow> uuid \<Rightarrow> uuid \<Rightarrow> user_placement" where
  "sample_placement i k b = new_placement 0 i k b ds_active None None"

definition sample_placements_db :: db where
  "sample_placements_db =
     sample_db\<lparr>placements := [sample_placement 20 7 2, sample_placement 21 8 2, sample_placement 22 8 3]\<rparr>"

lemma sample_placements [simp]:
  "placements sample_placements_db = [sample_placement 20 7 2, sample_placement 21 8 2, sample_placement 22 8 3]"
  "uuid_supply sample_placements_db = 1000"
  by (simp_all add: sample_placements_db_def sample_db_def)

lemma sample_placement_sel [simp]:
  "row_id (sample_placement i k b) = i" "key_id (sample_placement i k b) = k"
  "backend_node_id (sample_placement i k b) = b" "is_active (sample_placement i k b)"
  "desired_state (sample_placement i k b) = ds_active" "op_version (sample_placement i k b) = 1"
  "placement_ck (sample_placement i k b)" "placement_synced (sample_placement i k b)"
  "placement_pair (sample_placement i k b) = (k, b)"
  by (simp_all add: sample_placement_def placement_pair_def)

lemma sample_placements_inv: "placements_inv sample_placements_db"
  by (simp add: placements_inv_def ids_ok_def below_def)

theorem placement_steps_sound_witness:
  "placements_inv (snd (set_pending_for_backend 2 None 5 sample_placements_db)) \<and>
   (\<exists>q. get_by_id 20 (placements (snd (set_pending_for_backend 2 None 5 sample_placements_db))) = Some q \<and>
        key_id q = 7)"
proof -
  have "placement_step\<^sup>*\<^sup>* sample_placements_db (snd (set_pending_for_backend 2 None 5 sample_placements_db))"
    by (rule r_into_rtranclp) (rule placement_step.set_pending)
  from placement_steps_sound [OF sample_placements_inv this] show ?thesis by auto
qed

subsection \<open>Reports in bulk\<close>

definition report_matches :: "report_item \<Rightarrow> user_placement \<Rightarrow> bool" where
  "report_matches x p \<longleftrightarrow> ri_id x = row_id p \<and> ri_op_version x = op_version p \<and> ri_backend_node_id x = backend_node_id p"

definition confirm :: "time \<Rightarrow> PlacementAppliedState \<Rightarrow> user_placement \<Rightarrow> user_placement" where
  "confirm t st p = p\<lparr>applied_state := st, applied_version := op_version p, updated_at := t\<rparr>"

lemma confirm_sel [simp]:
  "row_id (confirm t st p) = row_id p" "op_version (confirm t st p) = op_version p"
  "backend_node_id (confirm t st p) = backend_node_id p" "report_matches x (confirm t st p) = report_matches x p"
  by (simp_all add: confirm_def report_matches_def)

text \<open>What a batch of reports does to one row, for the reports whose state is in a list.\<close>

definition confirm_by :: "time \<Rightarrow> report_item list \<Rightarrow> PlacementAppliedState list \<Rightarrow> user_placement \<Rightarrow> user_placement" where
  "confirm_by t items sts p =
     (case find (\<lambda>x. report_matches x p) items of
        None \<Rightarrow> p
      | Some x \<Rightarrow> if ri_applied_state x \<in> set sts then confirm t (ri_applied_state x) p else p)"

lemma find_report:
  assumes "distinct (map ri_id items)" "x \<in> set items" "report_matches x p"
  shows "find (\<lambda>x. report_matches x p) items = Some x"
proof (cases "find (\<lambda>x. report_matches x p) items")
  case None
  with assms show ?thesis by (auto simp: find_None_all)
next
  case (Some y)
  from find_Some_mem [OF this] assms have "y = x"
    by (auto simp: report_matches_def intro: distinct_map_unique)
  with Some show ?thesis by simp
qed

lemma apply_report_group_confirm:
  assumes "distinct (map ri_id items)" "\<forall>x \<in> set items. ri_updated_at x = t"
  shows "snd (apply_report_group items st s) = s\<lparr>placements := map (confirm_by t items [st]) (placements s)\<rparr>"
proof -
  let ?grp = "filter (\<lambda>x. ri_applied_state x = st) items"
  have "(if (row_id p, op_version p, backend_node_id p) \<in>
            set (map (\<lambda>x. (ri_id x, ri_op_version x, ri_backend_node_id x)) ?grp)
         then p\<lparr>applied_state := st, applied_version := op_version p, updated_at := ri_updated_at (hd ?grp)\<rparr> else p)
        = confirm_by t items [st] p" (is "(if ?hit then _ else _) = _") for p
  proof (cases ?hit)
    case True
    then obtain x where x: "x \<in> set items" "ri_applied_state x = st" "report_matches x p"
      by (auto simp: report_matches_def)
    then have "?grp \<noteq> []" by (auto simp: filter_empty_conv)
    then have "hd ?grp \<in> set ?grp" by (rule hd_in_set)
    then have "ri_updated_at (hd ?grp) = t" using assms(2) by simp
    with True x find_report [OF assms(1) x(1,3)] show ?thesis by (simp add: confirm_by_def confirm_def)
  next
    case False
    then have "\<not> (ri_applied_state x = st \<and> report_matches x p)" if "x \<in> set items" for x
      using that by (force simp: report_matches_def)
    with False show ?thesis
      by (auto simp: confirm_by_def split: option.splits dest: find_Some_mem)
  qed
  then show ?thesis by (simp add: apply_report_group_def Let_def update_where_def)
qed

lemma confirm_by_Cons:
  assumes "st \<notin> set sts"
  shows "confirm_by t items sts (confirm_by t items [st] p) = confirm_by t items (st # sts) p"
  using assms by (auto simp: confirm_by_def split: option.splits)

lemma apply_report_groups_confirm:
  assumes "distinct (map ri_id items)" "\<forall>x \<in> set items. ri_updated_at x = t" "distinct sts"
  shows "snd (apply_report_groups items sts s) = s\<lparr>placements := map (confirm_by t items sts) (placements s)\<rparr>"
  using assms(3)
proof (induction sts arbitrary: s)
  case Nil
  have "confirm_by t items [] = id" by (auto simp: confirm_by_def split: option.splits)
  then show ?case by simp
next
  case (Cons st sts)
  then show ?case
    by (simp add: split_def Let_def apply_report_group_confirm [OF assms(1,2)] confirm_by_Cons comp_def)
qed

text \<open>One report after the other.\<close>

definition report_one :: "time \<Rightarrow> report_item \<Rightarrow> db \<Rightarrow> db" where
  "report_one t x s =
     (case apply_backend_report (ri_id x) (ri_op_version x) (ri_applied_state x) (ri_op_version x) t
             (ri_backend_node_id x) s of
        Inl _ \<Rightarrow> s
      | Inr (_, s') \<Rightarrow> s')"

lemma report_one_eq:
  "placements_inv s \<Longrightarrow> report_one t x s =
     s\<lparr>placements := update_where (report_matches x) (confirm t (ri_applied_state x)) (placements s)\<rparr>"
  by (auto simp: report_one_def apply_backend_report_eq Let_def update_where_def report_matches_def confirm_def)

lemma report_one_inv: "placements_inv s \<Longrightarrow> placements_inv (report_one t x s)"
  using apply_backend_report_change [THEN placement_change_inv]
  by (auto simp: report_one_def split: sum.splits)

lemma fold_report_one:
  "placements_inv s \<Longrightarrow> distinct (map ri_id items) \<Longrightarrow> fold (report_one t) items s =
     s\<lparr>placements := map (confirm_by t items (map ri_applied_state items)) (placements s)\<rparr>"
proof (induction items arbitrary: s)
  case Nil
  have "confirm_by t [] [] = id" by (auto simp: confirm_by_def)
  then show ?case by simp
next
  case (Cons x items)
  have "confirm_by t items (map ri_applied_state items) (if report_matches x p then confirm t (ri_applied_state x) p else p)
      = confirm_by t (x # items) (map ri_applied_state (x # items)) p" for p
  proof (cases "report_matches x p")
    case True
    have "\<not> report_matches y p" if "y \<in> set items" for y
      using Cons.prems(2) True that by (auto simp: report_matches_def image_iff)
    then have "find (\<lambda>y. report_matches y p) items = None" by (simp add: find_None_all)
    with True show ?thesis by (simp add: confirm_by_def)
  next
    case False
    show ?thesis
    proof (cases "find (\<lambda>y. report_matches y p) items")
      case None
      with False show ?thesis by (simp add: confirm_by_def)
    next
      case (Some y)
      with find_Some_mem [OF Some] False show ?thesis by (simp add: confirm_by_def)
    qed
  qed
  note row = this
  have IH: "fold (report_one t) items (report_one t x s) = (report_one t x s)\<lparr>placements :=
      map (confirm_by t items (map ri_applied_state items)) (placements (report_one t x s))\<rparr>"
    using Cons.prems by (intro Cons.IH report_one_inv) simp_all
  have "fold (report_one t) (x # items) s = fold (report_one t) items (report_one t x s)" by simp
  also note IH
  finally show ?case
    unfolding report_one_eq [OF Cons.prems(1)] by (simp add: update_where_def comp_def row)
qed

lemma image_filter_map:
  assumes "\<And>p. g (f p) = g p" "\<And>p. Q (f p) = Q p"
  shows "g ` {q \<in> f ` A. Q q} = g ` {p \<in> A. Q p}"
  using assms by (force simp: image_iff)

lemma confirm_by_keeps:
  "row_id (confirm_by t items sts p) = row_id p" "report_matches x (confirm_by t items sts p) = report_matches x p"
  by (simp_all add: confirm_by_def split: option.splits)

lemma apply_report_group_ids:
  "set (fst (apply_report_group items st s)) =
     row_id ` {p \<in> set (placements s). \<exists>x \<in> set items. report_matches x p \<and> ri_applied_state x = st}"
proof -
  have "(row_id p, op_version p, backend_node_id p) \<in>
          set (map (\<lambda>x. (ri_id x, ri_op_version x, ri_backend_node_id x)) (filter (\<lambda>x. ri_applied_state x = st) items))
        \<longleftrightarrow> (\<exists>x \<in> set items. report_matches x p \<and> ri_applied_state x = st)" for p
    by (force simp: report_matches_def)
  then have "fst (apply_report_group items st s) =
      map row_id (filter (\<lambda>p. \<exists>x \<in> set items. report_matches x p \<and> ri_applied_state x = st) (placements s))"
    by (simp only: apply_report_group_def Let_def fst_conv)
  then show ?thesis by simp
qed

lemma apply_report_groups_ids:
  assumes "distinct (map ri_id items)" "\<forall>x \<in> set items. ri_updated_at x = t"
  shows "fst (apply_report_groups items sts s) =
     row_id ` {p \<in> set (placements s). \<exists>x \<in> set items. report_matches x p \<and> ri_applied_state x \<in> set sts}"
proof (induction sts arbitrary: s)
  case Nil
  then show ?case by simp
next
  case (Cons st sts)
  let ?Q = "\<lambda>sts p. \<exists>x \<in> set items. report_matches x p \<and> ri_applied_state x \<in> set sts"
  have "fst (apply_report_groups items sts (snd (apply_report_group items st s)))
      = row_id ` {p \<in> confirm_by t items [st] ` set (placements s). ?Q sts p}"
    by (simp add: Cons.IH apply_report_group_confirm [OF assms])
  also have "\<dots> = row_id ` {p \<in> set (placements s). ?Q sts p}"
    by (rule image_filter_map) (simp_all add: confirm_by_keeps)
  finally show ?case by (auto simp: split_def Let_def apply_report_group_ids)
qed


definition sample_report :: "uuid \<Rightarrow> int \<Rightarrow> report_item" where
  "sample_report i v = \<lparr>ri_id = i, ri_op_version = v, ri_backend_node_id = 2, ri_applied_state = as_applied, ri_updated_at = 9\<rparr>"


subsection \<open>Migration as one pass over the table\<close>

text \<open>
  The case the services use: the placements to migrate have different keys (they share their
  backend) and none of them is on the target yet.
\<close>

definition migratable :: "uuid list \<Rightarrow> uuid \<Rightarrow> db \<Rightarrow> bool" where
  "migratable ids target s \<longleftrightarrow>
     placements_inv s \<and> distinct (map key_id (migration_sources ids s)) \<and>
     list_all (\<lambda>p. backend_node_id p \<noteq> target) (migration_sources ids s)"

definition migrate_row ::
  "uuid list \<Rightarrow> uuid \<Rightarrow> string option \<Rightarrow> time \<Rightarrow> db \<Rightarrow> user_placement \<Rightarrow> user_placement" where
  "migrate_row ids target reason t s p =
     (if p \<in> set (migration_sources ids s) then
        (if target_by_key target s (key_id p) = None
         then (bump t p)\<lparr>backend_node_id := target, last_migration_reason := reason\<rparr>
         else p\<lparr>is_active := False, updated_at := t\<rparr>)
      else if backend_node_id p = target then
        (case find (\<lambda>q. key_id q = key_id p) (migration_sources ids s) of
           None \<Rightarrow> p
         | Some q \<Rightarrow> (bump t p)\<lparr>desired_state := desired_state q, sticky_until := sticky_until q,
                        last_migration_reason := reason, is_active := True\<rparr>)
      else p)"

lemma sources_mem:
  "p \<in> set (migration_sources ids s) \<longleftrightarrow> p \<in> set (placements s) \<and> row_id p \<in> set ids \<and> is_active p"
  by (auto simp: migration_sources_def)

lemma migratable_ids: "migratable ids target s \<Longrightarrow> ids_ok (placements s)"
  by (simp add: migratable_def placements_inv_def)

lemma migratable_source: "migratable ids target s \<Longrightarrow> p \<in> set (migration_sources ids s) \<Longrightarrow> backend_node_id p \<noteq> target"
  by (simp add: migratable_def list_all_iff)

lemma migratable_key:
  "migratable ids target s \<Longrightarrow> p \<in> set (migration_sources ids s) \<Longrightarrow> q \<in> set (migration_sources ids s) \<Longrightarrow>
   key_id p = key_id q \<Longrightarrow> p = q"
  by (auto simp: migratable_def dest: distinct_map_unique)

lemma target_by_key_Some:
  "target_by_key target s k = Some e \<Longrightarrow> e \<in> set (placements s) \<and> key_id e = k \<and> backend_node_id e = target"
  unfolding target_by_key_def by (drule get_by_key_and_backend_Some) simp

lemma target_by_key_None:
  "target_by_key target s k = None \<longleftrightarrow> (\<forall>e \<in> set (placements s). key_id e = k \<longrightarrow> backend_node_id e \<noteq> target)"
  by (auto simp: target_by_key_def get_by_key_and_backend_def get_one_by_def find_None_all)

lemma mem_simple_moves:
  assumes "migratable ids target s" "p \<in> set (placements s)"
  shows "row_id p \<in> set (simple_move_ids ids target s) \<longleftrightarrow>
         p \<in> set (migration_sources ids s) \<and> target_by_key target s (key_id p) = None"
proof
  assume "row_id p \<in> set (simple_move_ids ids target s)"
  then obtain q where q: "q \<in> set (migration_sources ids s)" "target_by_key target s (key_id q) = None" "row_id q = row_id p"
    by (auto simp: simple_move_ids_def)
  moreover have "q = p" using ids_ok_unique [OF migratable_ids [OF assms(1)]] assms(2) q by (simp add: sources_mem)
  ultimately show "p \<in> set (migration_sources ids s) \<and> target_by_key target s (key_id p) = None" by simp
qed (auto simp: simple_move_ids_def)

lemma merge_source_ids_eq:
  assumes "migratable ids target s"
  shows "merge_source_ids ids target s =
         map row_id (filter (\<lambda>p. target_by_key target s (key_id p) \<noteq> None) (migration_sources ids s))"
proof -
  have "row_id e \<noteq> row_id p" if "p \<in> set (migration_sources ids s)" "target_by_key target s (key_id p) = Some e" for p e
    using that migratable_source [OF assms that(1)] target_by_key_Some [OF that(2)]
      ids_ok_unique [OF migratable_ids [OF assms], of e p] by (auto simp: sources_mem)
  then have "filter (\<lambda>p. case target_by_key target s (key_id p) of
         None \<Rightarrow> False | Some existing \<Rightarrow> row_id existing \<noteq> row_id p) (migration_sources ids s)
      = filter (\<lambda>p. target_by_key target s (key_id p) \<noteq> None) (migration_sources ids s)"
    by (intro filter_cong refl) (simp split: option.splits)
  then show ?thesis by (simp only: merge_source_ids_def)
qed

lemma mem_merge_sources:
  assumes "migratable ids target s" "p \<in> set (placements s)"
  shows "row_id p \<in> set (merge_source_ids ids target s) \<longleftrightarrow>
         p \<in> set (migration_sources ids s) \<and> target_by_key target s (key_id p) \<noteq> None"
proof
  assume "row_id p \<in> set (merge_source_ids ids target s)"
  then obtain q where q: "q \<in> set (migration_sources ids s)" "target_by_key target s (key_id q) \<noteq> None" "row_id q = row_id p"
    by (auto simp: merge_source_ids_eq [OF assms(1)])
  moreover have "q = p" using ids_ok_unique [OF migratable_ids [OF assms(1)]] assms(2) q by (simp add: sources_mem)
  ultimately show "p \<in> set (migration_sources ids s) \<and> target_by_key target s (key_id p) \<noteq> None" by simp
qed (auto simp: merge_source_ids_eq [OF assms(1)])

lemma distinct_map_update_where:
  assumes "distinct (map g t)"
    and "\<And>p q. p \<in> set t \<Longrightarrow> q \<in> set t \<Longrightarrow> P p \<Longrightarrow> P q \<Longrightarrow> g (f p) = g (f q) \<Longrightarrow> g p = g q"
    and "\<And>p q. p \<in> set t \<Longrightarrow> q \<in> set t \<Longrightarrow> P p \<Longrightarrow> \<not> P q \<Longrightarrow> g (f p) \<noteq> g q"
  shows "distinct (map g (update_where P f t))"
  using assms
proof (induction t)
  case (Cons p t)
  have IH: "distinct (map g (update_where P f t))" using Cons by simp
  have "g (if P p then f p else p) \<noteq> g (if P q then f q else q)" if "q \<in> set t" for q
    using Cons.prems(1) Cons.prems(2) [of p q] Cons.prems(3) [of p q] Cons.prems(3) [of q p] that
    by (auto simp: image_iff)
  then have "g (if P p then f p else p) \<notin> g ` set (update_where P f t)"
    unfolding update_where_def set_map by blast
  with IH show ?case by simp
qed simp

lemma move_placements_ok:
  assumes m: "migratable ids target s"
  shows "move_placements (simple_move_ids ids target s) target reason t s =
    Inr (simple_move_ids ids target s, s\<lparr>placements := update_where
      (\<lambda>p. p \<in> set (migration_sources ids s) \<and> target_by_key target s (key_id p) = None)
      (\<lambda>p. (bump t p)\<lparr>backend_node_id := target, last_migration_reason := reason\<rparr>) (placements s)\<rparr>)"
    (is "_ = Inr (?moves, s\<lparr>placements := update_where ?P ?f _\<rparr>)")
proof (cases "?moves = []")
  case True
  then have "\<not> ?P p" if "p \<in> set (placements s)" for p
    using mem_simple_moves [OF m that] by simp
  then have "update_where ?P ?f (placements s) = placements s" by (intro update_where_none)
  with True show ?thesis by (simp add: move_placements_def)
next
  case False
  have inv: "placements_inv s" using m by (simp add: migratable_def)
  have eq: "update_where (\<lambda>p. row_id p \<in> set ?moves) ?f (placements s) = update_where ?P ?f (placements s)"
    by (rule update_where_cong) (simp_all add: mem_simple_moves [OF m])
  have "filter (\<lambda>p. row_id p \<in> set ?moves) (placements s) = filter ?P (placements s)"
    by (intro filter_cong refl) (simp add: mem_simple_moves [OF m])
  also have "\<dots> = filter (\<lambda>p. target_by_key target s (key_id p) = None) (migration_sources ids s)"
    by (auto simp: migration_sources_def intro!: filter_cong)
  finally have ids: "map row_id (filter (\<lambda>p. row_id p \<in> set ?moves) (placements s)) = ?moves"
    by (simp add: simple_move_ids_def)
  have "list_all placement_ck (update_where ?P ?f (placements s))"
    using inv by (intro list_all_update_where) (auto simp: placements_inv_def placement_ck_def)
  moreover have "distinct (map placement_pair (update_where ?P ?f (placements s)))"
  proof (rule distinct_map_update_where)
    show "distinct (map placement_pair (placements s))" using inv by (simp add: placements_inv_def)
  next
    fix p q assume "?P p" "?P q" "placement_pair (?f p) = placement_pair (?f q)"
    then show "placement_pair p = placement_pair q"
      using migratable_key [OF m, of p q] by (simp add: placement_pair_def)
  next
    fix p q assume "q \<in> set (placements s)" "?P p" "\<not> ?P q"
    then show "placement_pair (?f p) \<noteq> placement_pair q"
      by (auto simp: placement_pair_def target_by_key_None)
  qed
  ultimately have "store_placements (update_where ?P ?f (placements s)) s = Inr (s\<lparr>placements := update_where ?P ?f (placements s)\<rparr>)"
    by (simp add: store_placements_Inr)
  with False show ?thesis by (simp add: move_placements_def eq ids)
qed

lemma find_source:
  assumes m: "migratable ids target s" and q: "q \<in> set (migration_sources ids s)"
  shows "find (\<lambda>q'. key_id q' = key_id q) (migration_sources ids s) = Some q"
proof (cases "find (\<lambda>q'. key_id q' = key_id q) (migration_sources ids s)")
  case None
  with q show ?thesis by (auto simp: find_None_all)
next
  case (Some q')
  with find_Some_mem [OF Some] migratable_key [OF m _ q, of q'] show ?thesis by simp
qed

lemma merge_source_eq:
  assumes m: "migratable ids target s" and p: "p \<in> set (placements s)" "backend_node_id p = target"
    and t1: "t1 = update_where (\<lambda>p. p \<in> set (migration_sources ids s) \<and> target_by_key target s (key_id p) = None)
      (\<lambda>p. (bump t p)\<lparr>backend_node_id := target, last_migration_reason := reason\<rparr>) (placements s)"
  shows "merge_source (merge_source_ids ids target s) t1 (key_id p) =
         find (\<lambda>q. key_id q = key_id p) (migration_sources ids s)"
proof -
  have has: "target_by_key target s (key_id p) \<noteq> None" using p by (auto simp: target_by_key_None)
  have mem: "row_id q \<in> set (merge_source_ids ids target s) \<and> key_id q = key_id p \<longleftrightarrow>
      q \<in> set (migration_sources ids s) \<and> key_id q = key_id p" if "q \<in> set t1" for q
  proof -
    from \<open>q \<in> set t1\<close> consider
        q' where "q' \<in> set (placements s)" "target_by_key target s (key_id q') = None"
          "q' \<in> set (migration_sources ids s)" "row_id q = row_id q'" "key_id q = key_id q'"
      | "q \<in> set (placements s)"
      by (auto simp: t1 set_update_where)
    then show ?thesis
    proof cases
      case 1
      then show ?thesis using has mem_merge_sources [OF m 1(1)] by auto
    next
      case 2
      then show ?thesis using has mem_merge_sources [OF m 2] by auto
    qed
  qed
  show ?thesis
  proof (cases "find (\<lambda>q. key_id q = key_id p) (migration_sources ids s)")
    case None
    then have "\<not> (row_id q \<in> set (merge_source_ids ids target s) \<and> key_id q = key_id p)" if "q \<in> set t1" for q
      using mem [OF that] by (auto simp: find_None_all)
    then have "find (\<lambda>q. row_id q \<in> set (merge_source_ids ids target s) \<and> key_id q = key_id p) t1 = None"
      by (simp add: find_None_all)
    with None show ?thesis by (simp add: merge_source_def)
  next
    case (Some q)
    from find_Some_mem [OF this] have q: "q \<in> set (migration_sources ids s)" "key_id q = key_id p" by simp_all
    then have "q \<in> set t1" using has by (auto simp: t1 set_update_where sources_mem)
    then have "find (\<lambda>q. row_id q \<in> set (merge_source_ids ids target s) \<and> key_id q = key_id p) t1 \<noteq> None"
      using mem [of q] q by (auto simp: find_None_all)
    then obtain q' where f: "find (\<lambda>q. row_id q \<in> set (merge_source_ids ids target s) \<and> key_id q = key_id p) t1 = Some q'"
      by auto
    from find_Some_mem [OF f] mem [of q'] have "q' \<in> set (migration_sources ids s)" "key_id q' = key_id p" by auto
    then have "q' = q" using migratable_key [OF m _ q(1), of q'] q by simp
    with f Some show ?thesis by (simp add: merge_source_def)
  qed
qed

lemma merge_source_None:
  assumes m: "migratable ids target s" and k: "target_by_key target s k = None"
    and t1: "t1 = update_where (\<lambda>p. p \<in> set (migration_sources ids s) \<and> target_by_key target s (key_id p) = None)
      (\<lambda>p. (bump t p)\<lparr>backend_node_id := target, last_migration_reason := reason\<rparr>) (placements s)"
  shows "merge_source (merge_source_ids ids target s) t1 k = None"
proof -
  have "\<not> (row_id q \<in> set (merge_source_ids ids target s) \<and> key_id q = k)" if "q \<in> set t1" for q
  proof -
    from that obtain p where p: "p \<in> set (placements s)" "row_id q = row_id p" "key_id q = key_id p"
      by (auto simp: t1 set_update_where)
    with mem_merge_sources [OF m p(1)] k show ?thesis by auto
  qed
  then show ?thesis by (simp add: merge_source_def find_None_all)
qed

lemma merge_placements_eq:
  "merge_placements merges target reason updated s =
     (let hit = (\<lambda>p. backend_node_id p = target \<and> merge_source merges (placements s) (key_id p) \<noteq> None) in
      (map row_id (filter hit (placements s)),
       s\<lparr>placements := update_where (\<lambda>p. row_id p \<in> set merges) (\<lambda>p. p\<lparr>is_active := False, updated_at := updated\<rparr>)
         (update_where hit
            (\<lambda>p. let src = the (merge_source merges (placements s) (key_id p)) in
                 (bump updated p)\<lparr>desired_state := desired_state src, sticky_until := sticky_until src,
                    last_migration_reason := reason, is_active := True\<rparr>) (placements s))\<rparr>))"
proof (cases "merges = []")
  case True
  then have "merge_source merges t k = None" for t k by (simp add: merge_source_def find_None_all)
  then show ?thesis using True by (simp add: merge_placements_def Let_def update_where_def)
next
  case False
  then show ?thesis by (simp add: merge_placements_def Let_def)
qed

lemma target_row_not_source:
  "migratable ids target s \<Longrightarrow> backend_node_id p = target \<Longrightarrow> p \<notin> set (migration_sources ids s)"
  using migratable_source by blast

lemma bulk_migrate_backend_eq:
  assumes m: "migratable ids target s"
  shows "\<exists>merged. bulk_migrate_backend ids target reason t s =
     Inr ((length (simple_move_ids ids target s) + length merged, simple_move_ids ids target s @ merged),
          s\<lparr>placements := map (migrate_row ids target reason t s) (placements s)\<rparr>) \<and>
     merged = map row_id (filter (\<lambda>p. backend_node_id p = target \<and>
                find (\<lambda>q. key_id q = key_id p) (migration_sources ids s) \<noteq> None) (placements s))"
proof (cases "migration_sources ids s = []")
  case True
  have "migrate_row ids target reason t s = id" using True by (auto simp: migrate_row_def)
  then show ?thesis using True by (simp add: bulk_migrate_backend_def simple_move_ids_def)
next
  case False
  let ?src = "migration_sources ids s" and ?T = "\<lambda>p. target_by_key target s (key_id p)"
  let ?P = "\<lambda>p. p \<in> set ?src \<and> ?T p = None"
  let ?f = "\<lambda>p. (bump t p)\<lparr>backend_node_id := target, last_migration_reason := reason\<rparr>"
  let ?mv = "\<lambda>p. if ?P p then ?f p else p"
  let ?t1 = "update_where ?P ?f (placements s)" and ?merges = "merge_source_ids ids target s"
  let ?hit = "\<lambda>p. backend_node_id p = target \<and> merge_source ?merges ?t1 (key_id p) \<noteq> None"
  let ?wants = "\<lambda>p. backend_node_id p = target \<and> find (\<lambda>q. key_id q = key_id p) ?src \<noteq> None"
  let ?mg = "\<lambda>p. let src = the (merge_source ?merges ?t1 (key_id p)) in
     (bump t p)\<lparr>desired_state := desired_state src, sticky_until := sticky_until src,
                last_migration_reason := reason, is_active := True\<rparr>"
  let ?rt = "\<lambda>p. p\<lparr>is_active := False, updated_at := t\<rparr>"
  have hit: "?hit (?mv p) \<longleftrightarrow> ?wants p" if p: "p \<in> set (placements s)" for p
  proof (cases "?P p")
    case True
    then have "\<not> ?wants p" using migratable_source [OF m, of p] by blast
    moreover have "\<not> ?hit (?mv p)"
      using True merge_source_None [OF m _ refl, where k = "key_id p" and t = t and reason = reason] by simp
    ultimately show ?thesis by blast
  next
    case False
    then have "?mv p = p" by (rule if_not_P)
    then show ?thesis
      using merge_source_eq [OF m p _ refl, where t = t and reason = reason]
      by (cases "backend_node_id p = target") simp_all
  qed
  have row: "(if row_id (if ?hit (?mv p) then ?mg (?mv p) else ?mv p) \<in> set ?merges
      then ?rt (if ?hit (?mv p) then ?mg (?mv p) else ?mv p)
      else (if ?hit (?mv p) then ?mg (?mv p) else ?mv p)) = migrate_row ids target reason t s p"
    if p: "p \<in> set (placements s)" for p
  proof (cases "p \<in> set ?src")
    case True
    then have h: "\<not> ?wants p" using migratable_source [OF m True] by simp
    show ?thesis
      unfolding hit [OF p] if_not_P [OF h] using True mem_merge_sources [OF m p] by (simp add: migrate_row_def)
  next
    case False
    then have mv: "?mv p = p" and nm: "row_id p \<notin> set ?merges" using mem_merge_sources [OF m p] by simp_all
    show ?thesis
    proof (cases "?wants p")
      case True
      then obtain q where q: "find (\<lambda>q. key_id q = key_id p) ?src = Some q" by blast
      have "merge_source ?merges ?t1 (key_id p) = Some q"
        using merge_source_eq [OF m p _ refl, where t = t and reason = reason] True q by simp
      then have "?mg p = migrate_row ids target reason t s p" using False True q by (simp add: migrate_row_def)
      moreover have "row_id (?mg p) = row_id p" by (simp add: Let_def)
      moreover have "?hit p" using hit [OF p] True unfolding mv by blast
      ultimately show ?thesis unfolding mv using nm by simp
    next
      case no: False
      then have "migrate_row ids target reason t s p = p"
        using False by (auto simp: migrate_row_def split: option.splits)
      moreover have nh: "\<not> ?hit p" using hit [OF p] no unfolding mv by blast
      ultimately show ?thesis unfolding mv if_not_P [OF nh] using nm by simp
    qed
  qed
  have "filter ?hit (map ?mv (placements s)) = map ?mv (filter ?wants (placements s))"
    unfolding filter_map comp_def by (rule arg_cong [where f = "map ?mv"]) (rule filter_cong [OF refl], erule hit)
  moreover have "map row_id (map ?mv xs) = map row_id xs" for xs by simp
  ultimately have merged: "map row_id (filter ?hit ?t1) = map row_id (filter ?wants (placements s))"
    unfolding update_where_def by simp
  have table: "update_where (\<lambda>p. row_id p \<in> set ?merges) ?rt (update_where ?hit ?mg ?t1) =
      map (migrate_row ids target reason t s) (placements s)"
    unfolding update_where_def map_map comp_def using row by (intro map_cong refl) (simp only: update_where_def)
  have "merge_placements ?merges target reason t (s\<lparr>placements := ?t1\<rparr>) =
      (map row_id (filter ?hit ?t1), s\<lparr>placements := update_where (\<lambda>p. row_id p \<in> set ?merges) ?rt (update_where ?hit ?mg ?t1)\<rparr>)"
    by (simp add: merge_placements_eq Let_def)
  also note merged
  also note table
  finally show ?thesis using False by (simp add: bulk_migrate_backend_def move_placements_ok [OF m] Let_def)
qed

lemma length_merged:
  assumes m: "migratable ids target s"
  shows "length (filter (\<lambda>p. backend_node_id p = target \<and>
            find (\<lambda>q. key_id q = key_id p) (migration_sources ids s) \<noteq> None) (placements s)) =
         length (filter (\<lambda>p. target_by_key target s (key_id p) \<noteq> None) (migration_sources ids s))"
    (is "length ?H = length ?M")
proof -
  have inv: "placements_inv s" using m by (simp add: migratable_def)
  have H: "distinct (map key_id ?H)"
  proof -
    have "distinct (map placement_pair ?H)" using inv by (simp add: placements_inv_def distinct_map_filter)
    moreover have "map placement_pair ?H = map (\<lambda>k. (k, target)) (map key_id ?H)" by (simp add: placement_pair_def)
    ultimately show ?thesis by (simp only: distinct_map)
  qed
  have M: "distinct (map key_id ?M)" using m by (simp add: migratable_def distinct_map_filter)
  have "key_id ` set ?H = key_id ` set ?M"
  proof (intro equalityI subsetI)
    fix k assume "k \<in> key_id ` set ?H"
    then obtain p where p: "p \<in> set (placements s)" "backend_node_id p = target" "k = key_id p"
        "find (\<lambda>q. key_id q = key_id p) (migration_sources ids s) \<noteq> None" by auto
    then obtain q where q: "find (\<lambda>q. key_id q = key_id p) (migration_sources ids s) = Some q" by auto
    from find_Some_mem [OF this] have mem: "q \<in> set (migration_sources ids s)" "k = key_id q" using p(3) by simp_all
    moreover have "target_by_key target s k \<noteq> None" using p(1-3) by (auto simp: target_by_key_None)
    ultimately have "q \<in> set ?M" by simp
    with mem(2) show "k \<in> key_id ` set ?M" by (simp only: imageI)
  next
    fix k assume "k \<in> key_id ` set ?M"
    then obtain q e where q: "q \<in> set (migration_sources ids s)" "k = key_id q" "target_by_key target s k = Some e" by auto
    from target_by_key_Some [OF q(3)] have e: "e \<in> set (placements s)" "k = key_id e" "backend_node_id e = target" by simp_all
    moreover have "find (\<lambda>q. key_id q = key_id e) (migration_sources ids s) \<noteq> None"
      using find_source [OF m q(1)] q(2) e(2) by simp
    ultimately have "e \<in> set ?H" by (simp del: find_None_iff)
    with e(2) show "k \<in> key_id ` set ?H" by (simp only: imageI)
  qed
  then have "card (set (map key_id ?H)) = card (set (map key_id ?M))" by (simp only: set_map)
  then show ?thesis unfolding distinct_card [OF H] distinct_card [OF M] by (simp only: length_map)
qed

lemma length_migrated:
  assumes "migratable ids target s"
  shows "length (simple_move_ids ids target s) + length (filter (\<lambda>p. backend_node_id p = target \<and>
            find (\<lambda>q. key_id q = key_id p) (migration_sources ids s) \<noteq> None) (placements s))
         = length (migration_sources ids s)"
  using sum_length_filter_compl [of "\<lambda>p. target_by_key target s (key_id p) = None" "migration_sources ids s"]
  by (simp only: length_merged [OF assms] simple_move_ids_def length_map)

lemma bulk_migrate_correct_all:
  assumes "migratable ids target s"
  shows "\<exists>announce s'. bulk_migrate_backend ids target reason t s =
           Inr ((length (migration_sources ids s), announce), s') \<and>
         (\<forall>p \<in> set (migration_sources ids s).
            (\<exists>q \<in> set (placements s'). key_id q = key_id p \<and> backend_node_id q = target \<and> is_active q \<and>
               desired_state q = desired_state p \<and> applied_state q = as_pending \<and>
               applied_version q < op_version q \<and> row_id q \<in> set announce) \<and>
            (\<forall>q \<in> set (placements s'). placement_pair q = placement_pair p \<longrightarrow> \<not> is_active q)) \<and>
         (\<forall>q \<in> set (placements s). q \<notin> set (migration_sources ids s) \<and>
            \<not> (backend_node_id q = target \<and> key_id q \<in> key_id ` set (migration_sources ids s)) \<longrightarrow>
            q \<in> set (placements s')) \<and>
         (\<forall>q \<in> set (placements s'). is_active q \<and> backend_node_id q \<noteq> target \<longrightarrow> q \<in> set (placements s)) \<and>
         vpn_keys s' = vpn_keys s"
proof -
  let ?src = "migration_sources ids s" and ?F = "migrate_row ids target reason t s"
  let ?merged = "map row_id (filter (\<lambda>p. backend_node_id p = target \<and> find (\<lambda>q. key_id q = key_id p) ?src \<noteq> None) (placements s))"
  let ?ann = "simple_move_ids ids target s @ ?merged" and ?s' = "s\<lparr>placements := map ?F (placements s)\<rparr>"
  have inv: "placements_inv s" using assms by (simp add: migratable_def)
  have eq: "bulk_migrate_backend ids target reason t s = Inr ((length ?src, ?ann), ?s')"
    using bulk_migrate_backend_eq [OF assms, where reason = reason and t = t] length_migrated [OF assms] by (simp del: find_None_iff)
  have ck: "applied_version p \<le> op_version p" if "p \<in> set (placements s)" for p
    using inv that by (simp add: placements_inv_def list_all_iff placement_ck_def)
  have on_target: "\<exists>q \<in> set (placements ?s'). key_id q = key_id p \<and> backend_node_id q = target \<and> is_active q \<and>
      desired_state q = desired_state p \<and> applied_state q = as_pending \<and> applied_version q < op_version q \<and>
      row_id q \<in> set ?ann" if p: "p \<in> set ?src" for p
  proof (cases "target_by_key target s (key_id p)")
    case None
    have mem: "p \<in> set (placements s)" "is_active p" using p by (simp_all add: sources_mem)
    have "row_id p \<in> set ?ann" using mem_simple_moves [OF assms mem(1)] p None by simp
    moreover have "?F p = (bump t p)\<lparr>backend_node_id := target, last_migration_reason := reason\<rparr>"
      using p None by (simp add: migrate_row_def)
    moreover have "?F p \<in> set (placements ?s')" using mem(1) by simp
    ultimately show ?thesis using mem(2) ck [OF mem(1)] by (intro bexI [of _ "?F p"]) simp_all
  next
    case (Some e)
    from target_by_key_Some [OF this] have e: "e \<in> set (placements s)" "key_id e = key_id p" "backend_node_id e = target" by simp_all
    have "e \<notin> set ?src" using target_row_not_source [OF assms e(3)] .
    have f: "find (\<lambda>q. key_id q = key_id e) ?src = Some p" using find_source [OF assms p] e(2) by simp
    have "?F e = (bump t e)\<lparr>desired_state := desired_state p, sticky_until := sticky_until p,
        last_migration_reason := reason, is_active := True\<rparr>"
      using \<open>e \<notin> set ?src\<close> e(3) f by (simp add: migrate_row_def)
    moreover have "row_id e \<in> set ?ann" using e f by (simp del: find_None_iff)
    moreover have "?F e \<in> set (placements ?s')" using e(1) by simp
    ultimately show ?thesis using e ck [OF e(1)] by (intro bexI [of _ "?F e"]) simp_all
  qed
  have gone: "\<not> is_active q" if p: "p \<in> set ?src" and q: "q \<in> set (placements ?s')" "placement_pair q = placement_pair p" for p q
  proof -
    obtain x where x: "x \<in> set (placements s)" "q = ?F x" using q(1) by auto
    have "x = p"
    proof (cases "placement_pair x = placement_pair q")
      case True
      with q(2) x p placements_inv_unique [OF inv x(1), of p] show ?thesis by (simp add: sources_mem)
    next
      case False
      then have "backend_node_id q = target" using x
        by (auto simp: migrate_row_def placement_pair_def split: if_splits option.splits)
      with q(2) migratable_source [OF assms p] show ?thesis by (simp add: placement_pair_def)
    qed
    with x p q(2) migratable_source [OF assms p] show ?thesis
      by (auto simp: migrate_row_def placement_pair_def split: if_splits)
  qed
  have other: "q \<in> set (placements ?s')" if q: "q \<in> set (placements s)" "q \<notin> set ?src"
    "\<not> (backend_node_id q = target \<and> key_id q \<in> key_id ` set ?src)" for q
  proof -
    have "backend_node_id q = target \<Longrightarrow> find (\<lambda>x. key_id x = key_id q) ?src = None"
      unfolding find_None_all using q(3) by (metis imageI)
    then have "?F q = q" using q(2) by (simp add: migrate_row_def)
    moreover have "?F q \<in> ?F ` set (placements s)" using q(1) by (rule imageI)
    ultimately show ?thesis by simp
  qed
  have old: "q \<in> set (placements s)" if q: "q \<in> set (placements ?s')" "is_active q" "backend_node_id q \<noteq> target" for q
  proof -
    obtain x where x: "x \<in> set (placements s)" "q = ?F x" using q(1) by auto
    then have "q = x" using q(2,3) by (auto simp: migrate_row_def split: if_splits option.splits)
    with x(1) show ?thesis by simp
  qed
  show ?thesis
  proof (intro exI [of _ ?ann] exI [of _ ?s'] conjI ballI impI)
    show "bulk_migrate_backend ids target reason t s = Inr ((length ?src, ?ann), ?s')" by (rule eq)
  next
    fix p assume "p \<in> set ?src"
    then show "\<exists>q \<in> set (placements ?s'). key_id q = key_id p \<and> backend_node_id q = target \<and> is_active q \<and>
        desired_state q = desired_state p \<and> applied_state q = as_pending \<and> applied_version q < op_version q \<and>
        row_id q \<in> set ?ann" by (rule on_target)
  next
    fix p q assume "p \<in> set ?src" "q \<in> set (placements ?s')" "placement_pair q = placement_pair p"
    then show "\<not> is_active q" by (rule gone)
  next
    fix q assume "q \<in> set (placements s)"
      "q \<notin> set ?src \<and> \<not> (backend_node_id q = target \<and> key_id q \<in> key_id ` set ?src)"
    then show "q \<in> set (placements ?s')" by (intro other) simp_all
  next
    fix q assume "q \<in> set (placements ?s')" "is_active q \<and> backend_node_id q \<noteq> target"
    then show "q \<in> set (placements s)" by (intro old) simp_all
  qed simp
qed

text \<open>C27: Migrating placements of different keys to a backend that none of them is on succeeds and loses
  nobody: afterwards each of the keys has one active placement on the target, in the state the
  source had, pending under a new version, and its id is among the ids returned for announcement;
  no source is active on its old backend any more; the rows that are neither sources nor on the
  target for one of the keys are as they were; and the count is the number of sources.\<close>

theorem bulk_migrate_correct:
  assumes "migratable ids target s"
  shows "\<exists>announce s'. bulk_migrate_backend ids target reason t s =
           Inr ((length (migration_sources ids s), announce), s') \<and>
         (\<forall>p \<in> set (migration_sources ids s).
            (\<exists>q \<in> set (placements s'). key_id q = key_id p \<and> backend_node_id q = target \<and> is_active q \<and>
               desired_state q = desired_state p \<and> applied_state q = as_pending \<and>
               applied_version q < op_version q \<and> row_id q \<in> set announce) \<and>
            (\<forall>q \<in> set (placements s'). placement_pair q = placement_pair p \<longrightarrow> \<not> is_active q)) \<and>
         (\<forall>q \<in> set (placements s). q \<notin> set (migration_sources ids s) \<and>
            \<not> (backend_node_id q = target \<and> key_id q \<in> key_id ` set (migration_sources ids s)) \<longrightarrow>
            q \<in> set (placements s'))"
  using bulk_migrate_correct_all [OF assms, of reason t] by blast

theorem bulk_migrate_correct_witness:
  "\<exists>announce s'. bulk_migrate_backend [20, 21] 3 None 5 sample_placements_db = Inr ((2, announce), s') \<and>
     (\<exists>q \<in> set (placements s'). key_id q = 8 \<and> backend_node_id q = 3 \<and> is_active q)"
proof -
  have src: "migration_sources [20, 21] sample_placements_db = [sample_placement 20 7 2, sample_placement 21 8 2]"
    by (simp add: migration_sources_def)
  then have "migratable [20, 21] 3 sample_placements_db"
    by (simp add: migratable_def sample_placements_inv)
  from bulk_migrate_correct [OF this, of None 5] show ?thesis by (force simp: src)
qed

lemma distinct_keys_same_backend:
  assumes "distinct (map placement_pair ps)" "\<forall>p \<in> set ps. backend_node_id p = b"
  shows "distinct (map key_id ps)"
proof -
  have "map placement_pair ps = map (\<lambda>k. (k, b)) (map key_id ps)"
    using assms(2) by (simp add: placement_pair_def)
  with assms(1) show ?thesis by (simp only: distinct_map)
qed

lemma migratable_same_backend:
  assumes "placements_inv s" "\<forall>p \<in> set (migration_sources ids s). backend_node_id p = b" "b \<noteq> target"
  shows "migratable ids target s"
proof -
  have "distinct (map placement_pair (migration_sources ids s))"
    using assms(1) by (simp add: placements_inv_def migration_sources_def distinct_map_filter)
  from distinct_keys_same_backend [OF this assms(2)] assms show ?thesis
    by (simp add: migratable_def list_all_iff)
qed

end
