(* ===== verification/Placement_Transport.thy ===== *)
theory Placement_Transport
  imports Placements Outbox
begin

text \<open>
  \<open>services/placements/transport.py\<close>: how a change of the placements reaches the nodes.  For
  each placement one command goes into the outbox for its backend and one for every entry that
  is assigned to the backend; the message id names the placement and its version, so the same
  version is enqueued once.
\<close>

definition build_command_payload :: "user_placement \<Rightarrow> vpn_key \<Rightarrow> uuid option \<Rightarrow> command_payload" where
  "build_command_payload p k override =
     \<lparr>cp_placement_id = row_id p, cp_key_id = key_id p,
      cp_node_id = (case override of None \<Rightarrow> backend_node_id p | Some n \<Rightarrow> n),
      cp_backend_node_id = backend_node_id p, cp_op_version = op_version p,
      cp_desired_state = desired_state p, cp_protocol = key_protocol k,
      cp_transport = key_transport k, cp_client_id = client_id k, cp_is_revoked = is_revoked k,
      cp_valid_until = valid_until k, cp_updated_at = updated_at p,
      cp_override_backend_tag = entry_routing_override_backend_tag k\<rparr>"

definition load_entries_for_backends :: "db \<Rightarrow> uuid \<Rightarrow> uuid list" where
  "load_entries_for_backends s backend =
     map eba_entry_node_id (filter (\<lambda>a. eba_backend_node_id a = backend \<and> eba_enabled a) (assignments s))"

definition command_item :: "command_payload \<Rightarrow> message_id \<Rightarrow> outbox_item" where
  "command_item c mid =
     \<lparr>oi_node_id = cp_node_id c, oi_event_type = placement_command,
      oi_aggregate_id = Some (cp_placement_id c), oi_op_version = Some (cp_op_version c),
      oi_subject = CommandsSubject (cp_node_id c), oi_payload = CommandPayload c, oi_message_id = mid\<rparr>"

definition placement_items :: "db \<Rightarrow> user_placement \<times> vpn_key \<Rightarrow> outbox_item list" where
  "placement_items s = (\<lambda>(p, k).
     command_item (build_command_payload p k None) (PlacementCommandId (row_id p) (op_version p)) #
     map (\<lambda>e. command_item (build_command_payload p k (Some e))
                (EntryPlacementCommandId (row_id p) (op_version p) e))
       (load_entries_for_backends s (backend_node_id p)))"

definition enqueue_for_placement_ids :: "time \<Rightarrow> uuid list \<Rightarrow> db \<Rightarrow> db" where
  "enqueue_for_placement_ids now ids s =
     (let rows = list_transport_rows_by_placement_ids ids s in
      if rows = [] then s
      else enqueue_many now (concat (map (placement_items s) rows)) s)"

definition enqueue_for_key_state ::
  "time \<Rightarrow> uuid \<Rightarrow> PlacementDesiredState \<Rightarrow> uuid list option \<Rightarrow> db \<Rightarrow> db" where
  "enqueue_for_key_state now key desired backends s =
     enqueue_for_placement_ids now (list_active_ids_for_key key desired backends s) s"

definition list_command_payloads_for_backend :: "uuid \<Rightarrow> db \<Rightarrow> command_payload list" where
  "list_command_payloads_for_backend node s =
     map (\<lambda>(p, k). build_command_payload p k None) (list_transport_rows_for_backend node s)"

definition list_command_payloads_for_entry :: "uuid \<Rightarrow> db \<Rightarrow> command_payload list" where
  "list_command_payloads_for_entry entry s =
     map (\<lambda>(p, k). build_command_payload p k (Some entry)) (list_transport_rows_for_entry entry s)"

section \<open>Facts about the transport\<close>

lemma enqueue_for_placement_ids_eq:
  "enqueue_for_placement_ids now ids s =
     enqueue_many now (concat (map (placement_items s) (list_transport_rows_by_placement_ids ids s))) s"
  by (simp add: enqueue_for_placement_ids_def Let_def enqueue_many_def)

lemma enqueue_for_placement_ids_frame [simp]:
  "nodes (enqueue_for_placement_ids now ids s) = nodes s"
  "routes (enqueue_for_placement_ids now ids s) = routes s"
  "placements (enqueue_for_placement_ids now ids s) = placements s"
  "agent_states (enqueue_for_placement_ids now ids s) = agent_states s"
  "vpn_keys (enqueue_for_placement_ids now ids s) = vpn_keys s"
  "assignments (enqueue_for_placement_ids now ids s) = assignments s"
  "the_node_policy (enqueue_for_placement_ids now ids s) = the_node_policy s"
  by (simp_all add: enqueue_for_placement_ids_eq)

lemma list_transport_rows_mem:
  "(p, k) \<in> set (list_transport_rows_by_placement_ids ids s) \<longleftrightarrow>
     p \<in> set (placements s) \<and> row_id p \<in> set ids \<and> is_active p \<and>
     get_by_id (key_id p) (vpn_keys s) = Some k \<and> is_active k"
  by (auto simp: list_transport_rows_by_placement_ids_def set_map_filter join_key_def
      split: option.splits if_splits)

section \<open>The commands in the outbox agree with the table\<close>

text \<open>
  What a command in the outbox says of a placement: it carries the version of its message id,
  and as long as that is the current version it says what the table says.
\<close>

definition command_agrees :: "db \<Rightarrow> uuid \<Rightarrow> int \<Rightarrow> payload \<Rightarrow> bool" where
  "command_agrees s i v pl =
     (case pl of
        CommandPayload c \<Rightarrow>
          cp_placement_id c = i \<and> cp_op_version c = v \<and> i < uuid_supply s \<and> 1 \<le> v \<and>
          list_all (\<lambda>p. row_id p = i \<longrightarrow> v \<le> op_version p \<and>
            (op_version p = v \<longrightarrow> cp_desired_state c = desired_state p \<and>
               cp_backend_node_id c = backend_node_id p \<and> cp_key_id c = key_id p)) (placements s)
      | _ \<Rightarrow> False)"

definition outbox_row_agrees :: "db \<Rightarrow> outbox_row \<Rightarrow> bool" where
  "outbox_row_agrees s r =
     (case ob_message_id r of
        PlacementCommandId i v \<Rightarrow> command_agrees s i v (ob_payload r)
      | EntryPlacementCommandId i v _ \<Rightarrow> command_agrees s i v (ob_payload r)
      | _ \<Rightarrow> True)"

definition commands_agree :: "db \<Rightarrow> bool" where
  "commands_agree s \<longleftrightarrow> list_all (outbox_row_agrees s) (outbox s)"

lemma evolves_row:
  assumes "evolves n t t'" "q \<in> set t'" "row_id q < n"
  shows "\<exists>p \<in> set t. row_le p q"
proof -
  obtain u new where u: "t' = u @ new" "list_all2 row_le t u" "list_all (\<lambda>p. n \<le> row_id p) new"
    using assms(1) evolves_split by blast
  then have q: "q \<in> set u" using assms(2,3) by (auto simp: list_all_iff)
  show ?thesis by (rule list_all2_mem_right [OF u(2) q])
qed

lemma command_agrees_evolves:
  assumes "evolves (uuid_supply s) (placements s) (placements s')" "uuid_supply s \<le> uuid_supply s'"
    "command_agrees s i v pl"
  shows "command_agrees s' i v pl"
proof -
  obtain c where pl: "pl = CommandPayload c" using assms(3) by (auto simp: command_agrees_def split: payload.splits)
  have "v \<le> op_version q \<and> (op_version q = v \<longrightarrow> cp_desired_state c = desired_state q \<and>
      cp_backend_node_id c = backend_node_id q \<and> cp_key_id c = key_id q)"
    if q: "q \<in> set (placements s')" "row_id q = i" for q
  proof -
    have "row_id q < uuid_supply s" using assms(3) q(2) by (simp add: pl command_agrees_def)
    from evolves_row [OF assms(1) q(1) this] obtain p where p: "p \<in> set (placements s)" "row_le p q" by blast
    with assms(3) q(2) show ?thesis by (auto simp: pl command_agrees_def list_all_iff row_le_def)
  qed
  with assms(2,3) show ?thesis by (auto simp: pl command_agrees_def list_all_iff)
qed

lemma commands_agree_change:
  assumes "placement_change s s'" "commands_agree s"
  shows "commands_agree s'"
  using assms command_agrees_evolves [of s s']
  by (auto simp: commands_agree_def placement_change_def outbox_row_agrees_def list_all_iff
      split: message_id.splits)

lemma enqueue_many_rows:
  "r \<in> set (outbox (enqueue_many now items s)) \<Longrightarrow>
   r \<in> set (outbox s) \<or> (\<exists>item i. item \<in> set items \<and> r = new_outbox_row now i item)"
  unfolding enqueue_many_def
proof (induction items arbitrary: s)
  case (Cons item items)
  have "r' \<in> set (outbox (enqueue_one now item s)) \<Longrightarrow> r' \<in> set (outbox s) \<or> (\<exists>i. r' = new_outbox_row now i item)" for r'
    by (auto simp: enqueue_one_def Let_def split_def split: if_splits)
  with Cons.IH [of "enqueue_one now item s"] Cons.prems show ?case by auto
qed simp

lemma outbox_row_agrees_cong:
  "placements s' = placements s \<Longrightarrow> uuid_supply s \<le> uuid_supply s' \<Longrightarrow> outbox_row_agrees s r \<Longrightarrow> outbox_row_agrees s' r"
  by (auto simp: outbox_row_agrees_def command_agrees_def split: message_id.splits payload.splits)

lemma placement_items_agree:
  assumes inv: "placements_inv s" and p: "p \<in> set (placements s)" and item: "item \<in> set (placement_items s (p, k))"
  shows "outbox_row_agrees s (new_outbox_row now i item)"
proof -
  have "q = p" if "q \<in> set (placements s)" "row_id q = row_id p" for q
    using inv that p by (auto simp: placements_inv_def intro: ids_ok_unique)
  moreover have "row_id p < uuid_supply s" "1 \<le> op_version p"
    using inv p by (auto simp: placements_inv_def below_def list_all_iff placement_ck_def)
  ultimately have "command_agrees s (row_id p) (op_version p) (CommandPayload (build_command_payload p k ov))" for ov
    by (auto simp: command_agrees_def build_command_payload_def list_all_iff)
  with item show ?thesis
    by (auto simp: placement_items_def command_item_def outbox_row_agrees_def)
qed

lemma commands_agree_enqueue:
  assumes "placements_inv s" "commands_agree s"
  shows "commands_agree (enqueue_for_placement_ids now ids s)"
  unfolding commands_agree_def list_all_iff
proof
  let ?items = "concat (map (placement_items s) (list_transport_rows_by_placement_ids ids s))"
  fix r assume r: "r \<in> set (outbox (enqueue_for_placement_ids now ids s))"
  have "outbox_row_agrees s r"
    using enqueue_many_rows [OF r [unfolded enqueue_for_placement_ids_eq]]
  proof
    assume "r \<in> set (outbox s)"
    with assms(2) show ?thesis by (simp add: commands_agree_def list_all_iff)
  next
    assume "\<exists>item i. item \<in> set ?items \<and> r = new_outbox_row now i item"
    then obtain item i p k where "item \<in> set (placement_items s (p, k))" "p \<in> set (placements s)"
      "r = new_outbox_row now i item" by (auto simp: list_transport_rows_mem)
    with placement_items_agree [OF assms(1)] show ?thesis by blast
  qed
  then show "outbox_row_agrees (enqueue_for_placement_ids now ids s) r"
    by (rule outbox_row_agrees_cong [rotated 2]) (simp_all add: enqueue_for_placement_ids_eq enqueue_many_supply)
qed

lemma publish_row_placements: "publish_row nats now r (n, s) = Inr (m, s') \<Longrightarrow> placements s' = placements s"
  by (auto simp: publish_row_def mark_failed_def mark_published_def get_or_create_def touch_command_def
      Let_def split_def split: if_splits option.splits payload.splits)

lemma publish_rows_placements: "publish_rows nats now rs (n, s) = Inr (m, s') \<Longrightarrow> placements s' = placements s"
proof (induction rs arbitrary: n s)
  case (Cons r rs)
  then obtain n' s1 where 1: "publish_row nats now r (n, s) = Inr (n', s1)" "publish_rows nats now rs (n', s1) = Inr (m, s')"
    by (auto split: sum.splits)
  with Cons.IH [OF 1(2)] publish_row_placements [OF 1(1)] show ?case by simp
qed simp

lemma publish_outbox_batch_placements:
  assumes "publish_outbox_batch nats now k s = (res, s')"
  shows "placements s' = placements s"
proof -
  obtain rows s1 where c: "claim_batch now k s = (rows, s1)" by (cases "claim_batch now k s")
  then have "placements s1 = placements s" by (auto simp: claim_batch_def Let_def split: if_splits)
  moreover have "placements s' = placements s1" if "publish_rows nats now rows (0, s1) = Inr (m, s')" for m
    using publish_rows_placements [OF that] .
  ultimately show ?thesis
    using assms by (auto simp: publish_outbox_batch_def c split: if_splits sum.splits)
qed

lemma commands_agree_publish:
  assumes "outbox_inv s" "commands_agree s" "publish_outbox_batch nats now k s = (res, s')"
  shows "commands_agree s' \<and> outbox_inv s'"
proof (cases res)
  case (Inl e)
  with assms have "s' = s" by (auto simp: publish_outbox_batch_def Let_def split: if_splits sum.splits prod.splits)
  with assms show ?thesis by simp
next
  case (Inr n)
  with assms(1,3) obtain f where
    f: "outbox s' = map (\<lambda>r. if r \<in> set (claimed_rows now k s)
                           then settle now (f (row_id r)) (claimed now r) else r) (outbox s)"
       "uuid_supply s \<le> uuid_supply s'"
    using publish_outbox_batch_outbox [of s nats now k n s'] by (auto simp: outbox_inv_def)
  have keep: "outbox_row_agrees s' (settle now x (claimed now r)) = outbox_row_agrees s' r" for x r
    by (simp add: outbox_row_agrees_def split: message_id.split)
  have "commands_agree s'"
    using assms(2) outbox_row_agrees_cong [OF publish_outbox_batch_placements [OF assms(3)] f(2)]
    by (auto simp: commands_agree_def f(1) list_all_iff keep)
  with outbox_inv_publish [OF assms(1)] assms(3) Inr show ?thesis by blast
qed

section \<open>Changes, announcements and publication, interleaved\<close>

text \<open>The last rule stands for every other writer: keys, nodes and assignments may change at any time.\<close>

inductive transport_step :: "db \<Rightarrow> db \<Rightarrow> bool" where
  change: "placement_step s s' \<Longrightarrow> transport_step s s'"
| announce: "transport_step s (enqueue_for_placement_ids now ids s)"
| publish: "publish_outbox_batch nats now k s = (res, s') \<Longrightarrow> transport_step s s'"
| elsewhere: "placements s' = placements s \<Longrightarrow> outbox s' = outbox s \<Longrightarrow>
    uuid_supply s \<le> uuid_supply s' \<Longrightarrow> transport_step s s'"

definition transport_inv :: "db \<Rightarrow> bool" where
  "transport_inv s \<longleftrightarrow> placements_inv s \<and> outbox_inv s \<and> commands_agree s"

lemma placements_inv_cong:
  "placements s' = placements s \<Longrightarrow> uuid_supply s \<le> uuid_supply s' \<Longrightarrow> placements_inv s \<Longrightarrow> placements_inv s'"
  by (auto simp: placements_inv_def intro: below_mono)

lemma outbox_inv_cong:
  "outbox s' = outbox s \<Longrightarrow> uuid_supply s \<le> uuid_supply s' \<Longrightarrow> outbox_inv s \<Longrightarrow> outbox_inv s'"
  by (auto simp: outbox_inv_def intro: below_mono)

lemma announce_outbox:
  "outbox_inv s \<Longrightarrow> outbox_inv (enqueue_for_placement_ids now ids s)"
  "uuid_supply s \<le> uuid_supply (enqueue_for_placement_ids now ids s)"
  by (simp_all add: enqueue_for_placement_ids_eq outbox_inv_enqueue_many enqueue_many_supply)

lemma publish_outbox_batch_supply:
  assumes "outbox_inv s" "publish_outbox_batch nats now k s = (res, s')"
  shows "uuid_supply s \<le> uuid_supply s'"
proof (cases res)
  case (Inl e)
  with assms show ?thesis by (auto simp: publish_outbox_batch_def Let_def split: if_splits sum.splits prod.splits)
next
  case (Inr n)
  with assms publish_outbox_batch_outbox [of s nats now k n s'] show ?thesis by (auto simp: outbox_inv_def)
qed

lemma transport_step_inv: "transport_step s s' \<Longrightarrow> transport_inv s \<Longrightarrow> transport_inv s'"
proof (induction rule: transport_step.induct)
  case (change s s')
  then have "placement_change s s'" by (auto simp: transport_inv_def intro: placement_step_change)
  with change show ?case
    by (auto simp: transport_inv_def placement_change_def intro: commands_agree_change outbox_inv_cong)
next
  case (announce s now ids)
  then show ?case
    using placements_inv_cong [of "enqueue_for_placement_ids now ids s" s]
    by (simp add: transport_inv_def commands_agree_enqueue announce_outbox)
next
  case (publish nats now k s res s')
  then have "placements_inv s" "outbox_inv s" "commands_agree s" by (simp_all add: transport_inv_def)
  with publish.hyps show ?case
    using commands_agree_publish [of s nats now k res s'] publish_outbox_batch_supply [of s nats now k res s']
      placements_inv_cong [OF publish_outbox_batch_placements [OF publish.hyps]]
    by (simp add: transport_inv_def)
next
  case (elsewhere s' s)
  then have "commands_agree s'"
    using outbox_row_agrees_cong [of s' s] by (auto simp: transport_inv_def commands_agree_def list_all_iff)
  with elsewhere show ?case
    by (simp add: transport_inv_def placements_inv_cong [of s' s] outbox_inv_cong [of s' s])
qed

interpretation transport_sm: step_invariant "\<lambda>s. s = empty_db" transport_step transport_inv
  by unfold_locales (auto simp: transport_inv_def commands_agree_def dest: transport_step_inv)

text \<open>C5: However changes of placements, announcements and publications interleave, a command in the
  outbox never contradicts the table: from an empty database on, a message for the current version
  of a placement, to its backend or to an entry, carries the desired state, the backend and the key
  that the placement has, and a message never runs ahead of the version in the table.\<close>

theorem commands_never_contradict:
  assumes "transport_step\<^sup>*\<^sup>* empty_db s" and "r \<in> set (outbox s)" and "p \<in> set (placements s)"
    and "ob_message_id r = PlacementCommandId (row_id p) v \<or>
         (\<exists>e. ob_message_id r = EntryPlacementCommandId (row_id p) v e)"
  shows "v \<le> op_version p \<and> (\<exists>c. ob_payload r = CommandPayload c \<and> cp_op_version c = v \<and>
           (v = op_version p \<longrightarrow> cp_desired_state c = desired_state p \<and>
              cp_backend_node_id c = backend_node_id p \<and> cp_key_id c = key_id p))"
proof -
  have "transport_inv s" using transport_sm.reachable_inv [OF refl assms(1)] .
  then have "outbox_row_agrees s r" using assms(2) by (simp add: transport_inv_def commands_agree_def list_all_iff)
  then have "command_agrees s (row_id p) v (ob_payload r)"
    using assms(4) by (auto simp: outbox_row_agrees_def)
  then obtain c where c: "ob_payload r = CommandPayload c" "cp_op_version c = v"
    "list_all (\<lambda>p'. row_id p' = row_id p \<longrightarrow> v \<le> op_version p' \<and>
       (op_version p' = v \<longrightarrow> cp_desired_state c = desired_state p' \<and>
          cp_backend_node_id c = backend_node_id p' \<and> cp_key_id c = key_id p')) (placements s)"
    by (cases "ob_payload r") (simp_all add: command_agrees_def)
  with assms(3) show ?thesis by (simp add: list_all_iff)
qed

definition sample_key :: "uuid \<Rightarrow> vpn_key" where
  "sample_key i =
     \<lparr>row_id = i, created_at = 0, updated_at = 0, is_active = True, key_user_id = 1,
      key_protocol = vp_vless, key_transport = vt_reality, client_id = ''c'', valid_until = 100,
      traffic_limit_mb = 1000, used_traffic_bytes = 0, is_revoked = False, subscription_id = None,
      entry_routing_override_backend_tag = None\<rparr>"

definition announced_db :: db where
  "announced_db = enqueue_for_placement_ids 6 [1000] (empty_db\<lparr>vpn_keys := [sample_key 7], uuid_supply := 1001,
     placements := [new_placement 5 1000 7 2 ds_active None None]\<rparr>)"

lemma announced_db_reached: "transport_step\<^sup>*\<^sup>* empty_db announced_db"
proof -
  let ?s0 = "empty_db\<lparr>vpn_keys := [sample_key 7]\<rparr>"
  let ?p = "new_placement 5 1000 7 2 ds_active None None"
  let ?s1 = "empty_db\<lparr>vpn_keys := [sample_key 7], uuid_supply := 1001, placements := [?p]\<rparr>"
  have "upsert_set_pending 5 7 2 ds_active None None ?s0 = Inr (?p, ?s1)"
    by (simp add: upsert_set_pending_def upsert_one_def get_by_key_and_backend_def get_one_by_def uuid4_def
        create_row_def Let_def)
  then have 1: "transport_step ?s0 ?s1" by (intro transport_step.change placement_step.upsert)
  have 0: "transport_step empty_db ?s0" by (rule transport_step.elsewhere) simp_all
  have 2: "transport_step ?s1 announced_db" unfolding announced_db_def by (rule transport_step.announce)
  from 0 1 2 show ?thesis by (meson rtranclp.rtrancl_into_rtrancl rtranclp.rtrancl_refl)
qed

lemma announced_db_sel:
  "placements announced_db = [new_placement 5 1000 7 2 ds_active None None]"
  "outbox announced_db = [new_outbox_row 6 1001 (command_item
     (build_command_payload (new_placement 5 1000 7 2 ds_active None None) (sample_key 7) None)
     (PlacementCommandId 1000 1))]"
  by (simp_all add: announced_db_def enqueue_for_placement_ids_def list_transport_rows_by_placement_ids_def
      List.map_filter_def join_key_def get_by_id_def sample_key_def placement_items_def
      load_entries_for_backends_def enqueue_many_def enqueue_one_def uuid4_def create_row_def Let_def)

theorem commands_never_contradict_witness:
  "\<exists>c. ob_payload (hd (outbox announced_db)) = CommandPayload c \<and> cp_desired_state c = ds_active \<and>
       cp_backend_node_id c = 2 \<and> cp_key_id c = 7"
  using commands_never_contradict [OF announced_db_reached, of "hd (outbox announced_db)"
      "new_placement 5 1000 7 2 ds_active None None" 1]
  by (simp add: announced_db_sel command_item_def)

lemma transport_rows_frame:
  "placements s' = placements s \<Longrightarrow> vpn_keys s' = vpn_keys s \<Longrightarrow>
   list_transport_rows_by_placement_ids ids s' = list_transport_rows_by_placement_ids ids s"
proof -
  assume "placements s' = placements s" "vpn_keys s' = vpn_keys s"
  moreover from this have "join_key s' = join_key s" by (auto simp: join_key_def)
  ultimately show ?thesis by (simp add: list_transport_rows_by_placement_ids_def)
qed

lemma placement_items_frame: "assignments s' = assignments s \<Longrightarrow> placement_items s' = placement_items s"
  by (rule ext) (simp add: placement_items_def load_entries_for_backends_def split: prod.split)



end
