(* ===== verification/Backend_Health.thy ===== *)
theory Backend_Health
  imports Entry_Pool Placement_Transport
begin

text \<open>
  \<open>services/entry/events.py\<close>: the one place through which a change of a backend's health reaches
  the entries that relay to it, as the services call it (for nodes of the role \<open>backend\<close> only);
  and the library with which each of those services is shown to keep every entry informed: what
  such a change does to the pools, and which other writes leave them alone.
\<close>

section \<open>Announcing a backend\<close>

definition announce_backend :: "int \<Rightarrow> time \<Rightarrow> vpn_node \<Rightarrow> db \<Rightarrow> db result" where
  "announce_backend port now node s =
     (if role node = ''backend''
      then case notify_backend_health_changed port now (row_id node) s of Inl e \<Rightarrow> Inl e | Inr (k, s1) \<Rightarrow> Inr s1
      else Inr s)"

lemma announce_backend_Inr: "announce_backend port now n s = Inr s' \<Longrightarrow> only_outbox s s'"
  by (auto simp: announce_backend_def split: if_splits sum.splits dest: only_outbox_notify)

section \<open>Entries stay informed\<close>

text \<open>The nodes that assignments relay to are backends.\<close>

definition backends_typed :: "db \<Rightarrow> bool" where
  "backends_typed s \<longleftrightarrow>
     (\<forall>a \<in> set (assignments s). \<forall>n. get_by_id (eba_backend_node_id a) (nodes s) = Some n \<longrightarrow> role n = ''backend'')"

definition pools_ok :: "int \<Rightarrow> db \<Rightarrow> bool" where
  "pools_ok port s \<longleftrightarrow> pools_inv port s \<and> backends_typed s"

text \<open>A write that leaves the pools alone: it adds no announcement and changes neither nodes nor assignments.\<close>

definition quiet :: "db \<Rightarrow> db \<Rightarrow> bool" where
  "quiet s s' \<longleftrightarrow>
     nodes s' = nodes s \<and> assignments s' = assignments s \<and> uuid_supply s \<le> uuid_supply s' \<and>
     (\<exists>new. outbox s' = outbox s @ new \<and>
       (\<forall>r \<in> set new. pool_of_payload (ob_payload r) = None \<and> (\<forall>e g i. ob_message_id r \<noteq> PoolChangedId e g i)))"

lemma quiet_refl [simp]: "quiet s s"
  by (simp add: quiet_def)

lemma quiet_trans: "quiet s s1 \<Longrightarrow> quiet s1 s2 \<Longrightarrow> quiet s s2"
  unfolding quiet_def by (elim conjE exE, intro conjI) (simp_all, metis Un_iff set_append)

lemma quiet_same:
  "nodes s' = nodes s \<Longrightarrow> assignments s' = assignments s \<Longrightarrow> outbox s' = outbox s \<Longrightarrow> uuid_supply s \<le> uuid_supply s' \<Longrightarrow> quiet s s'"
  by (simp add: quiet_def)

lemma quiet_enqueue_many:
  assumes "\<And>x. x \<in> set items \<Longrightarrow> pool_of_payload (oi_payload x) = None \<and> (\<forall>e g i. oi_message_id x \<noteq> PoolChangedId e g i)"
  shows "quiet s (enqueue_many now items s)"
  using assms
proof (induction items arbitrary: s)
  case (Cons x items)
  have "quiet s (enqueue_one now x s)"
    using Cons.prems [of x] by (simp add: quiet_def enqueue_one_def uuid4_def create_row_def new_outbox_row_def)
  with Cons.IH [of "enqueue_one now x s"] Cons.prems show ?case
    by (auto simp: enqueue_many_def intro: quiet_trans)
qed (simp add: enqueue_many_def)

lemma quiet_enqueue_for_placement_ids: "quiet s (enqueue_for_placement_ids now ids s)"
  by (auto simp: enqueue_for_placement_ids_def Let_def placement_items_def command_item_def
      intro!: quiet_enqueue_many)

lemma pools_sent_quiet:
  "\<forall>r \<in> set new. pool_of_payload (ob_payload r) = None \<and> (\<forall>e g i. ob_message_id r \<noteq> PoolChangedId e g i) \<Longrightarrow>
   pools_sent e new = []"
  by (induction new) (auto simp: pools_sent_def List.map_filter_simps)

lemma pools_ok_quiet:
  assumes "pools_ok port s" "quiet s s'"
  shows "pools_ok port s'"
proof -
  obtain new where q: "nodes s' = nodes s" "assignments s' = assignments s" "uuid_supply s \<le> uuid_supply s'"
    "outbox s' = outbox s @ new"
    "\<forall>r \<in> set new. pool_of_payload (ob_payload r) = None \<and> (\<forall>e g i. ob_message_id r \<noteq> PoolChangedId e g i)"
    using assms(2) by (auto simp: quiet_def)
  have pool: "get_relay_pool port e s' = get_relay_pool port e s" for e
    using q(1,2) by (intro get_relay_pool_cong) (simp_all add: require_entry_def list_by_entry_def)
  have "announced_pool e s' = announced_pool e s" for e
    by (simp add: announced_pool_def q(4) pools_sent_append pools_sent_quiet [OF q(5)])
  then have "informed port s' e" if "informed port s e" for e
    using that by (simp add: informed_def pool q(2))
  moreover have "pool_ids_drawn s'"
    unfolding pool_ids_drawn_def
  proof
    fix r assume "r \<in> set (outbox s')"
    then have "r \<in> set (outbox s) \<or> r \<in> set new" using q(4) by auto
    then show "case ob_message_id r of PoolChangedId _ _ i \<Rightarrow> i < uuid_supply s' | _ \<Rightarrow> True"
    proof
      assume "r \<in> set (outbox s)"
      then have "case ob_message_id r of PoolChangedId _ _ i \<Rightarrow> i < uuid_supply s | _ \<Rightarrow> True"
        using assms(1) by (simp add: pools_ok_def pools_inv_def pool_ids_drawn_def)
      then show ?thesis using q(3) by (simp split: message_id.splits)
    next
      assume "r \<in> set new"
      then show ?thesis using q(5) by (simp split: message_id.splits)
    qed
  qed
  ultimately show ?thesis
    using assms(1) q(1,2,3) by (auto simp: pools_ok_def pools_inv_def backends_typed_def intro: below_mono)
qed

text \<open>
  A change of one node that keeps its role and whether it exists, with the announcement if it is
  a backend: backends by the notification, other nodes because no pool shows their flags.
\<close>

lemma announce_backend_ok:
  assumes "pools_ok port s" "get_by_id i (nodes s) = Some n"
    and f: "\<And>x. row_id (f x) = row_id x" "role (f n) = role n" "is_active (f n) = is_active n"
    and "announce_backend port now n (s\<lparr>nodes := update_by_id i f (nodes s)\<rparr>) = Inr s'"
  shows "pools_ok port s'"
proof -
  let ?s1 = "s\<lparr>nodes := update_by_id i f (nodes s)\<rparr>"
  have i: "row_id n = i" using assms(2) by (simp add: get_by_id_Some)
  have typed: "backends_typed ?s1"
    using assms(1,2) f(1,2) by (auto simp: pools_ok_def backends_typed_def tbl.get_upd)
  have frame: "nodes s' = nodes ?s1" "assignments s' = assignments ?s1"
    using only_outboxD [OF announce_backend_Inr [OF assms(6)]] by simp_all
  then have typed': "backends_typed s'" using typed by (simp add: backends_typed_def)
  show ?thesis
  proof (cases "role n = ''backend''")
    case True
    then obtain k where "notify_backend_health_changed port now i ?s1 = Inr (k, s')"
      using assms(6) i by (auto simp: announce_backend_def split: sum.splits)
    moreover have "role n \<notin> set ENTRY_ROLES" "role (f n) \<notin> set ENTRY_ROLES"
      using True f(2) by (simp_all add: ENTRY_ROLES_def)
    ultimately have "pools_inv port s'"
      using backend_change_inv [of port s i n f now k s'] assms(1,2) f(1) by (simp add: pools_ok_def)
    with typed' show ?thesis by (simp add: pools_ok_def)
  next
    case False
    then have s': "s' = ?s1" using assms(6) by (simp add: announce_backend_def)
    have other: "get_by_id (eba_backend_node_id a) (nodes ?s1) = get_by_id (eba_backend_node_id a) (nodes s)"
      if "a \<in> set (assignments s)" for a
    proof -
      have "eba_backend_node_id a \<noteq> i"
        using assms(1,2) that False by (auto simp: pools_ok_def backends_typed_def)
      then show ?thesis using f(1) by (simp add: tbl.get_upd)
    qed
    have pool: "get_relay_pool port e ?s1 = get_relay_pool port e s" for e
    proof (cases "e = i")
      case False
      then show ?thesis
        using f(1) other by (intro get_relay_pool_cong) (auto simp: require_entry_def tbl.get_upd list_by_entry_def)
    next
      case True
      have "List.map_filter (relay_backend_of port ?s1) (list_by_entry e s) =
          List.map_filter (relay_backend_of port s) (list_by_entry e s)"
        unfolding List.map_filter_def using other
        by (intro map_cong filter_cong refl) (auto simp: relay_backend_of_def list_by_entry_def)
      moreover have "list_by_entry e ?s1 = list_by_entry e s" by (simp add: list_by_entry_def)
      ultimately show ?thesis
        using True assms(2) f by (simp add: get_relay_pool_def require_entry_def tbl.get_upd)
    qed
    have "informed port ?s1 e" for e
      using assms(1) pool by (simp add: pools_ok_def pools_inv_def informed_def announced_pool_def)
    moreover have "pool_ids_drawn ?s1"
      by (rule pool_ids_drawn_mono [of s]) (use assms(1) in \<open>simp_all add: pools_ok_def pools_inv_def\<close>)
    ultimately show ?thesis
      using assms(1) typed s' f(1) by (simp add: pools_ok_def pools_inv_def)
  qed
qed

section \<open>Pools and placements together\<close>

text \<open>
  The invariant that spans the components: every entry knows its pool, and no command in the
  outbox contradicts the placements.  What each kind of write needs to keep it.
\<close>

definition sys_inv :: "int \<Rightarrow> db \<Rightarrow> bool" where
  "sys_inv port s \<longleftrightarrow> pools_ok port s \<and> transport_inv s"

lemma transport_inv_enqueue:
  assumes "transport_inv s" "\<And>x. x \<in> set items \<Longrightarrow> \<exists>e g j. oi_message_id x = PoolChangedId e g j"
  shows "transport_inv (enqueue_many now items s)"
proof -
  have "outbox_row_agrees s r" if "r \<in> set (outbox (enqueue_many now items s))" for r
    using enqueue_many_rows [OF that] assms
    by (fastforce simp: transport_inv_def commands_agree_def list_all_iff outbox_row_agrees_def)
  then have "commands_agree (enqueue_many now items s)"
    unfolding commands_agree_def list_all_iff
    using outbox_row_agrees_cong [of "enqueue_many now items s" s] by (auto simp: enqueue_many_supply)
  moreover have "placements_inv (enqueue_many now items s)"
    using assms(1) placements_inv_cong [of "enqueue_many now items s" s] by (simp add: transport_inv_def enqueue_many_supply)
  ultimately show ?thesis using assms(1) by (simp add: transport_inv_def outbox_inv_enqueue_many)
qed

lemma transport_inv_elsewhere:
  "transport_inv s \<Longrightarrow> placements s' = placements s \<Longrightarrow> outbox s' = outbox s \<Longrightarrow> uuid_supply s \<le> uuid_supply s' \<Longrightarrow>
   transport_inv s'"
  by (rule transport_step_inv [OF transport_step.elsewhere])

lemma transport_inv_pool_snapshots:
  "enqueue_pool_snapshots port now es s = Inr s' \<Longrightarrow> transport_inv s \<Longrightarrow> transport_inv s'"
proof (induction es arbitrary: s)
  case (Cons e es)
  then obtain s1 where s1: "enqueue_pool_snapshot port now e s = Inr s1" "enqueue_pool_snapshots port now es s1 = Inr s'"
    by (auto split: sum.splits)
  from s1(1) obtain pool where "s1 = enqueue_many now [pool_changed_item now (uuid_supply s) e pool] (s\<lparr>uuid_supply := Suc (uuid_supply s)\<rparr>)"
    by (auto simp: enqueue_pool_snapshot_def uuid4_def split: sum.splits)
  moreover have "transport_inv (s\<lparr>uuid_supply := Suc (uuid_supply s)\<rparr>)"
    by (rule transport_inv_elsewhere [OF Cons.prems(2)]) simp_all
  ultimately have "transport_inv s1" by (auto intro!: transport_inv_enqueue simp: pool_changed_item_def)
  with Cons.IH s1(2) show ?case by blast
qed simp

lemma transport_inv_announce_backend:
  "announce_backend port now n s = Inr s' \<Longrightarrow> transport_inv s \<Longrightarrow> transport_inv s'"
  by (auto simp: announce_backend_def notify_backend_health_changed_def Let_def split: if_splits sum.splits
      intro: transport_inv_pool_snapshots)

lemma sys_inv_elsewhere:
  assumes "sys_inv port s" "nodes s' = nodes s" "assignments s' = assignments s" "placements s' = placements s"
    "outbox s' = outbox s" "uuid_supply s \<le> uuid_supply s'"
  shows "sys_inv port s'"
  using assms quiet_same [of s' s] pools_ok_quiet transport_inv_elsewhere unfolding sys_inv_def by blast

lemma sys_inv_placements:
  assumes "sys_inv port s" "placement_change s s'" "nodes s' = nodes s" "assignments s' = assignments s"
  shows "sys_inv port s'"
proof -
  have "quiet s s'" using assms(2-4) by (intro quiet_same) (simp_all add: placement_change_def)
  moreover have "transport_inv s'"
    using assms(1,2) commands_agree_change [OF assms(2)] outbox_inv_cong [of s' s]
    by (simp add: sys_inv_def transport_inv_def placement_change_def)
  ultimately show ?thesis using assms(1) by (auto simp: sys_inv_def intro: pools_ok_quiet)
qed

lemma sys_inv_enqueue_for_placement_ids: "sys_inv port s \<Longrightarrow> sys_inv port (enqueue_for_placement_ids now ids s)"
  using pools_ok_quiet [OF _ quiet_enqueue_for_placement_ids] transport_step_inv [OF transport_step.announce]
  by (simp add: sys_inv_def)

lemma sys_inv_announce_backend:
  assumes "sys_inv port s" "get_by_id i (nodes s) = Some n"
    and f: "\<And>x. row_id (f x) = row_id x" "role (f n) = role n" "is_active (f n) = is_active n"
    and s1: "nodes s1 = update_by_id i f (nodes s)" "assignments s1 = assignments s" "placements s1 = placements s"
      "outbox s1 = outbox s" "uuid_supply s1 = uuid_supply s"
    and "announce_backend port now n s1 = Inr s'"
  shows "sys_inv port s'"
proof -
  let ?s0 = "s1\<lparr>nodes := nodes s\<rparr>"
  have "sys_inv port ?s0" using assms(1) by (rule sys_inv_elsewhere) (simp_all add: s1)
  moreover have "?s0\<lparr>nodes := update_by_id i f (nodes ?s0)\<rparr> = s1" using s1(1) by simp
  ultimately have "pools_ok port s'"
    using announce_backend_ok [of port ?s0 i n f now s'] assms(2,11) f by (simp add: sys_inv_def)
  moreover have "transport_inv s1" using transport_inv_elsewhere [of s s1] assms(1) s1 by (simp add: sys_inv_def)
  ultimately show ?thesis using transport_inv_announce_backend [OF assms(11)] by (simp add: sys_inv_def)
qed

lemma bulk_migrate_frame:
  assumes "bulk_migrate_backend ids t r now s = Inr (out, s')"
  shows "nodes s' = nodes s \<and> assignments s' = assignments s"
  using assms
  by (auto simp: bulk_migrate_backend_def Let_def move_placements_def store_placements_def merge_placements_def
      split: if_splits sum.splits)

lemma sys_inv_bulk_migrate:
  assumes "sys_inv port s" "bulk_migrate_backend ids t r now s = Inr (out, s')"
  shows "sys_inv port s'"
proof -
  have "placements_inv s" using assms(1) by (simp add: sys_inv_def transport_inv_def)
  from sys_inv_placements [OF assms(1) bulk_migrate_backend_change [OF this assms(2)]] bulk_migrate_frame [OF assms(2)]
  show ?thesis by simp
qed

text \<open>The same when the announcement does not look at the role.\<close>

lemma notify_without_assignments:
  assumes "\<forall>a \<in> set (assignments s). eba_backend_node_id a \<noteq> i"
  shows "notify_backend_health_changed port now i s = Inr (0, s)"
proof -
  have "list_entry_ids_for_backend i s = []"
    using assms by (auto simp: list_entry_ids_for_backend_def filter_empty_conv)
  then show ?thesis by (simp add: notify_backend_health_changed_def)
qed

lemma sys_inv_notify:
  assumes "sys_inv port s" "get_by_id i (nodes s) = Some n"
    and f: "\<And>x. row_id (f x) = row_id x" "role (f n) = role n" "is_active (f n) = is_active n"
    and s1: "nodes s1 = update_by_id i f (nodes s)" "assignments s1 = assignments s" "placements s1 = placements s"
      "outbox s1 = outbox s" "uuid_supply s1 = uuid_supply s"
    and "notify_backend_health_changed port now i s1 = Inr (k, s')"
  shows "sys_inv port s'"
proof -
  have i: "row_id n = i" using assms(2) by (simp add: get_by_id_Some)
  have "announce_backend port now n s1 = Inr s'"
  proof (cases "role n = ''backend''")
    case True
    then show ?thesis using assms(11) i by (simp add: announce_backend_def)
  next
    case False
    then have "\<forall>a \<in> set (assignments s1). eba_backend_node_id a \<noteq> i"
      using assms(1,2) s1(2) by (auto simp: sys_inv_def pools_ok_def backends_typed_def)
    from notify_without_assignments [OF this, of port now] assms(11) False
    show ?thesis by (simp add: announce_backend_def)
  qed
  with assms(1,2) f s1 show ?thesis by (rule sys_inv_announce_backend)
qed

lemma sys_inv_pool_snapshot:
  assumes "sys_inv port s" "enqueue_pool_snapshot port now e s = Inr s'"
  shows "sys_inv port s'"
proof -
  have s': "enqueue_pool_snapshots port now [e] s = Inr s'" using assms(2) by simp
  have "pools_inv port s'"
    using assms by (intro announce_entry_inv [OF _ _ _ assms(2)]) (simp_all add: sys_inv_def pools_ok_def pools_inv_alt)
  moreover have "backends_typed s'"
    using assms(1) only_outboxD [OF only_outbox_pool_snapshot [OF assms(2)]]
    by (simp add: sys_inv_def pools_ok_def backends_typed_def)
  ultimately show ?thesis
    using assms(1) transport_inv_pool_snapshots [OF s'] by (simp add: sys_inv_def pools_ok_def)
qed

end
