(* ===== verification/Alerts.thy ===== *)
theory Alerts
  imports Repository
begin

text \<open>
  \<open>services/alerts/repository.py\<close>, \<open>services/alerts/service.py\<close> and the cleanup reconciler:
  alerts of the operators.  An alert with a deduplication key is open until it is resolved or
  dismissed; while it is fresh, a repetition counts it up instead of adding a row.  The outcome of
  the HTTP request to Telegram is a parameter.
\<close>

section \<open>AlertEventRepository\<close>

definition DEDUP_WINDOW_SEC :: int where
  "DEDUP_WINDOW_SEC = 300"

text \<open>Neither resolved nor dismissed, with this source and key.\<close>

definition open_alert :: "string \<Rightarrow> dedup_key \<Rightarrow> alert_event \<Rightarrow> bool" where
  "open_alert src k a \<longleftrightarrow> al_source a = src \<and> al_dedup_key a = Some k \<and> al_resolved_at a = None \<and> al_dismissed_at a = None"

definition find_active_by_dedup :: "time \<Rightarrow> string \<Rightarrow> dedup_key \<Rightarrow> int \<Rightarrow> db \<Rightarrow> alert_event option" where
  "find_active_by_dedup now src k window s =
     (case sort_key (\<lambda>a. - al_last_seen_at a)
             (filter (\<lambda>a. open_alert src k a \<and> al_last_seen_at a \<ge> now - usec window) (alerts s)) of
        [] \<Rightarrow> None
      | a # _ \<Rightarrow> Some a)"

definition new_alert :: "time \<Rightarrow> uuid \<Rightarrow> string \<Rightarrow> string \<Rightarrow> dedup_key option \<Rightarrow> uuid option \<Rightarrow> bool \<Rightarrow> alert_event" where
  "new_alert now i level src k entity sent =
     \<lparr>row_id = i, created_at = now, updated_at = now, is_active = True, al_level = level, al_source = src,
      al_dedup_key = k, al_entity_id = entity, al_occurrences = 1, al_last_seen_at = now, al_read_at = None,
      al_resolved_at = None, al_dismissed_at = None, al_telegram_sent_at = (if sent then Some now else None)\<rparr>"

definition insert_alert ::
  "time \<Rightarrow> string \<Rightarrow> string \<Rightarrow> dedup_key option \<Rightarrow> uuid option \<Rightarrow> bool \<Rightarrow> db \<Rightarrow> db" where
  "insert_alert now level src k entity sent s =
     (let (i, s1) = uuid4 s in s1\<lparr>alerts := create_row (new_alert now i level src k entity sent) (alerts s1)\<rparr>)"

definition bump_existing :: "time \<Rightarrow> uuid \<Rightarrow> bool \<Rightarrow> db \<Rightarrow> db" where
  "bump_existing now i sent s =
     s\<lparr>alerts := update_by_id i
         (\<lambda>a. a\<lparr>al_occurrences := al_occurrences a + 1, al_last_seen_at := now,
                al_telegram_sent_at := (if sent then Some now else al_telegram_sent_at a), updated_at := now\<rparr>)
         (alerts s)\<rparr>"

definition resolve_active :: "time \<Rightarrow> string \<Rightarrow> dedup_key \<Rightarrow> db \<Rightarrow> nat \<times> db" where
  "resolve_active now src k s =
     (length (filter (open_alert src k) (alerts s)),
      s\<lparr>alerts := update_where (open_alert src k) (\<lambda>a. a\<lparr>al_resolved_at := Some now, updated_at := now\<rparr>) (alerts s)\<rparr>)"

definition list_paginated ::
  "bool \<Rightarrow> bool \<Rightarrow> string option \<Rightarrow> string option \<Rightarrow> nat \<Rightarrow> nat \<Rightarrow> db \<Rightarrow> alert_event list \<times> nat" where
  "list_paginated unread_only active_only level src limit offset s =
     (let base = filter (\<lambda>a. (unread_only \<longrightarrow> al_read_at a = None) \<and> (active_only \<longrightarrow> al_dismissed_at a = None) \<and>
                       (truthy level \<longrightarrow> level = Some (al_level a)) \<and> (truthy src \<longrightarrow> src = Some (al_source a)))
                   (alerts s)
      in (take limit (drop offset (sort_key (\<lambda>a. - al_last_seen_at a) base)), length base))"

definition unread :: "alert_event \<Rightarrow> bool" where
  "unread a \<longleftrightarrow> al_read_at a = None \<and> al_dismissed_at a = None"

definition count_unread :: "db \<Rightarrow> nat" where
  "count_unread s = length (filter unread (alerts s))"

definition mark_read :: "time \<Rightarrow> uuid \<Rightarrow> db \<Rightarrow> bool \<times> db" where
  "mark_read now i s =
     (let hit = (\<lambda>a. row_id a = i \<and> al_read_at a = None) in
      (\<exists>a \<in> set (alerts s). hit a,
       s\<lparr>alerts := update_where hit (\<lambda>a. a\<lparr>al_read_at := Some now, updated_at := now\<rparr>) (alerts s)\<rparr>))"

definition mark_all_read :: "time \<Rightarrow> db \<Rightarrow> nat \<times> db" where
  "mark_all_read now s =
     (length (filter unread (alerts s)),
      s\<lparr>alerts := update_where unread (\<lambda>a. a\<lparr>al_read_at := Some now, updated_at := now\<rparr>) (alerts s)\<rparr>)"

definition dismiss :: "time \<Rightarrow> uuid \<Rightarrow> db \<Rightarrow> bool \<times> db" where
  "dismiss now i s =
     (let hit = (\<lambda>a. row_id a = i \<and> al_dismissed_at a = None) in
      (\<exists>a \<in> set (alerts s). hit a,
       s\<lparr>alerts := update_where hit (\<lambda>a. a\<lparr>al_dismissed_at := Some now, updated_at := now\<rparr>) (alerts s)\<rparr>))"

definition delete_older_than :: "time \<Rightarrow> db \<Rightarrow> nat \<times> db" where
  "delete_older_than cutoff s =
     (length (filter (\<lambda>a. created_at a < cutoff) (alerts s)),
      s\<lparr>alerts := delete_where (\<lambda>a. created_at a < cutoff) (alerts s)\<rparr>)"

section \<open>AlertService and the cleanup\<close>

text \<open>The request fails with an exception, or returns a status and the field \<open>ok\<close> of its body, if any.\<close>

datatype http_outcome = HttpException | HttpResponse nat "bool option"

record telegram =
  telegram_enabled :: bool
  telegram_bot_token :: "string option"
  telegram_chat_id :: "string option"
  telegram_http :: "string \<Rightarrow> http_outcome"

definition post_telegram :: "telegram \<Rightarrow> string \<Rightarrow> bool" where
  "post_telegram tg level =
     (case telegram_http tg level of
        HttpException \<Rightarrow> False
      | HttpResponse status ok \<Rightarrow> if status \<ge> 400 then False else ok \<noteq> Some False)"

definition send_alert :: "telegram \<Rightarrow> string \<Rightarrow> bool" where
  "send_alert tg level =
     (if \<not> telegram_enabled tg then False
      else if \<not> truthy (telegram_bot_token tg) \<or> \<not> truthy (telegram_chat_id tg) then False
      else post_telegram tg level)"

text \<open>The result is whether the message went out.\<close>

definition record_alert ::
  "telegram \<Rightarrow> time \<Rightarrow> string \<Rightarrow> string \<Rightarrow> dedup_key option \<Rightarrow> uuid option \<Rightarrow> bool \<Rightarrow> db \<Rightarrow> bool \<times> db" where
  "record_alert tg now level src k entity send s =
     (let sent = send \<and> send_alert tg level in
      (sent, case Option.bind k (\<lambda>k. find_active_by_dedup now src k DEDUP_WINDOW_SEC s) of
               Some a \<Rightarrow> bump_existing now (row_id a) sent s
             | None \<Rightarrow> insert_alert now level src k entity sent s))"

definition resolve_alert :: "time \<Rightarrow> string \<Rightarrow> dedup_key \<Rightarrow> db \<Rightarrow> nat \<times> db" where
  "resolve_alert now src k s = resolve_active now src k s"

definition send_probe_status_change ::
  "telegram \<Rightarrow> time \<Rightarrow> uuid \<Rightarrow> string \<Rightarrow> bool \<Rightarrow> uuid option \<Rightarrow> db \<Rightarrow> bool \<times> db" where
  "send_probe_status_change tg now node src reachable route s =
     (let k = ProbeKey src node route in
      if reachable then (send_alert tg ''info'', snd (resolve_alert now ''probe'' k s))
      else record_alert tg now ''critical'' ''probe'' (Some k) (Some node) True s)"

definition mark_read_alert :: "time \<Rightarrow> uuid \<Rightarrow> db \<Rightarrow> alert_event option \<times> db" where
  "mark_read_alert now i s = (let s1 = snd (mark_read now i s) in (get_by_id i (alerts s1), s1))"

definition dismiss_alert :: "time \<Rightarrow> uuid \<Rightarrow> db \<Rightarrow> alert_event option \<times> db" where
  "dismiss_alert now i s = (let s1 = snd (dismiss now i s) in (get_by_id i (alerts s1), s1))"

definition alerts_cleanup_tick :: "int \<Rightarrow> time \<Rightarrow> db \<Rightarrow> nat \<times> db" where
  "alerts_cleanup_tick keep_days now s = delete_older_than (now - days (max 1 keep_days)) s"

section \<open>Repetitions are counted, not repeated\<close>

text \<open>
  Two open alerts of one source and key are more than the window apart, and no alert is from the
  future of the given time.
\<close>

definition apart :: "alert_event \<Rightarrow> alert_event \<Rightarrow> bool" where
  "apart a b \<longleftrightarrow>
     (\<forall>src k. open_alert src k a \<longrightarrow> open_alert src k b \<longrightarrow>
        usec DEDUP_WINDOW_SEC < \<bar>al_last_seen_at a - al_last_seen_at b\<bar>)"

definition alerts_inv :: "time \<Rightarrow> db \<Rightarrow> bool" where
  "alerts_inv now s \<longleftrightarrow>
     ids_ok (alerts s) \<and> below (uuid_supply s) (alerts s) \<and>
     (\<forall>a \<in> set (alerts s). al_last_seen_at a \<le> now \<and> 1 \<le> al_occurrences a) \<and>
     (\<forall>a \<in> set (alerts s). \<forall>b \<in> set (alerts s). a \<noteq> b \<longrightarrow> apart a b)"

inductive alert_step :: "time \<times> db \<Rightarrow> time \<times> db \<Rightarrow> bool" where
  recorded: "now \<le> now' \<Longrightarrow> alert_step (now, s) (now', snd (record_alert tg now' level src k entity send s))"
| probed: "now \<le> now' \<Longrightarrow> alert_step (now, s) (now', snd (send_probe_status_change tg now' node src ok route s))"
| resolved: "now \<le> now' \<Longrightarrow> alert_step (now, s) (now', snd (resolve_alert now' src k s))"
| was_read: "now \<le> now' \<Longrightarrow> alert_step (now, s) (now', snd (mark_read_alert now' i s))"
| read_all: "now \<le> now' \<Longrightarrow> alert_step (now, s) (now', snd (mark_all_read now' s))"
| dismissed: "now \<le> now' \<Longrightarrow> alert_step (now, s) (now', snd (dismiss_alert now' i s))"
| cleaned: "now \<le> now' \<Longrightarrow> alert_step (now, s) (now', snd (alerts_cleanup_tick d now' s))"

text \<open>A change of rows that only closes alerts, or changes what the invariant does not look at.\<close>

lemma alerts_inv_update:
  assumes "alerts_inv now s" "now \<le> now'"
    and "\<And>a. row_id (f a) = row_id a \<and> al_last_seen_at (f a) = al_last_seen_at a \<and> al_occurrences (f a) = al_occurrences a"
    and "\<And>src k a. open_alert src k (f a) \<Longrightarrow> open_alert src k a"
  shows "alerts_inv now' (s\<lparr>alerts := update_where P f (alerts s)\<rparr>)"
proof -
  define g where "g a = (if P a then f a else a)" for a
  have set: "set (update_where P f (alerts s)) = g ` set (alerts s)"
    unfolding update_where_def g_def by (rule set_map)
  have g: "row_id (g a) = row_id a" "al_last_seen_at (g a) = al_last_seen_at a" "al_occurrences (g a) = al_occurrences a"
    "open_alert src k (g a) \<Longrightarrow> open_alert src k a" for a src k
    using assms(3) assms(4) [of src k a] by (auto simp: g_def split: if_splits)
  have "apart (g a) (g b)" if "a \<in> set (alerts s)" "b \<in> set (alerts s)" "g a \<noteq> g b" for a b
  proof -
    have "a \<noteq> b" using that by auto
    with assms(1) that have "apart a b" by (simp add: alerts_inv_def)
    then show ?thesis unfolding apart_def g(2) by (blast dest: g(4))
  qed
  moreover have "al_last_seen_at (g a) \<le> now' \<and> 1 \<le> al_occurrences (g a)" if "a \<in> set (alerts s)" for a
    using assms(1,2) that g(2,3) by (fastforce simp: alerts_inv_def)
  ultimately show ?thesis
    using assms(1,3) unfolding alerts_inv_def
    by (simp add: set ids_ok_update_where below_update_where)
qed

lemma alerts_inv_resolve: "alerts_inv now s \<Longrightarrow> now \<le> now' \<Longrightarrow> alerts_inv now' (snd (resolve_active now' src k s))"
  by (auto simp: resolve_active_def open_alert_def intro!: alerts_inv_update)

lemma find_active_Some:
  "find_active_by_dedup now src k w s = Some a \<Longrightarrow>
     a \<in> set (alerts s) \<and> open_alert src k a \<and> now - usec w \<le> al_last_seen_at a \<and>
     (\<forall>b \<in> set (alerts s). open_alert src k b \<longrightarrow> al_last_seen_at b \<le> al_last_seen_at a)"
proof -
  let ?P = "\<lambda>a. open_alert src k a \<and> al_last_seen_at a \<ge> now - usec w"
  let ?l = "sort_key (\<lambda>a. - al_last_seen_at a) (filter ?P (alerts s))"
  assume "find_active_by_dedup now src k w s = Some a"
  then obtain l where l: "?l = a # l" by (auto simp: find_active_by_dedup_def split: list.splits)
  have "a \<in> set ?l" by (simp add: l)
  then have a: "a \<in> set (alerts s)" "?P a" by auto
  have "sorted (map (\<lambda>a. - al_last_seen_at a) ?l)" by simp
  then have "\<forall>b \<in> set l. al_last_seen_at b \<le> al_last_seen_at a" unfolding l by simp
  moreover have "al_last_seen_at b \<le> al_last_seen_at a" if "b \<in> set (alerts s)" "open_alert src k b" for b
  proof (cases "?P b")
    case True
    with that have "b \<in> set ?l" by simp
    with calculation show ?thesis unfolding l by auto
  next
    case False
    with that a show ?thesis by auto
  qed
  ultimately show ?thesis using a by blast
qed

lemma find_active_None:
  "find_active_by_dedup now src k w s = None \<Longrightarrow>
     \<forall>b \<in> set (alerts s). open_alert src k b \<longrightarrow> al_last_seen_at b < now - usec w"
proof -
  assume "find_active_by_dedup now src k w s = None"
  then have "sort_key (\<lambda>a. - al_last_seen_at a)
      (filter (\<lambda>a. open_alert src k a \<and> al_last_seen_at a \<ge> now - usec w) (alerts s)) = []"
    by (auto simp: find_active_by_dedup_def split: list.splits)
  then have "set (filter (\<lambda>a. open_alert src k a \<and> al_last_seen_at a \<ge> now - usec w) (alerts s)) = {}"
    by (metis set_empty set_sort)
  then show ?thesis by (auto simp: filter_empty_conv)
qed

lemma apart_sym: "apart a b \<Longrightarrow> apart b a"
  by (auto simp: apart_def abs_minus_commute)

lemma alerts_inv_insert:
  assumes "alerts_inv now s" "now \<le> now'"
    and "\<And>key b. k = Some key \<Longrightarrow> b \<in> set (alerts s) \<Longrightarrow> open_alert src key b \<Longrightarrow>
      al_last_seen_at b < now' - usec DEDUP_WINDOW_SEC"
  shows "alerts_inv now' (insert_alert now' level src k entity sent s)"
proof -
  let ?n = "new_alert now' (uuid_supply s) level src k entity sent"
  have new: "apart ?n b" if "b \<in> set (alerts s)" for b
    unfolding apart_def
  proof (intro allI impI)
    fix src' key assume "open_alert src' key ?n" "open_alert src' key b"
    then have "al_last_seen_at b < now' - usec DEDUP_WINDOW_SEC"
      using assms(3) that by (simp add: new_alert_def open_alert_def)
    then show "usec DEDUP_WINDOW_SEC < \<bar>al_last_seen_at ?n - al_last_seen_at b\<bar>" by (simp add: new_alert_def)
  qed
  have "alerts (insert_alert now' level src k entity sent s) = create_row ?n (alerts s)"
    "uuid_supply (insert_alert now' level src k entity sent s) = Suc (uuid_supply s)"
    by (simp_all add: insert_alert_def uuid4_def)
  moreover have "row_id ?n = uuid_supply s" "al_last_seen_at ?n = now'" "al_occurrences ?n = 1"
    by (simp_all add: new_alert_def)
  moreover have "al_last_seen_at x \<le> now' \<and> 1 \<le> al_occurrences x" if "x \<in> set (alerts s)" for x
    using assms(1,2) that by (fastforce simp: alerts_inv_def)
  ultimately show ?thesis
    using assms(1) new apart_sym [OF new] unfolding alerts_inv_def
    by (simp add: ids_ok_create_fresh [of _ "uuid_supply s"] below_Suc)
qed

lemma alerts_inv_bump:
  assumes "alerts_inv now s" "now \<le> now'" "find_active_by_dedup now' src k DEDUP_WINDOW_SEC s = Some a"
  shows "alerts_inv now' (bump_existing now' (row_id a) sent s)"
proof -
  note a = find_active_Some [OF assms(3)]
  define f where "f a = a\<lparr>al_occurrences := al_occurrences a + 1, al_last_seen_at := now',
      al_telegram_sent_at := (if sent then Some now' else al_telegram_sent_at a), updated_at := now'\<rparr>" for a :: alert_event
  have sel: "row_id (f x) = row_id x" "al_last_seen_at (f x) = now'" "al_occurrences (f x) = al_occurrences x + 1"
    "open_alert src' key (f x) = open_alert src' key x" for x src' key
    by (simp_all add: f_def open_alert_def)
  have ids: "ids_ok (alerts s)" using assms(1) by (simp add: alerts_inv_def)
  have set: "set (update_by_id (row_id a) f (alerts s)) = insert (f a) (set (alerts s) - {a})"
    using set_update_by_id [OF ids] a by blast
  have far: "apart (f a) b" if "b \<in> set (alerts s)" "b \<noteq> a" for b
    unfolding apart_def
  proof (intro allI impI)
    fix src' key assume o: "open_alert src' key (f a)" "open_alert src' key b"
    then have "src' = src" "key = k" using a unfolding sel by (auto simp: open_alert_def)
    with o a that have le: "al_last_seen_at b \<le> al_last_seen_at a" by simp
    have "apart a b" using assms(1) a that by (auto simp: alerts_inv_def)
    with o(2) a \<open>src' = src\<close> \<open>key = k\<close> have "usec DEDUP_WINDOW_SEC < \<bar>al_last_seen_at a - al_last_seen_at b\<bar>"
      unfolding apart_def by blast
    moreover have "al_last_seen_at a \<le> now'" using assms(1,2) a by (auto simp: alerts_inv_def)
    ultimately show "usec DEDUP_WINDOW_SEC < \<bar>al_last_seen_at (f a) - al_last_seen_at b\<bar>" using le by (simp add: sel)
  qed
  have far': "apart x y" if "x \<in> set (alerts s)" "y \<in> set (alerts s)" "x \<noteq> y" for x y
    using assms(1) that by (simp add: alerts_inv_def)
  have old: "al_last_seen_at x \<le> now' \<and> 1 \<le> al_occurrences x" if "x \<in> set (alerts s)" for x
    using assms(1,2) that by (fastforce simp: alerts_inv_def)
  have "bump_existing now' (row_id a) sent s = s\<lparr>alerts := update_by_id (row_id a) f (alerts s)\<rparr>"
    by (simp add: bump_existing_def f_def [abs_def])
  moreover have "below (uuid_supply s) (alerts s)" using assms(1) by (simp add: alerts_inv_def)
  moreover have "1 \<le> al_occurrences (f a)" using old [of a] a by (simp add: sel)
  ultimately show ?thesis
    unfolding alerts_inv_def using ids old far far' apart_sym [OF far] by (simp add: set sel)
qed

lemma alerts_inv_record:
  assumes "alerts_inv now s" "now \<le> now'"
  shows "alerts_inv now' (snd (record_alert tg now' level src k entity send s))"
proof (cases "Option.bind k (\<lambda>k. find_active_by_dedup now' src k DEDUP_WINDOW_SEC s)")
  case None
  then have "al_last_seen_at b < now' - usec DEDUP_WINDOW_SEC"
    if "k = Some key" "b \<in> set (alerts s)" "open_alert src key b" for key b
    using that find_active_None [of now' src key DEDUP_WINDOW_SEC s] by simp
  from alerts_inv_insert [OF assms this] None show ?thesis by (simp add: record_alert_def Let_def)
next
  case (Some a)
  then obtain key where "find_active_by_dedup now' src key DEDUP_WINDOW_SEC s = Some a"
    by (cases k) auto
  from alerts_inv_bump [OF assms this] Some show ?thesis by (simp add: record_alert_def Let_def)
qed

lemma alerts_inv_step: "alert_step (now, s) (now', s') \<Longrightarrow> alerts_inv now s \<Longrightarrow> alerts_inv now' s'"
proof (induction "(now, s)" "(now', s')" rule: alert_step.induct)
  case (probed tg node src ok route)
  then show ?case
    by (cases ok) (auto simp: send_probe_status_change_def resolve_alert_def Let_def alerts_inv_record alerts_inv_resolve)
next
  case (cleaned d)
  then show ?case
    by (fastforce simp: alerts_cleanup_tick_def delete_older_than_def alerts_inv_def ids_ok_def below_def delete_where_def
        list_all_iff intro: distinct_map_filter)
qed (auto simp: resolve_alert_def alerts_inv_record alerts_inv_resolve mark_read_alert_def mark_read_def mark_all_read_def
    dismiss_alert_def dismiss_def Let_def open_alert_def intro!: alerts_inv_update)

interpretation alert_sm: step_invariant "\<lambda>c. alerts (snd c) = []" alert_step "\<lambda>c. alerts_inv (fst c) (snd c)"
  by unfold_locales (simp add: alerts_inv_def, metis alerts_inv_step prod.collapse)

text \<open>C19: No flood of alerts.  Whatever is recorded, resolved, read, dismissed and cleaned up after an empty
  table, at a clock that does not run backwards, two open alerts with the same source and
  deduplication key are more than the five minutes of the window apart.
\<close>

theorem open_alerts_apart:
  assumes "alert_step\<^sup>*\<^sup>* (t0, s) (now, s')" "alerts s = []"
    and "a \<in> set (alerts s')" "b \<in> set (alerts s')" "a \<noteq> b" "open_alert src k a" "open_alert src k b"
  shows "usec 300 < \<bar>al_last_seen_at a - al_last_seen_at b\<bar>"
proof -
  have "alerts_inv now s'" using alert_sm.reachable_inv [OF _ assms(1)] assms(2) by simp
  then have "apart a b" using assms(3-5) by (simp add: alerts_inv_def)
  then show ?thesis using assms(6,7) by (simp add: apart_def DEDUP_WINDOW_SEC_def)
qed

definition sample_telegram :: telegram where
  "sample_telegram =
     \<lparr>telegram_enabled = True, telegram_bot_token = Some ''token'', telegram_chat_id = Some ''chat'',
      telegram_http = (\<lambda>_. HttpResponse 200 (Some True))\<rparr>"

definition sample_alerts :: db where
  "sample_alerts =
     snd (record_alert sample_telegram (usec 400) ''critical'' ''node'' (Some (NodeDownKey 7)) (Some 7) True
       (snd (record_alert sample_telegram 0 ''critical'' ''node'' (Some (NodeDownKey 7)) (Some 7) True empty_db)))"

theorem open_alerts_apart_witness:
  "alert_step\<^sup>*\<^sup>* (0, empty_db) (usec 400, sample_alerts) \<and> length (alerts sample_alerts) = 2 \<and>
   list_all (open_alert ''node'' (NodeDownKey 7)) (alerts sample_alerts) \<and>
   usec 300 < \<bar>al_last_seen_at (alerts sample_alerts ! 0) - al_last_seen_at (alerts sample_alerts ! 1)\<bar>"
proof -
  let ?s1 = "snd (record_alert sample_telegram 0 ''critical'' ''node'' (Some (NodeDownKey 7)) (Some 7) True empty_db)"
  have "alert_step (0, empty_db) (0, ?s1)" by (rule alert_step.recorded) simp
  moreover have "alert_step (0, ?s1) (usec 400, sample_alerts)"
    unfolding sample_alerts_def by (rule alert_step.recorded) simp
  ultimately have steps: "alert_step\<^sup>*\<^sup>* (0, empty_db) (usec 400, sample_alerts)" by auto
  have rows: "alerts sample_alerts = [new_alert 0 (uuid_supply empty_db) ''critical'' ''node'' (Some (NodeDownKey 7)) (Some 7) True,
      new_alert (usec 400) (Suc (uuid_supply empty_db)) ''critical'' ''node'' (Some (NodeDownKey 7)) (Some 7) True]"
    by (simp add: sample_alerts_def record_alert_def insert_alert_def uuid4_def create_row_def find_active_by_dedup_def
        new_alert_def open_alert_def sample_telegram_def send_alert_def post_telegram_def DEDUP_WINDOW_SEC_def usec_def
        empty_db_def Let_def)
  have "usec 300 < \<bar>al_last_seen_at (alerts sample_alerts ! 0) - al_last_seen_at (alerts sample_alerts ! 1)\<bar>"
    by (rule open_alerts_apart [OF steps, where src = "''node''" and k = "NodeDownKey 7"])
      (simp_all add: rows new_alert_def open_alert_def empty_db_def)
  then show ?thesis using steps by (simp add: rows new_alert_def open_alert_def)
qed

end
