(* ===== verification/Node_Heartbeat.thy ===== *)
theory Node_Heartbeat
  imports Backend_Health Alerts
begin

text \<open>
  What a node agent reports about itself: \<open>handle_heartbeat\<close> and \<open>handle_sync_report\<close> of
  \<open>services/nodes/service.py\<close>, the \<open>NodeAgentStateRepository\<close> they write to, and the message
  handlers \<open>_handle_heartbeat_message\<close> and \<open>_handle_sync_report_message\<close> of
  \<open>services/nodes/agent/runtime.py\<close> around them.

  A run of unhealthy heartbeats drains a node and a run of healthy ones puts it back; the
  history-based specification at the end says exactly when.  Events for the notification
  service are values the handlers return; \<open>port\<close> is the relay port of the pool messages.
\<close>

section \<open>Messages\<close>

record heartbeat_in =
  hb_agent_version :: string
  hb_is_healthy :: bool
  hb_runtime :: heartbeat_runtime
  hb_stats :: heartbeat_stats
  hb_pool :: "heartbeat_pool option"
  hb_upstream :: "heartbeat_upstream option"
  hb_mesh :: "heartbeat_mesh option"

record sync_report_in =
  sr_synced_count :: int
  sr_config_version :: "int option"
  sr_inventory_hash :: "string option"
  sr_inventory_count :: "int option"
  sr_full_resync_completed :: "bool option"

text \<open>The second component of an event id is a Unix timestamp in seconds.\<close>

datatype notification =
    NodeDown uuid string string time nat "uuid \<times> int"
  | NodeRecovered uuid string string int "uuid \<times> int"

definition timestamp :: "time \<Rightarrow> int" where
  "timestamp t = t div 1000000"

section \<open>NodeAgentStateRepository\<close>

definition empty_details :: agent_details where
  "empty_details =
     \<lparr>d_runtime = None, d_stats = None, d_sync = None, d_pool = None, d_upstream = None, d_mesh = None, d_heartbeat = None\<rparr>"

record agent_state_create =
  sc_version :: string
  sc_healthy :: bool
  sc_last_seen :: time
  sc_last_sync :: "time option"
  sc_config_version :: "int option"
  sc_details :: agent_details

definition new_agent_state :: "time \<Rightarrow> uuid \<Rightarrow> uuid \<Rightarrow> agent_state_create \<Rightarrow> node_agent_state" where
  "new_agent_state now i node d =
     \<lparr>row_id = i, created_at = now, updated_at = now, is_active = True, nas_node_id = node,
      agent_version = sc_version d,
      last_config_version = (case sc_config_version d of None \<Rightarrow> 0 | Some v \<Rightarrow> v),
      last_sync_at = sc_last_sync d, last_seen_at = Some (sc_last_seen d), is_healthy = sc_healthy d,
      details = sc_details d\<rparr>"

text \<open>\<open>upsert\<close>: on a conflict neither \<open>last_sync_at\<close> nor \<open>last_config_version\<close> is set.\<close>

definition upsert_agent_state :: "time \<Rightarrow> uuid \<Rightarrow> agent_state_create \<Rightarrow> db \<Rightarrow> db" where
  "upsert_agent_state now node d s =
     (if agent_state_of s node = None
      then let (i, s1) = uuid4 s in s1\<lparr>agent_states := create_row (new_agent_state now i node d) (agent_states s1)\<rparr>
      else s\<lparr>agent_states := update_where (\<lambda>st. nas_node_id st = node)
               (\<lambda>st. st\<lparr>agent_version := sc_version d, is_healthy := sc_healthy d,
                        last_seen_at := Some (sc_last_seen d), details := sc_details d, updated_at := now\<rparr>)
               (agent_states s)\<rparr>)"

definition update_by_node_id :: "uuid \<Rightarrow> (node_agent_state \<Rightarrow> node_agent_state) \<Rightarrow> db \<Rightarrow> db" where
  "update_by_node_id node f s =
     s\<lparr>agent_states := update_where (\<lambda>st. nas_node_id st = node) f (agent_states s)\<rparr>"

definition clear_full_resync_required_for_node :: "time \<Rightarrow> uuid \<Rightarrow> db \<Rightarrow> db" where
  "clear_full_resync_required_for_node now node s =
     s\<lparr>identities := update_where (\<lambda>i. nai_node_id i = node)
         (\<lambda>i. i\<lparr>full_resync_required := False, updated_at := now\<rparr>) (identities s)\<rparr>"

section \<open>Heartbeats\<close>

definition effective_heartbeat_health :: "node_policy \<Rightarrow> heartbeat_in \<Rightarrow> bool" where
  "effective_heartbeat_health pol h =
     (if \<not> (hb_is_healthy h \<and> ready (hb_runtime h)) then False
      else if \<not> entry_apply_fail_unhealthy pol then True
      else let threshold = max 1 (entry_apply_fail_threshold pol) in
           if (case hb_pool h of None \<Rightarrow> False | Some p \<Rightarrow> pool_consecutive_apply_failures p \<ge> threshold) then False
           else \<not> (case hb_upstream h of
                     None \<Rightarrow> False
                   | Some u \<Rightarrow> configured u \<and> upstream_consecutive_apply_failures u \<ge> threshold))"

definition safe_int :: "int \<Rightarrow> int" where
  "safe_int i = max 0 i"

text \<open>The time of the drain is not carried over.\<close>

definition next_heartbeat_meta :: "agent_details \<Rightarrow> bool \<Rightarrow> heartbeat_meta" where
  "next_heartbeat_meta base ok =
     (let unhealthy = (case d_heartbeat base of None \<Rightarrow> 0 | Some m \<Rightarrow> safe_int (consecutive_unhealthy m));
          healthy_run = (case d_heartbeat base of None \<Rightarrow> 0 | Some m \<Rightarrow> safe_int (consecutive_healthy m));
          reason = (case Option.bind (d_heartbeat base) drain_reason of
                      None \<Rightarrow> None
                    | Some r \<Rightarrow> if py_strip r \<noteq> [] then Some r else None)
      in \<lparr>consecutive_unhealthy = (if ok then 0 else unhealthy + 1),
          consecutive_healthy = (if ok then healthy_run + 1 else 0),
          drain_reason = reason, drained_at = None\<rparr>)"

definition DRAIN_REASON_UNHEALTHY_HEARTBEAT :: string where
  "DRAIN_REASON_UNHEALTHY_HEARTBEAT = ''unhealthy_heartbeat''"

definition unhealthy_drain_threshold :: "node_policy \<Rightarrow> int" where
  "unhealthy_drain_threshold pol = max 1 (heartbeat_unhealthy_drain_threshold pol)"

definition healthy_undrain_threshold :: "node_policy \<Rightarrow> int" where
  "healthy_undrain_threshold pol = max 1 (heartbeat_healthy_undrain_threshold pol)"

text \<open>
  \<open>find_active_by_dedup\<close> is called without its required argument \<open>within_seconds\<close>; the
  \<open>TypeError\<close> is caught and logged, so no alert is written.
\<close>

definition emit_node_down_alert :: "vpn_node \<Rightarrow> time \<Rightarrow> db \<Rightarrow> db" where
  "emit_node_down_alert node now s = s"

definition emit_mesh_alert :: "vpn_node \<Rightarrow> heartbeat_mesh option \<Rightarrow> time \<Rightarrow> db \<Rightarrow> db" where
  "emit_mesh_alert node mesh now s =
     (case mesh of
        None \<Rightarrow> s
      | Some m \<Rightarrow>
          if peers_total m = 0 then s
          else if peers_healthy m \<ge> peers_total m then snd (resolve_active now ''mesh'' (MeshDegradedKey (row_id node)) s)
          else case find_active_by_dedup now ''mesh'' (MeshDegradedKey (row_id node)) DEDUP_WINDOW_SEC s of
                 Some a \<Rightarrow> bump_existing now (row_id a) False s
               | None \<Rightarrow> insert_alert now ''warning'' ''mesh'' (Some (MeshDegradedKey (row_id node))) (Some (row_id node)) False s)"

definition should_drain :: "node_policy \<Rightarrow> vpn_node \<Rightarrow> bool \<Rightarrow> heartbeat_meta \<Rightarrow> bool" where
  "should_drain pol node ok m \<longleftrightarrow>
     \<not> ok \<and> \<not> is_draining node \<and> consecutive_unhealthy m \<ge> unhealthy_drain_threshold pol"

definition should_undrain :: "node_policy \<Rightarrow> vpn_node \<Rightarrow> bool \<Rightarrow> heartbeat_meta \<Rightarrow> bool" where
  "should_undrain pol node ok m \<longleftrightarrow>
     ok \<and> is_draining node \<and> is_active node \<and> is_enabled node \<and> drain_source node \<noteq> Some ''admin'' \<and>
     drain_reason m \<in> {Some DRAIN_REASON_UNHEALTHY_HEARTBEAT, None} \<and>
     consecutive_healthy m \<ge> healthy_undrain_threshold pol"

text \<open>The two state changes: the node and its counters after them, and the events.\<close>

definition drain_by_heartbeat ::
  "int \<Rightarrow> bool \<Rightarrow> time \<Rightarrow> vpn_node \<Rightarrow> node_agent_state option \<Rightarrow> heartbeat_meta \<Rightarrow> db
   \<Rightarrow> (notification list \<times> vpn_node \<times> heartbeat_meta \<times> db) result" where
  "drain_by_heartbeat port notify now node state m s =
     (let mark = (\<lambda>n. n\<lparr>is_draining := True, drain_source := Some ''auto_heal'', updated_at := now\<rparr>);
          s1 = s\<lparr>nodes := update_by_id (row_id node) mark (nodes s)\<rparr>
      in case announce_backend port now node s1 of
           Inl e \<Rightarrow> Inl e
         | Inr s2 \<Rightarrow>
             Inr ((case Option.bind state last_seen_at of
                     Some seen \<Rightarrow>
                       if notify
                       then [NodeDown (row_id node) (node_name node) (region node) seen 0 (row_id node, timestamp now)]
                       else []
                   | None \<Rightarrow> []),
                  mark node,
                  m\<lparr>drain_reason := Some DRAIN_REASON_UNHEALTHY_HEARTBEAT, drained_at := Some now\<rparr>,
                  emit_node_down_alert node now s2))"

definition undrain_by_heartbeat ::
  "int \<Rightarrow> bool \<Rightarrow> time \<Rightarrow> vpn_node \<Rightarrow> heartbeat_meta \<Rightarrow> db
   \<Rightarrow> (notification list \<times> vpn_node \<times> heartbeat_meta \<times> db) result" where
  "undrain_by_heartbeat port notify now node m s =
     (let mark = (\<lambda>n. n\<lparr>is_draining := False, drain_source := None, updated_at := now\<rparr>);
          s1 = s\<lparr>nodes := update_by_id (row_id node) mark (nodes s)\<rparr>
      in case announce_backend port now node s1 of
           Inl e \<Rightarrow> Inl e
         | Inr s2 \<Rightarrow>
             Inr ((if notify
                   then [NodeRecovered (row_id node) (node_name node) (region node)
                           (case drained_at m of None \<Rightarrow> 0 | Some d \<Rightarrow> max 0 ((now - d) div 1000000))
                           (row_id node, timestamp (case drained_at m of None \<Rightarrow> now | Some d \<Rightarrow> d))]
                   else []),
                  mark node, m\<lparr>drain_reason := None, drained_at := None\<rparr>, s2))"

definition heartbeat_details :: "heartbeat_in \<Rightarrow> heartbeat_meta \<Rightarrow> agent_details" where
  "heartbeat_details h m =
     \<lparr>d_runtime = Some (hb_runtime h), d_stats = Some (hb_stats h), d_sync = None, d_pool = hb_pool h,
      d_upstream = hb_upstream h, d_mesh = hb_mesh h, d_heartbeat = Some m\<rparr>"

definition handle_heartbeat ::
  "int \<Rightarrow> bool \<Rightarrow> time \<Rightarrow> vpn_node \<Rightarrow> heartbeat_in \<Rightarrow> db \<Rightarrow> (notification list \<times> db) result" where
  "handle_heartbeat port notify now node h s =
     (let pol = the_node_policy s;
          ok = effective_heartbeat_health pol h;
          state = agent_state_of s (row_id node);
          m = next_heartbeat_meta (case state of None \<Rightarrow> empty_details | Some st \<Rightarrow> details st) ok
      in case (if should_drain pol node ok m then drain_by_heartbeat port notify now node state m s
               else Inr ([], node, m, s)) of
           Inl e \<Rightarrow> Inl e
         | Inr (ev1, node1, m1, s1) \<Rightarrow>
             (case (if should_undrain pol node1 ok m1 then undrain_by_heartbeat port notify now node1 m1 s1
                    else Inr ([], node1, m1, s1)) of
                Inl e \<Rightarrow> Inl e
              | Inr (ev2, node2, m2, s2) \<Rightarrow>
                  let s3 = upsert_agent_state now (row_id node)
                             \<lparr>sc_version = hb_agent_version h, sc_healthy = ok, sc_last_seen = now, sc_last_sync = None,
                              sc_config_version = None, sc_details = heartbeat_details h m2\<rparr> s2
                  in Inr (ev1 @ ev2, emit_mesh_alert node (hb_mesh h) now s3)))"

text \<open>
  The message handler: an unparsable node id and an unknown node are acknowledged and ignored;
  an error rolls the session back and the message is delivered again.
\<close>

definition handle_heartbeat_message ::
  "int \<Rightarrow> bool \<Rightarrow> time \<Rightarrow> uuid option \<Rightarrow> time \<Rightarrow> heartbeat_in \<Rightarrow> db \<Rightarrow> (notification list \<times> db) result" where
  "handle_heartbeat_message port notify now node_id emitted_at h s =
     (case Option.bind node_id (\<lambda>i. get_by_id i (nodes s)) of
        None \<Rightarrow> Inr ([], s)
      | Some node \<Rightarrow>
          (case handle_heartbeat port notify now node h s of
             Inl e \<Rightarrow> Inl e
           | Inr (ev, s1) \<Rightarrow> Inr (ev, touch_heartbeat now (row_id node) emitted_at s1)))"

section \<open>Sync reports\<close>

definition is_debounced_sync_report :: "int \<Rightarrow> node_agent_state option \<Rightarrow> sync_report_in \<Rightarrow> time \<Rightarrow> bool" where
  "is_debounced_sync_report debounce_sec state r now =
     (let debounce = max 0 debounce_sec in
      case state of
        None \<Rightarrow> False
      | Some st \<Rightarrow>
          if debounce \<le> 0 \<or> sr_config_version r = None then False
          else if Some (last_config_version st) \<noteq> sr_config_version r \<or> last_sync_at st = None then False
          else if now - the (last_sync_at st) \<ge> usec debounce then False
          else let sync = d_sync (details st) in
               map_option synced_count sync = Some (sr_synced_count r) \<and>
               Option.bind sync inventory_hash = sr_inventory_hash r \<and>
               Option.bind sync inventory_count = sr_inventory_count r \<and>
               Option.bind sync full_resync_completed = sr_full_resync_completed r)"

definition sync_of_report :: "time \<Rightarrow> sync_report_in \<Rightarrow> sync_details" where
  "sync_of_report now r =
     \<lparr>synced_count = sr_synced_count r, reported_at = now, inventory_hash = sr_inventory_hash r,
      inventory_count = sr_inventory_count r, full_resync_completed = sr_full_resync_completed r\<rparr>"

definition store_sync_report :: "time \<Rightarrow> uuid \<Rightarrow> sync_report_in \<Rightarrow> db \<Rightarrow> db" where
  "store_sync_report now node r s =
     (case agent_state_of s node of
        None \<Rightarrow> upsert_agent_state now node
          \<lparr>sc_version = ''unknown'', sc_healthy = True, sc_last_seen = now, sc_last_sync = Some now,
           sc_config_version = sr_config_version r,
           sc_details = empty_details\<lparr>d_sync := Some (sync_of_report now r)\<rparr>\<rparr> s
      | Some st0 \<Rightarrow> update_by_node_id node
          (\<lambda>st. st\<lparr>last_sync_at := Some now,
             last_config_version := (case sr_config_version r of None \<Rightarrow> last_config_version st | Some v \<Rightarrow> v),
             details := (details st0)\<lparr>d_sync := Some (sync_of_report now r)\<rparr>, updated_at := now\<rparr>) s)"

definition handle_sync_report :: "int \<Rightarrow> time \<Rightarrow> uuid \<Rightarrow> sync_report_in \<Rightarrow> db \<Rightarrow> bool \<times> db" where
  "handle_sync_report debounce_sec now node r s =
     (if is_debounced_sync_report debounce_sec (agent_state_of s node) r now then (False, s)
      else (True, clear_full_resync_required_for_node now node (store_sync_report now node r s)))"

datatype SyncReportAckStatus = ack_accepted | ack_skipped

text \<open>The acknowledgement to the agent (with its error), if one is sent; publishing it is not part of the session.\<close>

definition handle_sync_report_message ::
  "int \<Rightarrow> time \<Rightarrow> uuid option \<Rightarrow> time \<Rightarrow> sync_report_in \<Rightarrow> db \<Rightarrow> (SyncReportAckStatus \<times> string option) option \<times> db" where
  "handle_sync_report_message debounce_sec now node_id emitted_at r s =
     (case node_id of
        None \<Rightarrow> (None, s)
      | Some i \<Rightarrow>
          (case get_by_id i (nodes s) of
             None \<Rightarrow> (Some (ack_skipped, Some ''unknown_node''), s)
           | Some node \<Rightarrow>
               let (accepted, s1) = handle_sync_report debounce_sec now i r s
               in (Some (if accepted then ack_accepted else ack_skipped, None), touch_sync_report now i emitted_at s1)))"

section \<open>What a heartbeat does\<close>

lemma emit_mesh_alert_frame [simp]:
  "nodes (emit_mesh_alert n m now s) = nodes s" "agent_states (emit_mesh_alert n m now s) = agent_states s"
  "the_node_policy (emit_mesh_alert n m now s) = the_node_policy s"
  by (simp_all add: emit_mesh_alert_def resolve_active_def bump_existing_def insert_alert_def uuid4_def
      split: option.split)

lemma touch_heartbeat_frame [simp]:
  "nodes (touch_heartbeat now i t s) = nodes s" "agent_states (touch_heartbeat now i t s) = agent_states s"
  "the_node_policy (touch_heartbeat now i t s) = the_node_policy s"
  by (simp_all add: touch_heartbeat_def get_or_create_def uuid4_def Let_def split: option.split)

lemma agent_state_of_cong: "agent_states s' = agent_states s \<Longrightarrow> agent_state_of s' i = agent_state_of s i"
  by (simp add: agent_state_of_def)

lemma upsert_agent_state_frame [simp]:
  "nodes (upsert_agent_state now i d s) = nodes s" "the_node_policy (upsert_agent_state now i d s) = the_node_policy s"
  by (simp_all add: upsert_agent_state_def uuid4_def Let_def)

lemma upsert_agent_state_new:
  assumes "agent_state_of s i = None"
  shows "agent_state_of (upsert_agent_state now i d s) i = Some (new_agent_state now (uuid_supply s) i d)"
proof -
  have "find (\<lambda>st. nas_node_id st = i) (agent_states s) = None" using assms by (simp add: agent_state_of_def get_one_by_def)
  then show ?thesis
    using assms by (simp add: upsert_agent_state_def agent_state_of_def get_one_by_def uuid4_def create_row_def
        new_agent_state_def find_append_new)
qed

lemma upsert_agent_state_of:
  "\<exists>st. agent_state_of (upsert_agent_state now i d s) i = Some st \<and> details st = sc_details d \<and>
     is_healthy st = sc_healthy d \<and> last_seen_at st = Some (sc_last_seen d) \<and> agent_version st = sc_version d"
proof (cases "agent_state_of s i")
  case None
  then show ?thesis by (simp add: upsert_agent_state_new new_agent_state_def)
next
  case (Some st)
  then have f: "find (\<lambda>st. nas_node_id st = i) (agent_states s) = Some st" by (simp add: agent_state_of_def get_one_by_def)
  show ?thesis using Some
    by (simp add: upsert_agent_state_def agent_state_of_def get_one_by_def find_update_where_hit f)
qed

text \<open>
  The whole of a heartbeat on the node and its counters.  A heartbeat that drains does not
  undrain, since it is unhealthy.
\<close>

definition heartbeat_meta_of :: "uuid \<Rightarrow> db \<Rightarrow> bool \<Rightarrow> heartbeat_meta" where
  "heartbeat_meta_of i s ok =
     next_heartbeat_meta (case agent_state_of s i of None \<Rightarrow> empty_details | Some st \<Rightarrow> details st) ok"

definition node_after :: "node_policy \<Rightarrow> time \<Rightarrow> bool \<Rightarrow> heartbeat_meta \<Rightarrow> vpn_node \<Rightarrow> vpn_node" where
  "node_after pol now ok m n =
     (if should_drain pol n ok m then n\<lparr>is_draining := True, drain_source := Some ''auto_heal'', updated_at := now\<rparr>
      else if should_undrain pol n ok m then n\<lparr>is_draining := False, drain_source := None, updated_at := now\<rparr>
      else n)"

definition meta_after :: "node_policy \<Rightarrow> time \<Rightarrow> bool \<Rightarrow> heartbeat_meta \<Rightarrow> vpn_node \<Rightarrow> heartbeat_meta" where
  "meta_after pol now ok m n =
     (if should_drain pol n ok m then m\<lparr>drain_reason := Some DRAIN_REASON_UNHEALTHY_HEARTBEAT, drained_at := Some now\<rparr>
      else if should_undrain pol n ok m then m\<lparr>drain_reason := None, drained_at := None\<rparr>
      else m)"

lemma handle_heartbeat_shape:
  assumes "handle_heartbeat port notify now n h s = Inr (ev, s')" "get_by_id i (nodes s) = Some n"
    and ok: "ok = effective_heartbeat_health (the_node_policy s) h" and m: "m = heartbeat_meta_of i s ok"
    and st: "st = \<lparr>sc_version = hb_agent_version h, sc_healthy = ok, sc_last_seen = now, sc_last_sync = None,
      sc_config_version = None, sc_details = heartbeat_details h (meta_after (the_node_policy s) now ok m n)\<rparr>"
  shows "\<exists>s2. s' = emit_mesh_alert n (hb_mesh h) now (upsert_agent_state now i st s2) \<and>
      (s2 = s \<and> node_after (the_node_policy s) now ok m n = n \<or>
       (\<exists>b src. announce_backend port now n (s\<lparr>nodes := update_by_id i
            (\<lambda>n. n\<lparr>is_draining := b, drain_source := src, updated_at := now\<rparr>) (nodes s)\<rparr>) = Inr s2 \<and>
          node_after (the_node_policy s) now ok m n = n\<lparr>is_draining := b, drain_source := src, updated_at := now\<rparr>))"
proof -
  have i: "row_id n = i" using assms(2) by (simp add: get_by_id_Some)
  let ?pol = "the_node_policy s"
  have m_eq: "next_heartbeat_meta (case agent_state_of s i of None \<Rightarrow> empty_details | Some st \<Rightarrow> details st) ok = m"
    using m by (simp add: heartbeat_meta_of_def)
  show ?thesis
  proof (cases "should_drain ?pol n ok m")
    case True
    then have "\<not> ok" by (simp add: should_drain_def)
    then have no: "\<not> should_undrain p n' ok m'" for p n' m' by (simp add: should_undrain_def)
    from assms(1) True obtain s2 where
      "announce_backend port now n (s\<lparr>nodes := update_by_id i
         (\<lambda>n. n\<lparr>is_draining := True, drain_source := Some ''auto_heal'', updated_at := now\<rparr>) (nodes s)\<rparr>) = Inr s2"
      "s' = emit_mesh_alert n (hb_mesh h) now (upsert_agent_state now i st s2)"
      by (auto simp: handle_heartbeat_def Let_def i ok [symmetric] m_eq drain_by_heartbeat_def no emit_node_down_alert_def
          st meta_after_def split: sum.splits)
    then show ?thesis using True unfolding node_after_def by (intro exI [of _ s2]) auto
  next
    case no: False
    show ?thesis
    proof (cases "should_undrain ?pol n ok m")
      case True
      with assms(1) no obtain s2 where
        "announce_backend port now n (s\<lparr>nodes := update_by_id i
           (\<lambda>n. n\<lparr>is_draining := False, drain_source := None, updated_at := now\<rparr>) (nodes s)\<rparr>) = Inr s2"
        "s' = emit_mesh_alert n (hb_mesh h) now (upsert_agent_state now i st s2)"
        by (auto simp: handle_heartbeat_def Let_def i ok [symmetric] m_eq undrain_by_heartbeat_def st
            meta_after_def split: sum.splits)
      then show ?thesis using True no unfolding node_after_def by (intro exI [of _ s2]) auto
    next
      case False
      with assms(1) no have "s' = emit_mesh_alert n (hb_mesh h) now (upsert_agent_state now i st s)"
        by (simp add: handle_heartbeat_def Let_def i ok [symmetric] m_eq st meta_after_def)
      then show ?thesis using no False unfolding node_after_def by (intro exI [of _ s]) simp
    qed
  qed
qed

lemma handle_heartbeat_effect:
  assumes "handle_heartbeat port notify now n h s = Inr (ev, s')" "get_by_id i (nodes s) = Some n"
    and ok: "ok = effective_heartbeat_health (the_node_policy s) h" and m: "m = heartbeat_meta_of i s ok"
  shows "get_by_id i (nodes s') = Some (node_after (the_node_policy s) now ok m n)"
    and "\<exists>st. agent_state_of s' i = Some st \<and> is_healthy st = ok \<and> last_seen_at st = Some now \<and>
           details st = heartbeat_details h (meta_after (the_node_policy s) now ok m n)"
    and "the_node_policy s' = the_node_policy s"
proof -
  let ?pol = "the_node_policy s"
  define st where "st = \<lparr>sc_version = hb_agent_version h, sc_healthy = ok, sc_last_seen = now, sc_last_sync = None,
    sc_config_version = None, sc_details = heartbeat_details h (meta_after ?pol now ok m n)\<rparr>"
  from handle_heartbeat_shape [OF assms st_def] obtain s2 where
    s': "s' = emit_mesh_alert n (hb_mesh h) now (upsert_agent_state now i st s2)"
    and s2: "s2 = s \<and> node_after ?pol now ok m n = n \<or>
       (\<exists>b src. announce_backend port now n (s\<lparr>nodes := update_by_id i
            (\<lambda>n. n\<lparr>is_draining := b, drain_source := src, updated_at := now\<rparr>) (nodes s)\<rparr>) = Inr s2 \<and>
          node_after ?pol now ok m n = n\<lparr>is_draining := b, drain_source := src, updated_at := now\<rparr>)" by blast
  have s2': "get_by_id i (nodes s2) = Some (node_after ?pol now ok m n) \<and> the_node_policy s2 = ?pol"
    using s2
  proof
    assume "s2 = s \<and> node_after ?pol now ok m n = n"
    then show ?thesis using assms(2) by simp
  next
    assume "\<exists>b src. announce_backend port now n (s\<lparr>nodes := update_by_id i
            (\<lambda>n. n\<lparr>is_draining := b, drain_source := src, updated_at := now\<rparr>) (nodes s)\<rparr>) = Inr s2 \<and>
          node_after ?pol now ok m n = n\<lparr>is_draining := b, drain_source := src, updated_at := now\<rparr>"
    then obtain b src where ann: "announce_backend port now n (s\<lparr>nodes := update_by_id i
            (\<lambda>n. n\<lparr>is_draining := b, drain_source := src, updated_at := now\<rparr>) (nodes s)\<rparr>) = Inr s2"
      and eq: "node_after ?pol now ok m n = n\<lparr>is_draining := b, drain_source := src, updated_at := now\<rparr>" by blast
    show ?thesis using only_outboxD [OF announce_backend_Inr [OF ann]] assms(2) by (simp add: repo_simps eq)
  qed
  then show "get_by_id i (nodes s') = Some (node_after ?pol now ok m n)" "the_node_policy s' = ?pol"
    using s' by simp_all
  have "agent_state_of s' i = agent_state_of (upsert_agent_state now i st s2) i"
    unfolding s' by (rule agent_state_of_cong) simp
  then show "\<exists>st. agent_state_of s' i = Some st \<and> is_healthy st = ok \<and> last_seen_at st = Some now \<and>
      details st = heartbeat_details h (meta_after ?pol now ok m n)"
    using upsert_agent_state_of [where i = i and now = now and d = st and s = s2] by (auto simp: st_def)
qed

lemma quiet_upsert_agent_state: "quiet s (upsert_agent_state now i d s)"
  by (rule quiet_same) (simp_all add: upsert_agent_state_def uuid4_def Let_def)

lemma quiet_emit_mesh_alert: "quiet s (emit_mesh_alert n m now s)"
  by (rule quiet_same) (simp_all add: emit_mesh_alert_def resolve_active_def bump_existing_def insert_alert_def uuid4_def
      split: option.split)

lemma quiet_touch_heartbeat: "quiet s (touch_heartbeat now i t s)"
  by (rule quiet_same) (simp_all add: touch_heartbeat_def get_or_create_def uuid4_def Let_def split: option.split)

lemma handle_heartbeat_pools:
  assumes "handle_heartbeat port notify now n h s = Inr (ev, s')" "get_by_id i (nodes s) = Some n" "pools_ok port s"
  shows "pools_ok port s'"
proof -
  let ?ok = "effective_heartbeat_health (the_node_policy s) h"
  from handle_heartbeat_shape [OF assms(1,2) refl refl refl] obtain s2 d where
    s': "s' = emit_mesh_alert n (hb_mesh h) now (upsert_agent_state now i d s2)"
    and s2: "s2 = s \<or> (\<exists>b src. announce_backend port now n (s\<lparr>nodes := update_by_id i
            (\<lambda>n. n\<lparr>is_draining := b, drain_source := src, updated_at := now\<rparr>) (nodes s)\<rparr>) = Inr s2)" by blast
  have "pools_ok port s2"
    using s2
  proof
    assume "\<exists>b src. announce_backend port now n (s\<lparr>nodes := update_by_id i
            (\<lambda>n. n\<lparr>is_draining := b, drain_source := src, updated_at := now\<rparr>) (nodes s)\<rparr>) = Inr s2"
    then show ?thesis by (elim exE) (rule announce_backend_ok [OF assms(3,2)]; simp)
  qed (simp add: assms(3))
  then show ?thesis unfolding s'
    by (rule pools_ok_quiet) (rule quiet_trans [OF quiet_upsert_agent_state quiet_emit_mesh_alert])
qed

lemma heartbeat_message_pools:
  assumes "handle_heartbeat_message port notify now node t h s = Inr (ev, s')" "pools_ok port s"
  shows "pools_ok port s'"
proof (cases "Option.bind node (\<lambda>i. get_by_id i (nodes s))")
  case None
  with assms show ?thesis by (simp add: handle_heartbeat_message_def)
next
  case (Some n)
  then obtain i where i: "node = Some i" "get_by_id i (nodes s) = Some n" by (auto simp: bind_eq_Some_conv)
  with assms(1) obtain s1 where h: "handle_heartbeat port notify now n h s = Inr (ev, s1)"
    and s': "s' = touch_heartbeat now (row_id n) t s1"
    by (auto simp: handle_heartbeat_message_def split: sum.splits)
  from handle_heartbeat_pools [OF h i(2) assms(2)] show ?thesis
    unfolding s' by (rule pools_ok_quiet) (rule quiet_touch_heartbeat)
qed

section \<open>The specification by the history\<close>

text \<open>
  Whether a node should be out of service after a history of healthy and unhealthy heartbeats,
  newest first: \<open>D\<close> unhealthy ones in a row drain it, \<open>U\<close> healthy ones in a row bring it back,
  and in between it stays as it is.
\<close>

fun drained :: "int \<Rightarrow> int \<Rightarrow> bool list \<Rightarrow> bool" where
  "drained D U [] = False"
| "drained D U (b # past) =
     (if b then drained D U past \<and> int (count_leading (\<lambda>b. b) (b # past)) < U
      else drained D U past \<or> D \<le> int (count_leading Not (b # past)))"

record heartbeat_msg =
  hm_now :: time
  hm_emitted_at :: time
  hm_in :: heartbeat_in

fun run_heartbeats ::
  "int \<Rightarrow> bool \<Rightarrow> uuid \<Rightarrow> heartbeat_msg list \<Rightarrow> db \<Rightarrow> (notification list \<times> db) result" where
  "run_heartbeats port notify i [] s = Inr ([], s)"
| "run_heartbeats port notify i (x # xs) s =
     (case handle_heartbeat_message port notify (hm_now x) (Some i) (hm_emitted_at x) (hm_in x) s of
        Inl e \<Rightarrow> Inl e
      | Inr (ev, s1) \<Rightarrow>
          (case run_heartbeats port notify i xs s1 of Inl e \<Rightarrow> Inl e | Inr (ev', s2) \<Rightarrow> Inr (ev @ ev', s2)))"

definition tracks :: "node_policy \<Rightarrow> uuid \<Rightarrow> bool list \<Rightarrow> db \<Rightarrow> bool" where
  "tracks pol i bs s \<longleftrightarrow>
     (let d = drained (unhealthy_drain_threshold pol) (healthy_undrain_threshold pol) bs in
      the_node_policy s = pol \<and>
      (\<exists>n. get_by_id i (nodes s) = Some n \<and> is_active n \<and> is_enabled n \<and> is_draining n = d \<and>
           drain_source n = (if d then Some ''auto_heal'' else None)) \<and>
      (case agent_state_of s i of
         None \<Rightarrow> bs = []
       | Some st \<Rightarrow> \<exists>m. d_heartbeat (details st) = Some m \<and>
           consecutive_unhealthy m = int (count_leading Not bs) \<and>
           consecutive_healthy m = int (count_leading (\<lambda>b. b) bs) \<and>
           drain_reason m = (if d then Some DRAIN_REASON_UNHEALTHY_HEARTBEAT else None)))"

lemma tracks_meta:
  assumes "tracks pol i bs s"
  shows "consecutive_unhealthy (heartbeat_meta_of i s ok) = int (count_leading Not (ok # bs)) \<and>
    consecutive_healthy (heartbeat_meta_of i s ok) = int (count_leading (\<lambda>b. b) (ok # bs)) \<and>
    drain_reason (heartbeat_meta_of i s ok) =
      (if drained (unhealthy_drain_threshold pol) (healthy_undrain_threshold pol) bs
       then Some DRAIN_REASON_UNHEALTHY_HEARTBEAT else None)"
proof (cases "agent_state_of s i")
  case None
  with assms show ?thesis
    by (simp add: tracks_def Let_def heartbeat_meta_of_def next_heartbeat_meta_def empty_details_def)
next
  case (Some st)
  with assms obtain m where "d_heartbeat (details st) = Some m"
    "consecutive_unhealthy m = int (count_leading Not bs)" "consecutive_healthy m = int (count_leading (\<lambda>b. b) bs)"
    "drain_reason m = (if drained (unhealthy_drain_threshold pol) (healthy_undrain_threshold pol) bs
       then Some DRAIN_REASON_UNHEALTHY_HEARTBEAT else None)"
    by (auto simp: tracks_def Let_def)
  moreover have "py_strip DRAIN_REASON_UNHEALTHY_HEARTBEAT \<noteq> []"
    by (simp add: DRAIN_REASON_UNHEALTHY_HEARTBEAT_def py_strip_def is_space_def)
  ultimately show ?thesis using Some
    by (simp add: heartbeat_meta_of_def next_heartbeat_meta_def safe_int_def Let_def)
qed

lemma tracks_step:
  assumes "tracks pol i bs s" "handle_heartbeat_message port notify now (Some i) t h s = Inr (ev, s')"
  shows "tracks pol i (effective_heartbeat_health pol h # bs) s'"
proof -
  define ok where "ok = effective_heartbeat_health pol h"
  define m where "m = heartbeat_meta_of i s ok"
  have pol: "the_node_policy s = pol" using assms(1) by (simp add: tracks_def Let_def)
  obtain n where n: "get_by_id i (nodes s) = Some n" "is_active n" "is_enabled n"
    "is_draining n = drained (unhealthy_drain_threshold pol) (healthy_undrain_threshold pol) bs"
    "drain_source n = (if is_draining n then Some ''auto_heal'' else None)"
    using assms(1) by (auto simp: tracks_def Let_def)
  have i: "row_id n = i" using n(1) by (simp add: get_by_id_Some)
  obtain s1 where h: "handle_heartbeat port notify now n h s = Inr (ev, s1)" and s': "s' = touch_heartbeat now i t s1"
    using assms(2) n(1) i by (auto simp: handle_heartbeat_message_def split: sum.splits)
  have ok': "ok = effective_heartbeat_health (the_node_policy s) h" by (simp add: ok_def pol)
  note eff = handle_heartbeat_effect [OF h n(1) ok' m_def, unfolded pol]
  note meta = tracks_meta [OF assms(1), of ok, folded m_def]
  obtain st where st: "agent_state_of s1 i = Some st" "details st = heartbeat_details h (meta_after pol now ok m n)"
    using eff(2) by blast
  have st': "agent_state_of s' i = Some st" using st(1) agent_state_of_cong [of s' s1] s' by simp
  have cases: "should_drain pol n ok m \<longleftrightarrow> \<not> ok \<and> \<not> is_draining n \<and>
      unhealthy_drain_threshold pol \<le> int (count_leading Not (ok # bs))"
    "should_undrain pol n ok m \<longleftrightarrow> ok \<and> is_draining n \<and>
      healthy_undrain_threshold pol \<le> int (count_leading (\<lambda>b. b) (ok # bs))"
    using meta n by (auto simp: should_drain_def should_undrain_def)
  define D where "D = unhealthy_drain_threshold pol"
  define U where "U = healthy_undrain_threshold pol"
  note cases = cases [folded D_def U_def] and meta = meta [folded D_def U_def] and n = n [folded D_def U_def]
  have next_drained: "drained D U (ok # bs) =
      (if should_drain pol n ok m then True else if should_undrain pol n ok m then False else is_draining n)"
    unfolding cases by (cases ok; cases "is_draining n") (auto simp: n(4) not_le)
  have node: "is_active (node_after pol now ok m n)" "is_enabled (node_after pol now ok m n)"
    "is_draining (node_after pol now ok m n) = drained D U (ok # bs)"
    "drain_source (node_after pol now ok m n) = (if drained D U (ok # bs) then Some ''auto_heal'' else None)"
    unfolding next_drained using n(2,3,5) by (simp_all add: node_after_def)
  have counters: "consecutive_unhealthy (meta_after pol now ok m n) = int (count_leading Not (ok # bs))"
    "consecutive_healthy (meta_after pol now ok m n) = int (count_leading (\<lambda>b. b) (ok # bs))"
    "drain_reason (meta_after pol now ok m n) = (if drained D U (ok # bs) then Some DRAIN_REASON_UNHEALTHY_HEARTBEAT else None)"
    unfolding next_drained using meta n(4) by (simp_all add: meta_after_def)
  show ?thesis
    unfolding tracks_def Let_def ok_def [symmetric] D_def [symmetric] U_def [symmetric] st' option.case st(2) heartbeat_details_def
    using eff(1,3) node counters by (simp add: s' del: drained.simps count_leading.simps)
qed

lemma tracks_run:
  "tracks pol i bs s \<Longrightarrow> run_heartbeats port notify i xs s = Inr (ev, s') \<Longrightarrow>
   tracks pol i (rev (map (\<lambda>x. effective_heartbeat_health pol (hm_in x)) xs) @ bs) s'"
proof (induction xs arbitrary: s bs ev)
  case (Cons x xs)
  from Cons.prems(2) obtain ev1 s1 ev2 where
    "handle_heartbeat_message port notify (hm_now x) (Some i) (hm_emitted_at x) (hm_in x) s = Inr (ev1, s1)"
    "run_heartbeats port notify i xs s1 = Inr (ev2, s')"
    by (auto split: sum.splits)
  with Cons.IH [OF tracks_step [OF Cons.prems(1)]] show ?case by simp
qed simp

text \<open>C15: Heartbeats decide who serves.  For an enabled node that serves and has not reported yet, after any
  sequence of its heartbeats it is draining exactly when the history says so: the drain
  threshold of unhealthy heartbeats in a row takes it out, the undrain threshold of healthy
  ones in a row brings it back, and nothing else does either; a node drained so is marked as
  drained by the automation, never as drained by an administrator.
\<close>

theorem heartbeats_decide_drain:
  assumes "get_by_id i (nodes s) = Some n" "is_active n" "is_enabled n" "\<not> is_draining n" "drain_source n = None"
    and "agent_state_of s i = None" and "run_heartbeats port notify i xs s = Inr (ev, s')"
  shows "\<exists>n'. get_by_id i (nodes s') = Some n' \<and>
    is_draining n' = drained (unhealthy_drain_threshold (the_node_policy s)) (healthy_undrain_threshold (the_node_policy s))
       (rev (map (\<lambda>x. effective_heartbeat_health (the_node_policy s) (hm_in x)) xs)) \<and>
    drain_source n' = (if is_draining n' then Some ''auto_heal'' else None)"
proof -
  have "tracks (the_node_policy s) i [] s" using assms(1-6) by (simp add: tracks_def)
  from tracks_run [OF this assms(7)]
  have "tracks (the_node_policy s) i (rev (map (\<lambda>x. effective_heartbeat_health (the_node_policy s) (hm_in x)) xs)) s'"
    by simp
  then show ?thesis unfolding tracks_def Let_def by (elim conjE exE) (rule exI, intro conjI, assumption, assumption, simp)
qed

definition sample_heartbeat :: "bool \<Rightarrow> heartbeat_in" where
  "sample_heartbeat ok =
     \<lparr>hb_agent_version = ''1.0'', hb_is_healthy = ok, hb_runtime = \<lparr>ready = True, runtime_last_error = None\<rparr>,
      hb_stats = \<lparr>poll_count = 1, stats_applied = 1, stats_failed = 0, cpu_pct = None, mem_pct = None, bandwidth_pct = None\<rparr>,
      hb_pool = None, hb_upstream = None, hb_mesh = None\<rparr>"

definition sample_entry_node :: vpn_node where
  "sample_entry_node =
     \<lparr>row_id = 1, created_at = 0, updated_at = 0, is_active = True, node_name = ''e1'', role = ''entry'', region = ''nl'',
      public_domain = '''', reality_ip = None, internal_wg_ip = ''10.0.0.2'', node_key = Some ''k'', xray_api_port = 10085,
      auth_token_hash = '''', agent_port = 9000, is_enabled = True, is_draining = False, is_virtual = False,
      drain_source = None, capacity = 100, zone = None, upstream_node_id = None, bootstrap_token_expires_at = None,
      bootstrapped_at = None, wg_public_key = None, wg_listen_port = None\<rparr>"

definition heartbeat_db :: db where
  "heartbeat_db =
     empty_db\<lparr>nodes := [sample_entry_node],
       the_node_policy := default_node_policy\<lparr>heartbeat_unhealthy_drain_threshold := 2\<rparr>\<rparr>"

definition sample_heartbeats :: "heartbeat_msg list" where
  "sample_heartbeats =
     map (\<lambda>ok. \<lparr>hm_now = 10, hm_emitted_at = 9, hm_in = sample_heartbeat ok\<rparr>) [True, False, False]"

theorem heartbeats_decide_drain_witness:
  "\<exists>ev s' n'. run_heartbeats 443 True 1 sample_heartbeats heartbeat_db = Inr (ev, s') \<and>
     get_by_id 1 (nodes s') = Some n' \<and> is_draining n' \<and> drain_source n' = Some ''auto_heal''"
proof -
  have node: "get_by_id 1 (nodes heartbeat_db) = Some sample_entry_node"
    by (simp add: heartbeat_db_def get_by_id_def sample_entry_node_def)
  have state: "agent_state_of heartbeat_db 1 = None" by (simp add: heartbeat_db_def agent_state_of_def get_one_by_def)
  have "\<exists>ev s'. run_heartbeats 443 True 1 sample_heartbeats heartbeat_db = Inr (ev, s')"
    by (simp add: sample_heartbeats_def heartbeat_db_def sample_heartbeat_def sample_entry_node_def
        handle_heartbeat_message_def handle_heartbeat_def effective_heartbeat_health_def agent_state_of_def get_one_by_def
        get_by_id_def should_drain_def should_undrain_def next_heartbeat_meta_def empty_details_def
        unhealthy_drain_threshold_def healthy_undrain_threshold_def default_node_policy_def upsert_agent_state_def
        uuid4_def create_row_def new_agent_state_def heartbeat_details_def safe_int_def emit_mesh_alert_def
        touch_heartbeat_def get_or_create_def new_transport_state_def drain_by_heartbeat_def update_by_id_def
        announce_backend_def emit_node_down_alert_def Let_def)
  then obtain ev s' where run: "run_heartbeats 443 True 1 sample_heartbeats heartbeat_db = Inr (ev, s')" by blast
  have "is_active sample_entry_node" "is_enabled sample_entry_node" "\<not> is_draining sample_entry_node"
    "drain_source sample_entry_node = None" by (simp_all add: sample_entry_node_def)
  from heartbeats_decide_drain [OF node this state run]
  obtain n' where "get_by_id 1 (nodes s') = Some n'"
    "is_draining n' = drained 2 3 [False, False, True]" "drain_source n' = (if is_draining n' then Some ''auto_heal'' else None)"
    by (auto simp: unhealthy_drain_threshold_def healthy_undrain_threshold_def heartbeat_db_def default_node_policy_def
        sample_heartbeats_def sample_heartbeat_def effective_heartbeat_health_def)
  then show ?thesis using run by simp
qed

section \<open>Sync reports\<close>

lemma agent_state_update:
  "(\<And>st. nas_node_id (f st) = nas_node_id st) \<Longrightarrow>
   agent_state_of (update_by_node_id i f s) i = map_option f (agent_state_of s i)"
  by (simp add: agent_state_of_def update_by_node_id_def get_one_by_def find_update_where_hit)


definition sample_report :: sync_report_in where
  "sample_report =
     \<lparr>sr_synced_count = 4, sr_config_version = Some 7, sr_inventory_hash = Some ''h'', sr_inventory_count = Some 4,
      sr_full_resync_completed = Some True\<rparr>"


section \<open>What a heartbeat forgets\<close>

text \<open>A heartbeat writes the details anew without the last sync report, so the report after it is never debounced.\<close>

lemma heartbeat_forgets_sync:
  assumes "handle_heartbeat port notify now n h s = Inr (ev, s')" "get_by_id i (nodes s) = Some n"
  shows "fst (handle_sync_report d t i r s')"
proof -
  obtain st where "agent_state_of s' i = Some st" "d_sync (details st) = None"
    using handle_heartbeat_effect(2) [OF assms refl refl] by (auto simp: heartbeat_details_def)
  then show ?thesis by (simp add: handle_sync_report_def is_debounced_sync_report_def Let_def)
qed

text \<open>The heartbeat after the one that drained a node forgets when that was, so the drain cooldown ends with it.\<close>

lemma heartbeat_forgets_drain_time:
  assumes "handle_heartbeat port notify now n h s = Inr (ev, s')" "get_by_id i (nodes s) = Some n" "is_draining n"
  shows "\<exists>st m. agent_state_of s' i = Some st \<and> d_heartbeat (details st) = Some m \<and> drained_at m = None"
proof -
  let ?ok = "effective_heartbeat_health (the_node_policy s) h"
  have "drained_at (meta_after (the_node_policy s) now ?ok (heartbeat_meta_of i s ?ok) n) = None"
    using assms(3) by (simp add: meta_after_def should_drain_def heartbeat_meta_of_def next_heartbeat_meta_def Let_def)
  then show ?thesis using handle_heartbeat_effect(2) [OF assms(1,2) refl refl] by (auto simp: heartbeat_details_def)
qed

end
