(* ===== verification/Probe_Signals.thy ===== *)
theory Probe_Signals
  imports Route_Repository
begin

text \<open>
  \<open>services/probe/repository.py\<close>: what the probes measured.  Every query looks at the active
  signals, newest first; the counting loops stop at the first reachable one.
  \<open>services/probe/reconcilers/cleanup.py\<close> deletes what is older than the retention time.
\<close>

section \<open>ProbeSignalRepository\<close>

definition newest_first :: "probe_signal list \<Rightarrow> probe_signal list" where
  "newest_first = sort_key (\<lambda>p. (- ps_checked_at p, - created_at p))"

definition from_source :: "string option \<Rightarrow> probe_signal \<Rightarrow> bool" where
  "from_source src p \<longleftrightarrow> (truthy src \<longrightarrow> src = Some (ps_source p))"

definition first_row :: "'a list \<Rightarrow> 'a option" where
  "first_row xs = (case xs of [] \<Rightarrow> None | x # _ \<Rightarrow> Some x)"

definition node_signals :: "uuid \<Rightarrow> string option \<Rightarrow> db \<Rightarrow> probe_signal list" where
  "node_signals node src s =
     newest_first (filter (\<lambda>p. is_active p \<and> ps_node_id p = node \<and> ps_route_id p = None \<and> from_source src p) (signals s))"

definition get_latest_for_node :: "uuid \<Rightarrow> string option \<Rightarrow> db \<Rightarrow> probe_signal option" where
  "get_latest_for_node node src s = first_row (node_signals node src s)"

definition list_recent_for_node :: "nat \<Rightarrow> uuid \<Rightarrow> string option \<Rightarrow> db \<Rightarrow> probe_signal list" where
  "list_recent_for_node k node src s = take k (node_signals node src s)"

definition get_latest_for_route :: "uuid \<Rightarrow> string option \<Rightarrow> db \<Rightarrow> probe_signal option" where
  "get_latest_for_route route src s =
     first_row (newest_first (filter (\<lambda>p. is_active p \<and> ps_route_id p = Some route \<and> from_source src p) (signals s)))"

definition list_recent ::
  "nat \<Rightarrow> uuid option \<Rightarrow> uuid option \<Rightarrow> string option \<Rightarrow> db \<Rightarrow> probe_signal list" where
  "list_recent k node route src s =
     take k (newest_first (filter (\<lambda>p. is_active p \<and> (node \<noteq> None \<longrightarrow> node = Some (ps_node_id p)) \<and>
       (route \<noteq> None \<longrightarrow> route = ps_route_id p) \<and> from_source src p) (signals s)))"

definition backend_signals :: "uuid \<Rightarrow> string option \<Rightarrow> db \<Rightarrow> probe_signal list" where
  "backend_signals node src s =
     newest_first (filter (\<lambda>p. is_active p \<and> ps_node_id p = node \<and>
       (ps_route_id p = None \<or> ps_probe_kind p = ''synthetic_vpn'') \<and> from_source src p) (signals s))"

definition get_latest_for_backend_node :: "uuid \<Rightarrow> string option \<Rightarrow> db \<Rightarrow> probe_signal option" where
  "get_latest_for_backend_node node src s = first_row (backend_signals node src s)"

definition list_recent_for_backend_node :: "nat \<Rightarrow> uuid \<Rightarrow> string option \<Rightarrow> db \<Rightarrow> probe_signal list" where
  "list_recent_for_backend_node k node src s = take k (backend_signals node src s)"

definition get_latest_mesh_for_backend :: "uuid \<Rightarrow> db \<Rightarrow> probe_signal option" where
  "get_latest_mesh_for_backend backend s =
     first_row (newest_first (filter (\<lambda>p. is_active p \<and> ps_probe_kind p = ''synthetic_vpn'' \<and>
       (case Option.bind (ps_route_id p) (\<lambda>i. get_by_id i (routes s)) of
          None \<Rightarrow> False
        | Some r \<Rightarrow> route_node_id r = backend \<and> entry_node_id r = Some (ps_node_id p))) (signals s)))"

definition count_consecutive_route_failures :: "uuid \<Rightarrow> nat \<Rightarrow> string option \<Rightarrow> db \<Rightarrow> nat" where
  "count_consecutive_route_failures route k kind s =
     count_leading (\<lambda>p. \<not> ps_is_reachable p)
       (take k (newest_first (filter (\<lambda>p. is_active p \<and> ps_route_id p = Some route \<and>
          (kind \<noteq> None \<longrightarrow> kind = Some (ps_probe_kind p))) (signals s))))"

definition count_consecutive_node_failures :: "uuid \<Rightarrow> nat \<Rightarrow> db \<Rightarrow> nat" where
  "count_consecutive_node_failures node k s =
     count_leading (\<lambda>p. \<not> ps_is_reachable p) (take k (node_signals node None s))"

definition stats_for_window :: "time \<Rightarrow> time \<Rightarrow> db \<Rightarrow> nat \<times> nat \<times> rat option" where
  "stats_for_window from_ts to_ts s =
     (let rows = filter (\<lambda>p. from_ts \<le> ps_checked_at p \<and> ps_checked_at p < to_ts) (signals s);
          up = filter ps_is_reachable rows;
          lat = List.map_filter ps_latency_ms up
      in (length rows, length up,
          if lat = [] then None else Some (of_int (sum_list lat) / of_nat (length lat))))"

definition delete_signals_older_than :: "time \<Rightarrow> db \<Rightarrow> nat \<times> db" where
  "delete_signals_older_than cutoff s =
     (length (filter (\<lambda>p. ps_checked_at p < cutoff) (signals s)),
      s\<lparr>signals := delete_where (\<lambda>p. ps_checked_at p < cutoff) (signals s)\<rparr>)"

section \<open>ProbeSignalCleanupReconciler\<close>

definition probe_cleanup_tick :: "time \<Rightarrow> db \<Rightarrow> nat \<times> db" where
  "probe_cleanup_tick now s =
     delete_signals_older_than (now - days (max 1 (retention_days (the_probe_policy s)))) s"

section \<open>What the queries return\<close>

lemma set_newest_first [simp]: "set (newest_first xs) = set xs"
  by (simp add: newest_first_def)

lemma first_row_None [simp]: "first_row xs = None \<longleftrightarrow> xs = []"
  by (simp add: first_row_def split: list.split)

lemma newest_first_Nil [simp]: "newest_first xs = [] \<longleftrightarrow> xs = []"
  by (metis set_empty set_newest_first)

lemma first_newest:
  assumes "first_row (newest_first xs) = Some p"
  shows "p \<in> set xs" "q \<in> set xs \<Longrightarrow> ps_checked_at q \<le> ps_checked_at p"
proof -
  let ?k = "\<lambda>p. (- ps_checked_at p, - created_at p)"
  obtain ys where ys: "newest_first xs = p # ys"
    using assms by (auto simp: first_row_def split: list.splits)
  then show "p \<in> set xs" by (metis list.set_intros(1) set_newest_first)
  assume "q \<in> set xs"
  then have "q = p \<or> q \<in> set ys" using ys by (metis set_ConsD set_newest_first)
  moreover have "sorted (map ?k (p # ys))"
    by (metis newest_first_def sorted_sort_key ys)
  ultimately show "ps_checked_at q \<le> ps_checked_at p"
    by (auto simp: less_eq_prod_def less_le)
qed

lemma cleanup_keeps_recent:
  "set (signals (snd (probe_cleanup_tick now s))) =
     {p \<in> set (signals s). now - days (max 1 (retention_days (the_probe_policy s))) \<le> ps_checked_at p}"
  by (auto simp: probe_cleanup_tick_def delete_signals_older_than_def)

end
