(* ===== verification/Routing.thy ===== *)
theory Routing
  imports Route_Repository
begin

text \<open>
  \<open>services/routing/service.py\<close> and \<open>services/routing/repository.py\<close>: which backends can take a
  new placement, best first.  Ratios and scores are floats in the source and exact rationals
  here.
\<close>

definition ROUTING_TRAFFIC_WINDOW_SEC :: int where
  "ROUTING_TRAFFIC_WINDOW_SEC = 3600"

section \<open>RoutingRepository\<close>

definition recent_traffic_bytes_per_backend :: "time \<Rightarrow> int \<Rightarrow> db \<Rightarrow> (uuid \<times> int) list" where
  "recent_traffic_bytes_per_backend now window_sec s =
     (let cutoff = now - usec (max 60 window_sec);
          rows = filter (\<lambda>u. ntu_backend_node_id u \<noteq> None \<and> created_at u \<ge> cutoff) (node_traffic s)
      in map (\<lambda>b. (b, sum_list (map (\<lambda>u. ntu_bytes_in u + ntu_bytes_out u)
                   (filter (\<lambda>u. ntu_backend_node_id u = Some b) rows))))
           (remdups (List.map_filter ntu_backend_node_id rows)))"

definition active_count :: "db \<Rightarrow> uuid \<Rightarrow> nat" where
  "active_count s node =
     length (filter (\<lambda>p. is_active p \<and> desired_state p = ds_active \<and> backend_node_id p = node) (placements s))"

definition list_available_nodes ::
  "string option \<Rightarrow> uuid list \<Rightarrow> db \<Rightarrow> (vpn_node \<times> node_agent_state \<times> nat) list" where
  "list_available_nodes preferred_region exclude s =
     (let rows = List.map_filter (\<lambda>n. case agent_state_of s (row_id n) of
                    None \<Rightarrow> None | Some a \<Rightarrow> Some (n, a, active_count s (row_id n))) (nodes s);
          ok = filter (\<lambda>(n, a, c). is_active n \<and> is_enabled n \<and> \<not> is_draining n \<and>
                 role n = ''backend'' \<and> is_healthy a \<and> capacity n > 0 \<and> int c < capacity n \<and>
                 row_id n \<notin> set exclude) rows
      in if truthy preferred_region
         then sort_key (\<lambda>(n, _). if Some (region n) = preferred_region then 0 else 1 :: nat) ok
         else ok)"

section \<open>RoutingService\<close>

definition node_state_stale_after_sec :: "db \<Rightarrow> int" where
  "node_state_stale_after_sec s = max 30 (stale_after_sec (the_node_policy s))"

definition routing_is_healthy :: "db \<Rightarrow> time \<Rightarrow> node_agent_state option \<Rightarrow> bool" where
  "routing_is_healthy s now agent =
     (case agent of
        None \<Rightarrow> False
      | Some a \<Rightarrow> is_healthy a \<and>
          (case last_seen_at a of
             None \<Rightarrow> False
           | Some seen \<Rightarrow> now - seen \<le> usec (node_state_stale_after_sec s)))"

definition calc_score ::
  "vpn_node \<Rightarrow> node_agent_state option \<Rightarrow> nat \<Rightarrow> int \<Rightarrow> int \<Rightarrow> string option \<Rightarrow> rat" where
  "calc_score n agent cnt recent_bytes max_recent_bytes preferred_region =
     (let count_ratio = (if capacity n > 0 then of_nat cnt / of_int (capacity n) else 1);
          traffic_ratio = (if max_recent_bytes > 0 then of_int recent_bytes / of_int max_recent_bytes else 0);
          load_ratio = min 1 (max count_ratio traffic_ratio);
          load_weight = 1 - load_ratio;
          health_weight = (case agent of Some a \<Rightarrow> if is_healthy a then 1 else 0 | None \<Rightarrow> 0);
          region_weight = (if truthy preferred_region \<and> Some (region n) = preferred_region then 1 / 2 else 0)
      in health_weight + load_weight + region_weight)"

definition node_score :: "time \<Rightarrow> string option \<Rightarrow> db \<Rightarrow> vpn_node \<times> node_agent_state \<times> nat \<Rightarrow> rat" where
  "node_score now preferred_region s = (\<lambda>(n, a, c).
     let traffic = recent_traffic_bytes_per_backend now ROUTING_TRAFFIC_WINDOW_SEC s in
     calc_score n (Some a) c (case map_of traffic (row_id n) of None \<Rightarrow> 0 | Some v \<Rightarrow> v)
       (if traffic = [] then 0 else Max (set (map snd traffic))) preferred_region)"

definition select_nodes :: "time \<Rightarrow> string option \<Rightarrow> uuid list \<Rightarrow> db \<Rightarrow> vpn_node list" where
  "select_nodes now preferred_region exclude s =
     map fst (sort_key (\<lambda>x. - node_score now preferred_region s x)
       (filter (\<lambda>(n, a, c). routing_is_healthy s now (Some a) \<and> \<not> int c \<ge> capacity n)
         (list_available_nodes preferred_region exclude s)))"

section \<open>What is selected\<close>

definition routable :: "time \<Rightarrow> uuid list \<Rightarrow> db \<Rightarrow> vpn_node \<Rightarrow> bool" where
  "routable now exclude s n \<longleftrightarrow>
     n \<in> set (nodes s) \<and> node_available n \<and> role n = ''backend'' \<and> row_id n \<notin> set exclude \<and>
     routing_is_healthy s now (agent_state_of s (row_id n)) \<and>
     int (active_count s (row_id n)) < capacity n"

lemma set_list_available_nodes:
  "(n, a, c) \<in> set (list_available_nodes pr ex s) \<longleftrightarrow>
     n \<in> set (nodes s) \<and> agent_state_of s (row_id n) = Some a \<and> c = active_count s (row_id n) \<and>
     node_available n \<and> role n = ''backend'' \<and> is_healthy a \<and> capacity n > 0 \<and> int c < capacity n \<and>
     row_id n \<notin> set ex"
  by (auto simp: list_available_nodes_def Let_def set_map_filter node_available_def
      split: if_splits option.splits)

lemma load_weight_bounds:
  assumes "0 \<le> x" "0 \<le> y"
  shows "0 \<le> 1 - min 1 (max x y)" "1 - min 1 (max x y) \<le> (1 :: rat)"
  using assms by (auto simp: min_def max_def)

lemma calc_score_bounds:
  assumes "is_healthy a" "0 \<le> bytes" "0 \<le> mx"
  shows "1 \<le> calc_score n (Some a) c bytes mx pr \<and> calc_score n (Some a) c bytes mx pr \<le> 5 / 2"
proof -
  let ?x = "if capacity n > 0 then of_nat c / of_int (capacity n) else 1 :: rat"
  let ?y = "if mx > 0 then of_int bytes / of_int mx else 0 :: rat"
  have "0 \<le> ?x" "0 \<le> ?y" using assms by simp_all
  note bounds = load_weight_bounds [OF this]
  have "calc_score n (Some a) c bytes mx pr = 1 + (1 - min 1 (max ?x ?y)) +
      (if truthy pr \<and> Some (region n) = pr then 1 / 2 else 0)"
    using assms(1) by (simp only: calc_score_def Let_def option.case if_True)
  with bounds show ?thesis by (cases "truthy pr \<and> Some (region n) = pr") simp_all
qed



text \<open>The score of a healthy node lies between 1 and 5/2, and between two nodes in the preferred
  region (or two outside it) the one with the smaller share of its capacity and of the recent
  traffic in use scores at least as high.\<close>

theorem calc_score_prefers_less_loaded:
  assumes "is_healthy a" and "is_healthy a'" and "capacity n > 0" and "capacity n' > 0"
    and "region n = region n'" and "0 \<le> bytes" and "bytes \<le> bytes'" and "bytes' \<le> mx"
    and "int c * capacity n' \<le> int c' * capacity n"
  shows "1 \<le> calc_score n (Some a) c bytes mx pr \<and> calc_score n (Some a) c bytes mx pr \<le> 5 / 2 \<and>
         calc_score n' (Some a') c' bytes' mx pr \<le> calc_score n (Some a) c bytes mx pr"
proof -
  have "(of_nat c :: rat) * of_int (capacity n') = of_int (int c * capacity n')" by simp
  also have "\<dots> \<le> of_int (int c' * capacity n)" using assms(9) by (simp only: of_int_le_iff)
  also have "\<dots> = of_nat c' * of_int (capacity n)" by simp
  finally have 1: "(of_nat c / of_int (capacity n) :: rat) \<le> of_nat c' / of_int (capacity n')"
    using assms(3,4) by (simp add: frac_le_eq divide_le_eq pos_le_divide_eq mult.commute)
  have 2: "(if mx > 0 then of_int bytes / of_int mx else 0 :: rat) \<le> (if mx > 0 then of_int bytes' / of_int mx else 0)"
    using assms(7) by (simp add: divide_right_mono)
  have "min 1 (max (of_nat c / of_int (capacity n)) (if mx > 0 then of_int bytes / of_int mx else 0)) \<le>
        min 1 (max (of_nat c' / of_int (capacity n')) (if mx > 0 then of_int bytes' / of_int mx else 0 :: rat))"
    by (intro min.mono max.mono order_refl 1 2)
  then have "calc_score n' (Some a') c' bytes' mx pr \<le> calc_score n (Some a) c bytes mx pr"
    using assms(1-5) by (simp add: calc_score_def Let_def)
  moreover have "0 \<le> mx" using assms(6-8) by linarith
  ultimately show ?thesis using calc_score_bounds [OF assms(1,6)] by blast
qed

theorem calc_score_prefers_less_loaded_witness:
  "calc_score (sample_node 3 ''backend'') (Some (sample_agent_state 3 0)) 50 200 1000 None
   \<le> calc_score (sample_node 2 ''backend'') (Some (sample_agent_state 2 0)) 10 100 1000 None"
  using calc_score_prefers_less_loaded [where n = "sample_node 2 ''backend''" and n' = "sample_node 3 ''backend''"
      and a = "sample_agent_state 2 0" and a' = "sample_agent_state 3 0" and c = 10 and c' = 50
      and bytes = 100 and bytes' = 200 and mx = 1000 and pr = None]
  by (simp add: sample_node_def sample_agent_state_def)

end
