(* ===== verification/Placement_Service.thy ===== *)
theory Placement_Service
  imports Placement_Transport Routing
begin

text \<open>
  \<open>services/placements/service.py\<close> (the handlers of the placement API and the service that takes
  the reports of backends) and the two reconcilers of \<open>services/placements/reconcilers\<close>: retry
  of failed placements and rebalancing.  A handler that raises leaves the database as it was;
  a reconciler tick that returns without a commit does too.
\<close>

section \<open>UserPlacementService\<close>

record placement_upsert_in =
  pu_key_id :: uuid
  pu_backend_node_id :: uuid
  pu_desired_state :: PlacementDesiredState
  pu_sticky_until :: "time option"
  pu_last_migration_reason :: "string option"

definition upsert :: "time \<Rightarrow> placement_upsert_in \<Rightarrow> db \<Rightarrow> (user_placement \<times> db) result" where
  "upsert now pl s =
     (case get_by_id (pu_key_id pl) (vpn_keys s) of
        None \<Rightarrow> Inl (HTTPException 404 ''Key not found'')
      | Some _ \<Rightarrow>
        (case get_by_id (pu_backend_node_id pl) (nodes s) of
           None \<Rightarrow> Inl (HTTPException 404 ''Backend node not found'')
         | Some _ \<Rightarrow>
           (case upsert_set_pending now (pu_key_id pl) (pu_backend_node_id pl) (pu_desired_state pl)
                   (pu_sticky_until pl) (pu_last_migration_reason pl) s of
              Inl e \<Rightarrow> Inl e
            | Inr (p, s1) \<Rightarrow> Inr (p, enqueue_for_placement_ids now [row_id p] s1))))"

record migrate_in =
  mi_source_backend_id :: uuid
  mi_target_backend_id :: "uuid option"
  mi_last_migration_reason :: string

record migrate_out =
  mo_source_backend_id :: uuid
  mo_target_backend_id :: uuid
  mo_migrated_count :: nat

definition migrate_target :: "time \<Rightarrow> migrate_in \<Rightarrow> vpn_node \<Rightarrow> db \<Rightarrow> vpn_node result" where
  "migrate_target now pl source s =
     (case mi_target_backend_id pl of
        Some i \<Rightarrow>
          (case get_by_id i (nodes s) of
             None \<Rightarrow> Inl (HTTPException 404 ''Target node not found'')
           | Some n \<Rightarrow> Inr n)
      | None \<Rightarrow>
          (case select_nodes now (Some (region source)) [row_id source] s of
             [] \<Rightarrow> Inl (HTTPException 503 ''No eligible target node available'')
           | n # _ \<Rightarrow> Inr n))"

definition migrate_backend :: "time \<Rightarrow> migrate_in \<Rightarrow> db \<Rightarrow> (migrate_out \<times> db) result" where
  "migrate_backend now pl s =
     (if mi_target_backend_id pl = Some (mi_source_backend_id pl)
      then Inl (HTTPException 400 ''source_backend_id and target_backend_id must differ'')
      else case get_by_id (mi_source_backend_id pl) (nodes s) of
        None \<Rightarrow> Inl (HTTPException 404 ''Source node not found'')
      | Some source \<Rightarrow>
        (case migrate_target now pl source s of
           Inl e \<Rightarrow> Inl e
         | Inr target \<Rightarrow>
           if \<not> is_active target \<or> \<not> is_enabled target \<or> is_draining target
           then Inl (HTTPException 409 ''Target node is not eligible'')
           else
             let active = filter (\<lambda>p. desired_state p = ds_active)
                            (list_active (Some (mi_source_backend_id pl)) None s);
                 out = \<lparr>mo_source_backend_id = mi_source_backend_id pl,
                        mo_target_backend_id = row_id target, mo_migrated_count = length active\<rparr>
             in if active = [] then Inr (out, s)
                else case bulk_migrate_backend (map row_id active) (row_id target)
                            (Some (mi_last_migration_reason pl)) now s of
                  Inl e \<Rightarrow> Inl e
                | Inr ((_, announce), s1) \<Rightarrow>
                    Inr (out, if announce = [] then s1 else enqueue_for_placement_ids now announce s1)))"

definition list_placements :: "uuid option \<Rightarrow> nat \<Rightarrow> db \<Rightarrow> user_placement list" where
  "list_placements backend n s = list_active backend (Some n) s"

definition list_placements_by_key :: "uuid \<Rightarrow> db \<Rightarrow> user_placement list result" where
  "list_placements_by_key key s =
     (let rows = list_by_key_id key True None s in
      if rows = [] then Inl (HTTPException 404 ''Placement not found'') else Inr rows)"

section \<open>PlacementApplyService\<close>

datatype PlacementApplyStatus = apply_applied | apply_pending | apply_error | skipped_stale

text \<open>\<open>PlacementApplyResultIn\<close> refuses versions below 1.\<close>

definition apply_result ::
  "time \<Rightarrow> uuid \<Rightarrow> uuid \<Rightarrow> int \<Rightarrow> PlacementAppliedState \<Rightarrow> db \<Rightarrow> (PlacementApplyStatus \<times> db) result" where
  "apply_result now node i version state s =
     (if version < 1 then Inl (ValidationError ''op_version'')
      else case apply_backend_report i version state version now node s of
        Inl e \<Rightarrow> Inl e
      | Inr (n, s') \<Rightarrow>
          if n = 0 then Inr (skipped_stale, s')
          else if state = as_applied then Inr (apply_applied, s')
          else if state = as_error then Inr (apply_error, s')
          else Inr (apply_pending, s'))"

section \<open>PlacementErrorRetryReconciler\<close>

definition error_retry_tick :: "time \<Rightarrow> db \<Rightarrow> nat \<times> db" where
  "error_retry_tick now s =
     (let cutoff = now - usec (max 30 (placement_error_retry_after_sec (the_node_policy s)));
          error_ids = map row_id (filter (\<lambda>p. applied_state p = as_error \<and> is_active p \<and> updated_at p < cutoff)
                        (placements s));
          s1 = (if error_ids = [] then s
                else enqueue_for_placement_ids now error_ids
                       (s\<lparr>placements := update_where (\<lambda>p. row_id p \<in> set error_ids) (bump now) (placements s)\<rparr>));
          pending_ids = map row_id (filter (\<lambda>p. applied_state p = as_pending \<and> is_active p \<and> updated_at p < cutoff)
                          (placements s1));
          s2 = (if pending_ids = [] then s1 else enqueue_for_placement_ids now pending_ids s1)
      in (length error_ids + length pending_ids, s2))"

section \<open>PlacementRebalanceReconciler\<close>

text \<open>The raw \<open>UPDATE\<close>: it counts the version up and leaves the applied state as it is.\<close>

definition deactivate_on_draining :: "time \<Rightarrow> db \<Rightarrow> uuid list \<times> db" where
  "deactivate_on_draining now s =
     (let hit = (\<lambda>p. is_active p \<and> desired_state p = ds_active \<and>
                  (\<exists>n \<in> set (nodes s). row_id n = backend_node_id p \<and> is_draining n))
      in (map row_id (filter hit (placements s)),
          s\<lparr>placements := update_where hit
              (\<lambda>p. p\<lparr>desired_state := ds_inactive, op_version := op_version p + 1,
                     last_migration_reason := Some ''backend_draining'', updated_at := now\<rparr>)
              (placements s)\<rparr>))"

definition find_healthy_backend_node_ids :: "time \<Rightarrow> int \<Rightarrow> db \<Rightarrow> uuid list" where
  "find_healthy_backend_node_ids now stale_after s =
     map row_id (filter (\<lambda>n. is_active n \<and> is_enabled n \<and> \<not> is_draining n \<and> role n = ''backend'' \<and>
       (case agent_state_of s (row_id n) of
          None \<Rightarrow> False
        | Some a \<Rightarrow> is_healthy a \<and> (case last_seen_at a of None \<Rightarrow> False | Some t \<Rightarrow> t \<ge> now - usec stale_after)) \<and>
       (\<exists>r \<in> set (routes s). route_node_id r = row_id n \<and> entry_node_id r \<noteq> None)) (nodes s))"

definition rebalance_tick :: "time \<Rightarrow> db \<Rightarrow> (nat \<times> db) result" where
  "rebalance_tick now s =
     (let batch_size = nat (max 1 (placement_rebalance_batch_size (the_node_policy s)));
          stale_after = max 30 (stale_after_sec (the_node_policy s));
          (drained, s1) = deactivate_on_draining now s;
          s2 = (if drained = [] then s1 else enqueue_for_placement_ids now drained s1);
          healthy_ids = find_healthy_backend_node_ids now stale_after s2
      in if length healthy_ids < 2 then Inr (0, if drained = [] then s else s2)
         else let missing = find_missing_placements healthy_ids batch_size s2 in
           if missing = [] then Inr (0, s)
           else case bulk_upsert_set_pending now missing ds_active (Some ''rebalance'') s2 of
             Inl e \<Rightarrow> Inl e
           | Inr (created, s3) \<Rightarrow>
               Inr (length created, if created = [] then s3 else enqueue_for_placement_ids now created s3))"

section \<open>Migration of a backend\<close>

definition active_on :: "uuid \<Rightarrow> db \<Rightarrow> user_placement list" where
  "active_on b s = filter (\<lambda>p. desired_state p = ds_active) (list_active (Some b) None s)"

lemma active_on_mem:
  "p \<in> set (active_on b s) \<longleftrightarrow>
     p \<in> set (placements s) \<and> is_active p \<and> backend_node_id p = b \<and> desired_state p = ds_active"
  by (auto simp: active_on_def list_active_def limit_rows_def)

lemma length_active_on:
  "length (active_on b s) = length (filter (\<lambda>p. is_active p \<and> backend_node_id p = b \<and> desired_state p = ds_active) (placements s))"
  by (simp add: active_on_def list_active_def limit_rows_def filter_sort conj_ac)

lemma migration_sources_active_on:
  assumes "placements_inv s"
  shows "migration_sources (map row_id (active_on b s)) s =
    filter (\<lambda>p. is_active p \<and> backend_node_id p = b \<and> desired_state p = ds_active) (placements s)"
proof -
  have "row_id p \<in> set (map row_id (active_on b s)) \<longleftrightarrow> p \<in> set (active_on b s)" if "p \<in> set (placements s)" for p
  proof
    assume "row_id p \<in> set (map row_id (active_on b s))"
    then obtain q where "q \<in> set (active_on b s)" "row_id q = row_id p" by auto
    moreover from this have "q = p"
      using assms that by (auto simp: placements_inv_def active_on_mem intro: ids_ok_unique)
    ultimately show "p \<in> set (active_on b s)" by simp
  qed simp
  then show ?thesis unfolding migration_sources_def by (intro filter_cong refl) (auto simp: active_on_mem)
qed

lemma select_nodes_excludes: "n \<in> set (select_nodes now pr ex s) \<Longrightarrow> row_id n \<notin> set ex"
  by (auto simp: select_nodes_def set_list_available_nodes)

lemma migrate_target_other:
  assumes "migrate_target now pl source s = Inr n" "mi_target_backend_id pl \<noteq> Some (row_id source)"
  shows "row_id n \<noteq> row_id source"
proof (cases "mi_target_backend_id pl")
  case None
  with assms(1) obtain ns where "select_nodes now (Some (region source)) [row_id source] s = n # ns"
    by (auto simp: migrate_target_def split: list.splits)
  then have "n \<in> set (select_nodes now (Some (region source)) [row_id source] s)" by simp
  from select_nodes_excludes [OF this] show ?thesis by simp
next
  case (Some i)
  with assms show ?thesis by (auto simp: migrate_target_def split: option.splits dest: get_by_id_Some)
qed

lemma enqueue_for_no_ids: "enqueue_for_placement_ids now [] s = s"
  by (simp add: enqueue_for_placement_ids_def list_transport_rows_by_placement_ids_def)

lemma enqueue_for_ids_if:
  "(if ids = [] then s else enqueue_for_placement_ids now ids s) = enqueue_for_placement_ids now ids s"
  by (simp add: enqueue_for_no_ids)

lemma migrate_backend_eq:
  "migrate_backend now pl s =
     (if mi_target_backend_id pl = Some (mi_source_backend_id pl)
      then Inl (HTTPException 400 ''source_backend_id and target_backend_id must differ'')
      else case get_by_id (mi_source_backend_id pl) (nodes s) of
        None \<Rightarrow> Inl (HTTPException 404 ''Source node not found'')
      | Some source \<Rightarrow>
        (case migrate_target now pl source s of
           Inl e \<Rightarrow> Inl e
         | Inr target \<Rightarrow>
           if \<not> node_available target
           then Inl (HTTPException 409 ''Target node is not eligible'')
           else
             let active = active_on (mi_source_backend_id pl) s;
                 out = \<lparr>mo_source_backend_id = mi_source_backend_id pl,
                        mo_target_backend_id = row_id target, mo_migrated_count = length active\<rparr>
             in if active = [] then Inr (out, s)
                else case bulk_migrate_backend (map row_id active) (row_id target)
                            (Some (mi_last_migration_reason pl)) now s of
                  Inl e \<Rightarrow> Inl e
                | Inr ((_, announce), s1) \<Rightarrow> Inr (out, enqueue_for_placement_ids now announce s1)))"
  unfolding migrate_backend_def active_on_def [symmetric] node_available_def enqueue_for_ids_if
  by (simp only: de_Morgan_conj not_not)

text \<open>The heart of the migration: from one backend to another one.\<close>

lemma migrate_active_on:
  assumes inv: "transport_inv s" and other: "b \<noteq> target"
  shows "\<exists>ann s1. bulk_migrate_backend (map row_id (active_on b s)) target reason now s =
            Inr ((length (active_on b s), ann), s1) \<and>
          active_on b s1 = [] \<and> transport_inv s1 \<and> vpn_keys s1 = vpn_keys s \<and>
          (\<forall>p \<in> set (active_on b s). \<exists>q \<in> set (placements s1). key_id q = key_id p \<and>
             backend_node_id q = target \<and> is_active q \<and> desired_state q = ds_active \<and>
             applied_state q = as_pending \<and> row_id q \<in> set ann)"
proof -
  let ?ids = "map row_id (active_on b s)"
  have pinv: "placements_inv s" using inv by (simp add: transport_inv_def)
  have src: "set (migration_sources ?ids s) = set (active_on b s)"
    "length (migration_sources ?ids s) = length (active_on b s)"
    unfolding migration_sources_active_on [OF pinv] length_active_on by (auto simp: active_on_mem)
  have m: "migratable ?ids target s"
    by (rule migratable_same_backend [OF pinv _ other]) (simp add: src(1) active_on_mem)
  from bulk_migrate_correct_all [OF m, of reason now] obtain ann s1 where
    mig: "bulk_migrate_backend ?ids target reason now s = Inr ((length (migration_sources ?ids s), ann), s1)" and
    src1: "\<forall>p \<in> set (migration_sources ?ids s).
      (\<exists>q \<in> set (placements s1). key_id q = key_id p \<and> backend_node_id q = target \<and> is_active q \<and>
         desired_state q = desired_state p \<and> applied_state q = as_pending \<and>
         applied_version q < op_version q \<and> row_id q \<in> set ann) \<and>
      (\<forall>q \<in> set (placements s1). placement_pair q = placement_pair p \<longrightarrow> \<not> is_active q)" and
    new: "\<forall>q \<in> set (placements s1). is_active q \<and> backend_node_id q \<noteq> target \<longrightarrow> q \<in> set (placements s)" and
    keys: "vpn_keys s1 = vpn_keys s"
    by (elim exE conjE) (rule that)
  have "transport_step s s1" using mig by (intro transport_step.change placement_step.migrate)
  then have "transport_inv s1" using inv by (rule transport_step_inv)
  moreover have "active_on b s1 = []"
  proof -
    have "q \<notin> set (active_on b s1)" for q
    proof
      assume q: "q \<in> set (active_on b s1)"
      then have "q \<in> set (active_on b s)" using new other by (simp add: active_on_mem)
      with src1 q show False by (auto simp: src(1) active_on_mem)
    qed
    then show ?thesis by (metis list.set_intros(1) neq_Nil_conv)
  qed
  moreover have "\<exists>q \<in> set (placements s1). key_id q = key_id p \<and> backend_node_id q = target \<and> is_active q \<and>
      desired_state q = ds_active \<and> applied_state q = as_pending \<and> row_id q \<in> set ann"
    if "p \<in> set (active_on b s)" for p
  proof -
    have "desired_state p = ds_active" using that by (simp add: active_on_mem)
    with bspec [OF src1 [unfolded src(1)] that] show ?thesis by (elim conjE bexE) (rule bexI, simp_all)
  qed
  ultimately show ?thesis using mig [unfolded src(2)] keys by (intro exI [of _ ann] exI [of _ s1] conjI ballI) simp_all
qed

lemma migrate_target_error: "migrate_target now pl source s = Inl e \<Longrightarrow> \<exists>code detail. e = HTTPException code detail"
  by (auto simp: migrate_target_def split: option.splits list.splits)

lemma select_nodes_node: "n \<in> set (select_nodes now pr ex s) \<Longrightarrow> n \<in> set (nodes s)"
  by (auto simp: select_nodes_def set_list_available_nodes)

lemma migrate_target_node: "migrate_target now pl source s = Inr n \<Longrightarrow> n \<in> set (nodes s)"
  using get_by_id_Some [of _ "nodes s" n] select_nodes_node [of n now "Some (region source)" "[row_id source]" s]
  by (auto simp: migrate_target_def split: option.splits list.splits)

lemma announced_commands:
  assumes "transport_inv s" "q \<in> set (placements s)" "is_active q" "row_id q \<in> set ids"
    "get_by_id (key_id q) (vpn_keys s) = Some k" "is_active k"
  shows "PlacementCommandId (row_id q) (op_version q) \<in> ob_message_id ` set (outbox (enqueue_for_placement_ids now ids s))"
proof -
  have "(q, k) \<in> set (list_transport_rows_by_placement_ids ids s)"
    using assms by (simp add: list_transport_rows_mem)
  then have "command_item (build_command_payload q k None) (PlacementCommandId (row_id q) (op_version q)) \<in>
      set (concat (map (placement_items s) (list_transport_rows_by_placement_ids ids s)))"
    by (auto simp: placement_items_def intro!: bexI [of _ "(q, k)"])
  then show ?thesis
    unfolding enqueue_for_placement_ids_eq enqueue_many_message_ids by (force simp: command_item_def)
qed

text \<open>C29: Migrating a backend that succeeds moves every user: whether the target was given or chosen, it
  is another node, active, enabled and not draining; afterwards no placement that should be active
  is left active on the source, and each of their keys has an active placement on the target,
  pending, whose command is in the outbox if the key is active; the reported count is their
  number.  The table never refuses the migration.\<close>

theorem migrate_backend_moves_everyone:
  assumes inv: "transport_inv s"
  shows "case migrate_backend now pl s of
      Inl err \<Rightarrow> (\<exists>code detail. err = HTTPException code detail)
    | Inr (out, s') \<Rightarrow>
        mo_target_backend_id out \<noteq> mi_source_backend_id pl \<and>
        (\<exists>n \<in> set (nodes s). row_id n = mo_target_backend_id out \<and> node_available n) \<and>
        mo_migrated_count out = length (active_on (mi_source_backend_id pl) s) \<and>
        active_on (mi_source_backend_id pl) s' = [] \<and>
        (\<forall>p \<in> set (active_on (mi_source_backend_id pl) s).
           \<exists>q \<in> set (placements s'). key_id q = key_id p \<and> backend_node_id q = mo_target_backend_id out \<and>
             is_active q \<and> desired_state q = ds_active \<and> applied_state q = as_pending \<and>
             (\<forall>k. get_by_id (key_id p) (vpn_keys s) = Some k \<and> is_active k \<longrightarrow>
                PlacementCommandId (row_id q) (op_version q) \<in> ob_message_id ` set (outbox s')))"
proof (cases "migrate_backend now pl s")
  case (Inl err)
  let ?b = "mi_source_backend_id pl"
  have "\<exists>code detail. err = HTTPException code detail"
  proof (cases "mi_target_backend_id pl = Some ?b \<or> get_by_id ?b (nodes s) = None")
    case True
    with Inl show ?thesis by (auto simp: migrate_backend_eq split: if_splits option.splits)
  next
    case False
    then obtain source where source: "get_by_id ?b (nodes s) = Some source" by auto
    then have id: "row_id source = ?b" using get_by_id_Some by blast
    show ?thesis
    proof (cases "migrate_target now pl source s")
      case (Inl e)
      with False source \<open>migrate_backend now pl s = Inl err\<close> migrate_target_error [OF Inl] show ?thesis
        by (simp add: migrate_backend_eq)
    next
      case (Inr target)
      have "?b \<noteq> row_id target" using migrate_target_other [OF Inr] False id by auto
      from migrate_active_on [OF inv this, of "Some (mi_last_migration_reason pl)" now]
        False source Inr \<open>migrate_backend now pl s = Inl err\<close> show ?thesis
        by (auto simp: migrate_backend_eq Let_def split: if_splits)
    qed
  qed
  with Inl show ?thesis by simp
next
  case (Inr r)
  let ?b = "mi_source_backend_id pl"
  obtain out s' where r: "r = (out, s')" by (cases r)
  from Inr r obtain source target where
    source: "get_by_id ?b (nodes s) = Some source" and ne: "mi_target_backend_id pl \<noteq> Some ?b" and
    target: "migrate_target now pl source s = Inr target" "node_available target"
    by (auto simp: migrate_backend_eq split: if_splits option.splits sum.splits)
  have id: "row_id source = ?b" using get_by_id_Some [OF source] by simp
  then have other: "?b \<noteq> row_id target" using migrate_target_other [OF target(1)] ne by auto
  from migrate_active_on [OF inv other, of "Some (mi_last_migration_reason pl)" now] obtain ann s1 where
    mig: "bulk_migrate_backend (map row_id (active_on ?b s)) (row_id target) (Some (mi_last_migration_reason pl)) now s
            = Inr ((length (active_on ?b s), ann), s1)"
      "active_on ?b s1 = []" "transport_inv s1" "vpn_keys s1 = vpn_keys s" and
    moved: "\<forall>p \<in> set (active_on ?b s). \<exists>q \<in> set (placements s1). key_id q = key_id p \<and>
      backend_node_id q = row_id target \<and> is_active q \<and> desired_state q = ds_active \<and>
      applied_state q = as_pending \<and> row_id q \<in> set ann"
    by (elim exE conjE) (rule that)
  have out: "mo_target_backend_id out = row_id target" "mo_migrated_count out = length (active_on ?b s)"
    and s': "s' = (if active_on ?b s = [] then s else enqueue_for_placement_ids now ann s1)"
    using Inr r ne source target mig(1) by (auto simp: migrate_backend_eq Let_def split: if_splits)
  have gone: "active_on ?b s' = []"
    using mig(2) by (simp add: s' active_on_def list_active_def)
  have all: "\<exists>q \<in> set (placements s'). key_id q = key_id p \<and> backend_node_id q = row_id target \<and>
      is_active q \<and> desired_state q = ds_active \<and> applied_state q = as_pending \<and>
      (\<forall>k. get_by_id (key_id p) (vpn_keys s) = Some k \<and> is_active k \<longrightarrow>
         PlacementCommandId (row_id q) (op_version q) \<in> ob_message_id ` set (outbox s'))"
    if p: "p \<in> set (active_on ?b s)" for p
  proof -
    have s'': "s' = enqueue_for_placement_ids now ann s1" using p s' by auto
    from bspec [OF moved p] obtain q where q: "q \<in> set (placements s1)" "key_id q = key_id p"
      "backend_node_id q = row_id target" "is_active q" "desired_state q = ds_active"
      "applied_state q = as_pending" "row_id q \<in> set ann" by blast
    have "PlacementCommandId (row_id q) (op_version q) \<in> ob_message_id ` set (outbox s')"
      if "get_by_id (key_id p) (vpn_keys s) = Some k" "is_active k" for k
      unfolding s'' using announced_commands [OF mig(3) q(1,4,7), of k now] that q(2) mig(4) by simp
    with q show ?thesis by (intro bexI [of _ q]) (simp_all add: s'')
  qed
  show ?thesis
    unfolding Inr r using out other gone all target(2) migrate_target_node [OF target(1)] by auto
qed

definition backend_db :: db where
  "backend_db = announced_db\<lparr>nodes := [sample_node 2 ''backend'', sample_node 3 ''backend'']\<rparr>"

lemma backend_db_inv: "transport_inv backend_db"
proof -
  have "transport_step announced_db backend_db"
    unfolding backend_db_def by (rule transport_step.elsewhere) simp_all
  with transport_sm.reachable_inv [OF refl announced_db_reached] show ?thesis
    by (blast intro: transport_step_inv)
qed

definition sample_migrate :: migrate_in where
  "sample_migrate = \<lparr>mi_source_backend_id = 2, mi_target_backend_id = Some 3, mi_last_migration_reason = ''admin_manual''\<rparr>"

theorem migrate_backend_moves_everyone_witness:
  "\<exists>out s'. migrate_backend 9 sample_migrate backend_db = Inr (out, s') \<and> mo_migrated_count out = 1 \<and>
     active_on 2 s' = []"
proof -
  have "active_on 2 backend_db = [new_placement 5 1000 7 2 ds_active None None]"
    by (simp add: active_on_def list_active_def limit_rows_def backend_db_def announced_db_sel)
  moreover have "\<exists>x. migrate_backend 9 sample_migrate backend_db = Inr x"
    using migrate_active_on [OF backend_db_inv, of 2 3 "Some ''admin_manual''" 9] calculation
    by (auto simp: migrate_backend_eq sample_migrate_def migrate_target_def get_by_id_def backend_db_def
        sample_node_def node_available_def Let_def)
  ultimately show ?thesis
    using migrate_backend_moves_everyone [OF backend_db_inv, where now = 9 and pl = sample_migrate]
    by (auto simp: sample_migrate_def)
qed

section \<open>Retries\<close>

definition retry_cutoff :: "time \<Rightarrow> db \<Rightarrow> time" where
  "retry_cutoff now s = now - usec (max 30 (placement_error_retry_after_sec (the_node_policy s)))"

definition stale_in :: "PlacementAppliedState \<Rightarrow> time \<Rightarrow> db \<Rightarrow> user_placement \<Rightarrow> bool" where
  "stale_in st now s p \<longleftrightarrow> applied_state p = st \<and> is_active p \<and> updated_at p < retry_cutoff now s"

lemma retry_cutoff_past: "retry_cutoff now s < now"
  by (simp add: retry_cutoff_def)

text \<open>The database after the first half of a tick.\<close>

definition retried :: "time \<Rightarrow> db \<Rightarrow> db" where
  "retried now s =
     enqueue_for_placement_ids now (map row_id (filter (stale_in as_error now s) (placements s)))
       (s\<lparr>placements := update_where (stale_in as_error now s) (bump now) (placements s)\<rparr>)"

lemma retried_frame [simp]:
  "placements (retried now s) = update_where (stale_in as_error now s) (bump now) (placements s)"
  "the_node_policy (retried now s) = the_node_policy s" "vpn_keys (retried now s) = vpn_keys s"
  by (simp_all add: retried_def)

lemma stale_pending_retried:
  "filter (stale_in as_pending now (retried now s)) (placements (retried now s)) =
   filter (stale_in as_pending now s) (placements s)"
proof -
  have "stale_in as_pending now (retried now s) = stale_in as_pending now s"
    by (auto simp: stale_in_def retry_cutoff_def)
  moreover have "\<not> stale_in as_pending now s (bump now p)" for p
    using retry_cutoff_past [of now s] by (auto simp: stale_in_def)
  ultimately show ?thesis
    unfolding retried_frame by (simp only:, intro filter_update_where_other) (auto simp: stale_in_def)
qed

lemma ids_hit:
  assumes "placements_inv s" "p \<in> set (placements s)"
  shows "row_id p \<in> set (map row_id (filter Q (placements s))) \<longleftrightarrow> Q p"
proof
  assume "row_id p \<in> set (map row_id (filter Q (placements s)))"
  then obtain q where q: "q \<in> set (placements s)" "Q q" "row_id q = row_id p" by auto
  have "ids_ok (placements s)" using assms(1) by (simp add: placements_inv_def)
  from ids_ok_unique [OF this q(1) assms(2) q(3)] q(2) show "Q p" by simp
qed (use assms(2) in auto)

lemma error_retry_tick_eq:
  assumes "placements_inv s"
  shows "error_retry_tick now s =
    (length (filter (stale_in as_error now s) (placements s)) + length (filter (stale_in as_pending now s) (placements s)),
     enqueue_for_placement_ids now (map row_id (filter (stale_in as_pending now s) (placements s))) (retried now s))"
proof -
  let ?E = "filter (stale_in as_error now s) (placements s)"
  have E: "filter (\<lambda>p. applied_state p = as_error \<and> is_active p \<and> updated_at p < retry_cutoff now s) (placements s) = ?E"
    by (simp add: stale_in_def [abs_def])
  have upd: "update_where (\<lambda>p. row_id p \<in> set (map row_id ?E)) (bump now) (placements s) =
      update_where (stale_in as_error now s) (bump now) (placements s)"
    by (rule update_where_cong) (simp_all only: ids_hit [OF assms])
  have first: "(if map row_id ?E = [] then s
      else enqueue_for_placement_ids now (map row_id ?E)
             (s\<lparr>placements := update_where (\<lambda>p. row_id p \<in> set (map row_id ?E)) (bump now) (placements s)\<rparr>)) = retried now s"
  proof (cases "?E = []")
    case True
    then have "update_where (stale_in as_error now s) (bump now) (placements s) = placements s"
      by (intro update_where_none) (auto simp: filter_empty_conv)
    with True show ?thesis by (simp add: retried_def enqueue_for_no_ids)
  next
    case False
    then show ?thesis unfolding upd by (simp add: retried_def)
  qed
  have P: "filter (\<lambda>p. applied_state p = as_pending \<and> is_active p \<and> updated_at p < retry_cutoff now s) (placements (retried now s))
      = filter (stale_in as_pending now s) (placements s)"
    using stale_pending_retried [of now s] by (simp add: stale_in_def [abs_def] retry_cutoff_def)
  show ?thesis
    unfolding error_retry_tick_def Let_def retry_cutoff_def [symmetric] E first P enqueue_for_ids_if
    by (simp only: length_map)
qed

text \<open>C31: The retry of failed placements: a tick gives every active placement whose backend reported an
  error longer ago than the retry period a new version, makes it pending and, if its key is active,
  puts the command of the new version into the outbox.  Placements that have been pending for
  longer than the period are only announced again: no row of theirs changes, and when their
  commands are in the outbox already and nothing has failed, the whole tick changes nothing.\<close>

theorem error_retry_effect:
  assumes "transport_inv s" and "error_retry_tick now s = (n, s')"
  shows "transport_inv s' \<and>
         n = length (filter (stale_in as_error now s) (placements s)) +
             length (filter (stale_in as_pending now s) (placements s)) \<and>
         placements s' = map (\<lambda>p. if stale_in as_error now s p then bump now p else p) (placements s) \<and>
         (\<forall>p \<in> set (placements s). \<forall>k. stale_in as_error now s p \<and>
            get_by_id (key_id p) (vpn_keys s) = Some k \<and> is_active k \<longrightarrow>
            PlacementCommandId (row_id p) (op_version p + 1) \<in> ob_message_id ` set (outbox s')) \<and>
         ((\<forall>p \<in> set (placements s). \<not> stale_in as_error now s p) \<and>
          oi_message_id ` set (concat (map (placement_items s) (list_transport_rows_by_placement_ids
             (map row_id (filter (stale_in as_pending now s) (placements s))) s))) \<subseteq> ob_message_id ` set (outbox s)
          \<longrightarrow> s' = s)"
proof -
  have pinv: "placements_inv s" using assms(1) by (simp add: transport_inv_def)
  let ?E = "map row_id (filter (stale_in as_error now s) (placements s))"
  let ?P = "map row_id (filter (stale_in as_pending now s) (placements s))"
  let ?s1 = "s\<lparr>placements := update_where (stale_in as_error now s) (bump now) (placements s)\<rparr>"
  have n: "n = length (filter (stale_in as_error now s) (placements s)) + length (filter (stale_in as_pending now s) (placements s))"
    and s': "s' = enqueue_for_placement_ids now ?P (retried now s)"
    using assms(2) by (simp_all add: error_retry_tick_eq [OF pinv])
  have "placement_change s ?s1"
    using pinv by (intro placement_change_update row_update_ok_bump) (simp_all add: placement_pair_def)
  then have inv1: "transport_inv ?s1"
    using assms(1) commands_agree_change [of s ?s1]
    by (auto simp: transport_inv_def placement_change_def intro: outbox_inv_cong)
  then have invr: "transport_inv (retried now s)"
    unfolding retried_def by (blast intro: transport_step_inv transport_step.announce)
  then have inv': "transport_inv s'" unfolding s' by (blast intro: transport_step_inv transport_step.announce)
  have tbl: "placements s' = map (\<lambda>p. if stale_in as_error now s p then bump now p else p) (placements s)"
    by (simp add: s' update_where_def)
  have cmd: "PlacementCommandId (row_id p) (op_version p + 1) \<in> ob_message_id ` set (outbox s')"
    if p: "p \<in> set (placements s)" "stale_in as_error now s p" "get_by_id (key_id p) (vpn_keys s) = Some k" "is_active k" for p k
  proof -
    have q: "bump now p \<in> set (placements ?s1)" "is_active (bump now p)" using p by (auto simp: set_update_where stale_in_def)
    have i: "row_id (bump now p) \<in> set ?E" using p by auto
    have k: "get_by_id (key_id (bump now p)) (vpn_keys ?s1) = Some k" using p(3) by simp
    have "PlacementCommandId (row_id p) (op_version p + 1) \<in> ob_message_id ` set (outbox (retried now s))"
      using announced_commands [OF inv1 q i k p(4), of now] by (simp add: retried_def)
    then show ?thesis unfolding s' enqueue_for_placement_ids_eq enqueue_many_message_ids by blast
  qed
  have noop: "s' = s" if none: "\<forall>p \<in> set (placements s). \<not> stale_in as_error now s p"
    and known: "oi_message_id ` set (concat (map (placement_items s) (list_transport_rows_by_placement_ids ?P s))) \<subseteq> ob_message_id ` set (outbox s)"
  proof -
    have "update_where (stale_in as_error now s) (bump now) (placements s) = placements s"
      using none by (intro update_where_none) blast
    moreover have "?E = []" using none by (simp add: filter_empty_conv)
    ultimately have "retried now s = s" by (simp add: retried_def enqueue_for_no_ids)
    with known show ?thesis by (simp add: s' enqueue_for_placement_ids_eq enqueue_many_known)
  qed
  show ?thesis
    using inv' n tbl cmd noop by (intro conjI ballI allI impI) (blast | simp)+
qed

theorem error_retry_effect_witness:
  "\<exists>s'. error_retry_tick (hours 1) announced_db = (1, s') \<and> s' = announced_db"
proof -
  have inv: "transport_inv announced_db" using transport_sm.reachable_inv [OF refl announced_db_reached] .
  have pol: "the_node_policy announced_db = default_node_policy" by (simp add: announced_db_def)
  have st: "stale_in as_error (hours 1) announced_db (new_placement 5 1000 7 2 ds_active None None) = False"
    "stale_in as_pending (hours 1) announced_db (new_placement 5 1000 7 2 ds_active None None)"
    by (simp_all add: stale_in_def retry_cutoff_def pol default_node_policy_def hours_def usec_def new_placement_def)
  obtain n s' where r: "error_retry_tick (hours 1) announced_db = (n, s')" by (cases "error_retry_tick (hours 1) announced_db")
  have known: "oi_message_id ` set (concat (map (placement_items announced_db)
      (list_transport_rows_by_placement_ids [1000] announced_db))) \<subseteq> ob_message_id ` set (outbox announced_db)"
  proof -
    have "vpn_keys announced_db = [sample_key 7]" "assignments announced_db = []" by (simp_all add: announced_db_def)
    then show ?thesis
      by (simp add: announced_db_sel list_transport_rows_by_placement_ids_def List.map_filter_def join_key_def
          get_by_id_def sample_key_def placement_items_def load_entries_for_backends_def command_item_def)
  qed
  from error_retry_effect [OF inv r] st known r show ?thesis by (simp add: announced_db_sel(1))
qed

section \<open>Rebalancing\<close>

definition has_active :: "db \<Rightarrow> uuid \<times> uuid \<Rightarrow> bool" where
  "has_active s kn \<longleftrightarrow>
     (\<exists>p \<in> set (placements s). placement_pair p = kn \<and> is_active p \<and> desired_state p = ds_active)"

definition keys_ok :: "db \<Rightarrow> bool" where
  "keys_ok s \<longleftrightarrow> ids_ok (placements s) \<and> below (uuid_supply s) (placements s)"

lemma find_missing_eq:
  "find_missing_placements ns b s = take b (filter (\<lambda>kn. \<not> has_active s kn) (List.product (active_keys s) ns))"
  unfolding find_missing_placements_def has_active_def placement_pair_def
  by (rule arg_cong [where f = "take b"]) (rule filter_cong, auto)

lemma active_keys_mem: "k \<in> set (active_keys s) \<longleftrightarrow> (\<exists>n. has_active s (k, n))"
  by (auto simp: active_keys_def has_active_def placement_pair_def)

lemma upsert_one_has_active:
  assumes "keys_ok s"
  shows "keys_ok (snd (upsert_one now k n ds_active st r s)) \<and>
         (has_active (snd (upsert_one now k n ds_active st r s)) kn \<longleftrightarrow> has_active s kn \<or> kn = (k, n))"
proof (cases "get_by_key_and_backend k n False s")
  case None
  with assms show ?thesis
    by (auto simp: upsert_one_def has_active_def keys_ok_def placement_pair_def Let_def split_def below_Suc
        intro: ids_ok_create_fresh)
next
  case (Some p)
  let ?f = "\<lambda>p. (bump now p)\<lparr>desired_state := ds_active, sticky_until := st, last_migration_reason := r, is_active := True\<rparr>"
  from get_by_key_and_backend_Some [OF Some] have p: "p \<in> set (placements s)" "placement_pair p = (k, n)"
    by (simp_all add: placement_pair_def)
  have "update_by_id (row_id p) ?f (placements s) = update_where (\<lambda>q. q = p) ?f (placements s)"
    unfolding update_by_id_def
    by (rule update_where_cong) (use assms p ids_ok_unique [of "placements s" _ p] in \<open>auto simp: keys_ok_def\<close>)
  then have rows: "set (placements (snd (upsert_one now k n ds_active st r s))) = insert (?f p) (set (placements s) - {p})"
    using p(1) by (auto simp: upsert_one_def Some set_update_where)
  have "placement_pair (?f p) = (k, n)" using p(2) by (simp add: placement_pair_def)
  with p have "has_active (snd (upsert_one now k n ds_active st r s)) kn \<longleftrightarrow> has_active s kn \<or> kn = (k, n)"
    unfolding has_active_def rows by (cases "kn = (k, n)") auto
  with assms show ?thesis by (simp add: upsert_one_def Some keys_ok_def)
qed

lemma upsert_pairs_has_active:
  "keys_ok s \<Longrightarrow> has_active (snd (upsert_pairs now ds_active r pairs s)) kn \<longleftrightarrow> has_active s kn \<or> kn \<in> set pairs"
proof (induction pairs arbitrary: s)
  case (Cons x pairs)
  obtain k n where x: "x = (k, n)" by (cases x)
  have "keys_ok (snd (upsert_one now k n ds_active None r s))" using upsert_one_has_active [OF Cons.prems] by blast
  from Cons.IH [OF this] upsert_one_has_active [OF Cons.prems, of now k n None r kn] show ?case
    by (auto simp: x split_def Let_def)
qed simp

lemma length_upsert_pairs: "length (fst (upsert_pairs now d r pairs s)) = length pairs"
  by (induction pairs arbitrary: s) (auto simp: split_def Let_def)

lemma deactivate_on_draining_frame [simp]:
  "nodes (snd (deactivate_on_draining now s)) = nodes s"
  "agent_states (snd (deactivate_on_draining now s)) = agent_states s"
  "routes (snd (deactivate_on_draining now s)) = routes s"
  "the_node_policy (snd (deactivate_on_draining now s)) = the_node_policy s"
  "vpn_keys (snd (deactivate_on_draining now s)) = vpn_keys s"
  by (simp_all add: deactivate_on_draining_def Let_def)

lemma deactivate_on_draining_keys: "keys_ok s \<Longrightarrow> keys_ok (snd (deactivate_on_draining now s))"
  by (simp add: keys_ok_def deactivate_on_draining_def Let_def ids_ok_update_where below_update_where)

lemma find_healthy_frame:
  "nodes s' = nodes s \<Longrightarrow> agent_states s' = agent_states s \<Longrightarrow> routes s' = routes s \<Longrightarrow>
   find_healthy_backend_node_ids now t s' = find_healthy_backend_node_ids now t s"
  by (simp add: find_healthy_backend_node_ids_def agent_state_of_def)

lemma find_missing_frame:
  "placements s' = placements s \<Longrightarrow> find_missing_placements ns b s' = find_missing_placements ns b s"
  by (simp add: find_missing_placements_def active_keys_def)

lemma has_active_frame: "placements s' = placements s \<Longrightarrow> has_active s' = has_active s"
  by (simp add: has_active_def fun_eq_iff)

lemma keys_ok_enqueue: "keys_ok s \<Longrightarrow> keys_ok (enqueue_for_placement_ids now ids s)"
  using below_mono [OF _ announce_outbox(2) [of s now ids], of "placements s"]
  by (simp add: keys_ok_def)

text \<open>The state a tick works on after the placements on draining backends are deactivated.\<close>

definition after_drain :: "time \<Rightarrow> db \<Rightarrow> db" where
  "after_drain now s = enqueue_for_placement_ids now (fst (deactivate_on_draining now s)) (snd (deactivate_on_draining now s))"

definition rebalance_batch :: "db \<Rightarrow> nat" where
  "rebalance_batch s = nat (max 1 (placement_rebalance_batch_size (the_node_policy s)))"

definition rebalance_nodes :: "time \<Rightarrow> db \<Rightarrow> uuid list" where
  "rebalance_nodes now s = find_healthy_backend_node_ids now (max 30 (stale_after_sec (the_node_policy s))) s"

lemma after_drain_frame [simp]:
  "placements (after_drain now s) = placements (snd (deactivate_on_draining now s))"
  "keys_ok s \<Longrightarrow> keys_ok (after_drain now s)"
  by (simp_all add: after_drain_def keys_ok_enqueue deactivate_on_draining_keys)

lemma rebalance_tick_eq:
  "rebalance_tick now s =
     (let missing = find_missing_placements (rebalance_nodes now s) (rebalance_batch s) (after_drain now s) in
      if length (rebalance_nodes now s) < 2
      then Inr (0, if fst (deactivate_on_draining now s) = [] then s else after_drain now s)
      else if missing = [] then Inr (0, s)
      else case bulk_upsert_set_pending now missing ds_active (Some ''rebalance'') (after_drain now s) of
             Inl e \<Rightarrow> Inl e
           | Inr (created, s3) \<Rightarrow> Inr (length created, enqueue_for_placement_ids now created s3))"
proof -
  have "find_healthy_backend_node_ids now (max 30 (stale_after_sec (the_node_policy s))) (after_drain now s) = rebalance_nodes now s"
    unfolding rebalance_nodes_def by (rule find_healthy_frame) (simp_all add: after_drain_def)
  then show ?thesis
    unfolding rebalance_tick_def rebalance_batch_def [symmetric] split_def enqueue_for_ids_if
      after_drain_def [symmetric] Let_def
    by simp
qed

text \<open>C30: Rebalancing fills the gaps: a tick that creates placements, fewer of them than the batch size,
  leaves none missing, that is, every key with an active placement has one on every healthy backend,
  and it never fails on the unique constraint as long as ids are unique.\<close>

theorem rebalance_fills_gaps:
  assumes "keys_ok s" and "ids_ok (nodes s)"
  shows "(\<exists>r. rebalance_tick now s = Inr r) \<and>
         (\<forall>n s'. rebalance_tick now s = Inr (n, s') \<and> 0 < n \<and> n < rebalance_batch s \<longrightarrow>
            find_missing_placements (rebalance_nodes now s) b s' = [] \<and>
            (\<forall>k \<in> set (active_keys s'). \<forall>h \<in> set (rebalance_nodes now s). has_active s' (k, h)))"
proof -
  let ?d = "after_drain now s" and ?ns = "rebalance_nodes now s" and ?b = "rebalance_batch s"
  let ?all = "filter (\<lambda>kn. \<not> has_active ?d kn) (List.product (active_keys ?d) ?ns)"
  let ?missing = "find_missing_placements ?ns ?b ?d"
  have "distinct ?ns"
    using assms(2) by (simp add: rebalance_nodes_def find_healthy_backend_node_ids_def ids_ok_def distinct_map_filter)
  moreover have "distinct (active_keys ?d)" by (simp add: active_keys_def)
  ultimately have dist: "distinct ?missing" by (simp add: find_missing_eq distinct_product)
  have bulk: "bulk_upsert_set_pending now ?missing ds_active (Some ''rebalance'') ?d =
      Inr (upsert_pairs now ds_active (Some ''rebalance'') ?missing ?d)"
    using dist by (cases "?missing = []") (simp_all add: bulk_upsert_set_pending_def)
  have total: "\<exists>r. rebalance_tick now s = Inr r"
    unfolding rebalance_tick_eq Let_def bulk by (simp split: prod.split)
  have fill: "\<forall>k \<in> set (active_keys s'). \<forall>h \<in> set ?ns. has_active s' (k, h)"
    if r: "rebalance_tick now s = Inr (n, s')" "0 < n" "n < ?b" for n s'
  proof -
    let ?u = "upsert_pairs now ds_active (Some ''rebalance'') ?missing ?d"
    have n: "n = length ?missing" and s': "s' = enqueue_for_placement_ids now (fst ?u) (snd ?u)"
      using r(1,2) unfolding rebalance_tick_eq Let_def bulk
      by (auto simp: length_upsert_pairs split_def split: if_splits)
    have "?missing = ?all" using n r(3) by (simp add: find_missing_eq)
    have act: "has_active s' kn \<longleftrightarrow> has_active ?d kn \<or> kn \<in> set ?all" for kn
      using upsert_pairs_has_active [of ?d now "Some ''rebalance''" ?missing kn] assms(1)
      by (simp only: \<open>?missing = ?all\<close> s' has_active_frame [OF enqueue_for_placement_ids_frame(3)] after_drain_frame)
    then show ?thesis by (auto simp: active_keys_mem)
  qed
  moreover have "find_missing_placements ?ns b s' = []"
    if "\<forall>k \<in> set (active_keys s'). \<forall>h \<in> set ?ns. has_active s' (k, h)" for s'
    using that by (simp add: find_missing_eq filter_empty_conv)
  ultimately show ?thesis using total by blast
qed

definition rebalance_db :: db where
  "rebalance_db = sample_db\<lparr>
     nodes := [sample_node 2 ''backend'', sample_node 3 ''backend''],
     agent_states := [sample_agent_state 2 0, sample_agent_state 3 0],
     routes := [(sample_route 50)\<lparr>entry_node_id := Some 9\<rparr>, (sample_route 50)\<lparr>row_id := 11, route_node_id := 3, entry_node_id := Some 9\<rparr>],
     placements := [sample_placement 20 7 2]\<rparr>"

lemma rebalance_db_facts:
  "keys_ok rebalance_db" "ids_ok (nodes rebalance_db)" "rebalance_batch rebalance_db = 200"
  "rebalance_nodes 5 rebalance_db = [2, 3]"
  "deactivate_on_draining 5 rebalance_db = ([], rebalance_db)"
  by (simp_all add: keys_ok_def ids_ok_def below_def rebalance_db_def rebalance_batch_def rebalance_nodes_def
      find_healthy_backend_node_ids_def deactivate_on_draining_def update_where_def
      default_node_policy_def agent_state_of_def get_one_by_def sample_db_def sample_node_def
      sample_agent_state_def sample_route_def usec_def Let_def)

theorem rebalance_fills_gaps_witness:
  "\<exists>s'. rebalance_tick 5 rebalance_db = Inr (1, s') \<and> find_missing_placements [2, 3] 200 s' = []"
proof -
  have d: "after_drain 5 rebalance_db = rebalance_db"
    by (simp add: after_drain_def rebalance_db_facts enqueue_for_no_ids)
  have m: "find_missing_placements [2, 3] 200 rebalance_db = [(7, 3)]"
    by (simp add: find_missing_placements_def active_keys_def rebalance_db_def)
  have "\<exists>s'. rebalance_tick 5 rebalance_db = Inr (1, s')"
    unfolding rebalance_tick_eq d rebalance_db_facts Let_def m
    by (simp add: bulk_upsert_set_pending_def split_def Let_def)
  then obtain s' where "rebalance_tick 5 rebalance_db = Inr (1, s')" by blast
  with rebalance_fills_gaps [OF rebalance_db_facts(1,2), of 5 200] show ?thesis
    by (auto simp: rebalance_db_facts)
qed

subsection \<open>Draining backends\<close>

text \<open>
  Two things go wrong when a backend drains.  Once every key is placed on every healthy backend,
  a tick returns before the commit, so the placements on the draining backend are never
  deactivated; and when the deactivation is committed, the rows keep the state \<open>applied\<close> although
  no backend has confirmed the new version, so the retry of failed and pending placements never
  looks at them.
\<close>

theorem rebalance_forgets_draining:
  assumes "2 \<le> length (rebalance_nodes now s)"
    and "find_missing_placements (rebalance_nodes now s) (rebalance_batch s) (after_drain now s) = []"
  shows "rebalance_tick now s = Inr (0, s)"
  using assms by (simp add: rebalance_tick_eq Let_def)

theorem draining_placement_not_retried:
  assumes "p \<in> set (placements s)" "is_active p" "desired_state p = ds_active" "applied_state p = as_applied"
    and "placement_ck p" and "n \<in> set (nodes s)" "row_id n = backend_node_id p" "is_draining n"
  shows "\<exists>q \<in> set (placements (snd (deactivate_on_draining now s))). row_id q = row_id p \<and>
           desired_state q = ds_inactive \<and> applied_version q < op_version q \<and>
           \<not> stale_in as_error later t q \<and> \<not> stale_in as_pending later t q"
proof -
  let ?q = "p\<lparr>desired_state := ds_inactive, op_version := op_version p + 1,
     last_migration_reason := Some ''backend_draining'', updated_at := now\<rparr>"
  have "?q \<in> set (placements (snd (deactivate_on_draining now s)))"
    using assms(1-3,6-8) by (auto simp: deactivate_on_draining_def Let_def set_update_where)
  then show ?thesis
    using assms(4,5) by (intro bexI [of _ ?q]) (auto simp: stale_in_def placement_ck_def)
qed

end
