(* ===== verification/Auto_Heal.thy ===== *)
theory Auto_Heal
  imports Node_Heartbeat Probe_Signals Placement_Service
begin

text \<open>
  \<open>services/nodes/auto_heal_service.py\<close> and the reconciler that runs it: nodes that stopped
  reporting are marked unhealthy and drained, the users that are left without any healthy backend
  are moved to others, and nodes that came back are put into service again.

  The rows a query returned are objects of the session, which an update of the row also updates;
  the loops below therefore read the current row.  Metrics and logs are left out; events for the
  notification service are returned.
\<close>

section \<open>Configuration\<close>

record heal_config =
  hc_port :: int
  hc_notify :: bool
  hc_stale_after_sec :: int
  hc_max_nodes :: int
  hc_auto_undrain :: bool
  hc_cooldown_sec :: int

definition heal_config_of :: "int \<Rightarrow> bool \<Rightarrow> node_policy \<Rightarrow> heal_config" where
  "heal_config_of port notify pol =
     \<lparr>hc_port = port, hc_notify = notify, hc_stale_after_sec = max 30 (stale_after_sec pol),
      hc_max_nodes = min 500 (max 1 (auto_heal_max_nodes pol)), hc_auto_undrain = auto_undrain_enabled pol,
      hc_cooldown_sec = max 0 (auto_heal_drain_cooldown_sec pol)\<rparr>"

record heal_out =
  processed_nodes :: nat
  drained_nodes :: nat
  migrated_nodes :: nat
  migrated_placements :: nat
  skipped_nodes :: nat
  undrained_nodes :: nat
  orphan_active_placements :: nat

definition heal_out_zero :: heal_out where
  "heal_out_zero =
     \<lparr>processed_nodes = 0, drained_nodes = 0, migrated_nodes = 0, migrated_placements = 0, skipped_nodes = 0,
      undrained_nodes = 0, orphan_active_placements = 0\<rparr>"

section \<open>The state of a node\<close>

definition list_active_with_agent_state :: "db \<Rightarrow> (vpn_node \<times> node_agent_state option) list" where
  "list_active_with_agent_state s =
     map (\<lambda>n. (n, agent_state_of s (row_id n))) (sort_key node_name (filter is_active (nodes s)))"

definition freshness :: "node_agent_state option \<Rightarrow> time \<Rightarrow> time option" where
  "freshness st now = map_option (\<lambda>seen. max 0 (now - seen)) (Option.bind st last_seen_at)"

definition empty_meta :: heartbeat_meta where
  "empty_meta = \<lparr>consecutive_unhealthy = 0, consecutive_healthy = 0, drain_reason = None, drained_at = None\<rparr>"

definition stored_meta :: "node_agent_state \<Rightarrow> heartbeat_meta" where
  "stored_meta st = (case d_heartbeat (details st) of None \<Rightarrow> empty_meta | Some m \<Rightarrow> m)"

definition extract_heartbeat_meta :: "node_agent_state option \<Rightarrow> heartbeat_meta option" where
  "extract_heartbeat_meta st = map_option stored_meta st"

definition extract_drain_reason :: "heartbeat_meta option \<Rightarrow> string option" where
  "extract_drain_reason m =
     (case Option.bind m drain_reason of
        None \<Rightarrow> None
      | Some r \<Rightarrow> if py_strip r = [] then None else Some (py_strip r))"

definition is_probe_drain_reason :: "string option \<Rightarrow> bool" where
  "is_probe_drain_reason r = (case r of None \<Rightarrow> False | Some v \<Rightarrow> take 6 v = ''probe_'')"

definition is_within_drain_cooldown :: "heal_config \<Rightarrow> node_agent_state option \<Rightarrow> time \<Rightarrow> bool" where
  "is_within_drain_cooldown cfg st now =
     (if hc_cooldown_sec cfg \<le> 0 then False
      else case extract_heartbeat_meta st of
             None \<Rightarrow> False
           | Some m \<Rightarrow>
               if drain_reason m \<noteq> Some DRAIN_REASON_UNHEALTHY_HEARTBEAT then False
               else case drained_at m of None \<Rightarrow> False | Some d \<Rightarrow> now - d < usec (hc_cooldown_sec cfg))"

definition unavailability_reason ::
  "heal_config \<Rightarrow> vpn_node option \<Rightarrow> node_agent_state option \<Rightarrow> time \<Rightarrow> string option" where
  "unavailability_reason cfg node st now =
     (case node of
        None \<Rightarrow> Some ''missing_node''
      | Some n \<Rightarrow>
          if \<not> is_active n then Some ''node_inactive''
          else if \<not> is_enabled n then Some ''node_disabled''
          else if is_draining n then (if is_within_drain_cooldown cfg st now then None else Some ''node_draining'')
          else case st of
                 None \<Rightarrow> Some ''state_missing''
               | Some a \<Rightarrow>
                   if \<not> is_healthy a then Some ''state_unhealthy''
                   else case freshness st now of
                          None \<Rightarrow> Some ''state_missing_last_seen''
                        | Some f \<Rightarrow> if f > usec (hc_stale_after_sec cfg) then Some ''state_stale'' else None)"

definition record_drain_reason :: "time \<Rightarrow> uuid \<Rightarrow> node_agent_state option \<Rightarrow> string \<Rightarrow> db \<Rightarrow> db" where
  "record_drain_reason now node st reason s =
     (case st of
        None \<Rightarrow> s
      | Some a \<Rightarrow>
          let m = (stored_meta a)\<lparr>drain_reason := Some reason, drained_at := Some now\<rparr>
          in update_by_node_id node (\<lambda>x. x\<lparr>details := (details a)\<lparr>d_heartbeat := Some m\<rparr>, updated_at := now\<rparr>) s)"

definition clear_drain_reason :: "time \<Rightarrow> uuid \<Rightarrow> node_agent_state option \<Rightarrow> db \<Rightarrow> db" where
  "clear_drain_reason now node st s =
     (case st of
        None \<Rightarrow> s
      | Some a \<Rightarrow>
          let m = stored_meta a in
          if drain_reason m = None \<and> drained_at m = None then s
          else update_by_node_id node
                 (\<lambda>x. x\<lparr>details := (details a)\<lparr>d_heartbeat := Some (m\<lparr>drain_reason := None, drained_at := None\<rparr>)\<rparr>,
                        updated_at := now\<rparr>) s)"

section \<open>Silent nodes become unhealthy\<close>

definition observe_node ::
  "heal_config \<Rightarrow> time \<Rightarrow> vpn_node \<times> node_agent_state option \<Rightarrow> notification list \<times> db \<Rightarrow> notification list \<times> db" where
  "observe_node cfg now = (\<lambda>(n, st) (ev, s).
     case (st, freshness st now) of
       (Some a, Some f) \<Rightarrow>
         if is_healthy a \<and> f > usec (hc_stale_after_sec cfg)
         then (ev @ (case last_seen_at a of
                       Some seen \<Rightarrow>
                         if hc_notify cfg
                         then [NodeDown (row_id n) (node_name n) (region n) seen 0 (row_id n, timestamp seen)] else []
                     | None \<Rightarrow> []),
               update_by_node_id (row_id n) (\<lambda>x. x\<lparr>is_healthy := False, updated_at := now\<rparr>) s)
         else (ev, s)
     | _ \<Rightarrow> (ev, s))"

definition observe_node_freshness :: "heal_config \<Rightarrow> time \<Rightarrow> db \<Rightarrow> notification list \<times> db" where
  "observe_node_freshness cfg now s = fold (observe_node cfg now) (list_active_with_agent_state s) ([], s)"

section \<open>Moving the users that have no other backend\<close>

text \<open>
  \<open>target_load\<close> and \<open>groups\<close> of the distribution loop; the groups keep the order in which the
  targets were first used.
\<close>

fun add_to_group :: "uuid \<Rightarrow> uuid \<Rightarrow> (uuid \<times> uuid list) list \<Rightarrow> (uuid \<times> uuid list) list" where
  "add_to_group t p [] = [(t, [p])]"
| "add_to_group t p ((u, ps) # gs) = (if u = t then (u, ps @ [p]) # gs else (u, ps) # add_to_group t p gs)"

definition available_targets :: "vpn_node list \<Rightarrow> uuid set \<Rightarrow> vpn_node list" where
  "available_targets candidates existing =
     (let free = filter (\<lambda>c. row_id c \<notin> existing) candidates in if free = [] then candidates else free)"

fun distribute ::
  "vpn_node list \<Rightarrow> (uuid \<Rightarrow> uuid set) \<Rightarrow> user_placement list \<Rightarrow> (uuid \<Rightarrow> nat) \<Rightarrow> (uuid \<times> uuid list) list
   \<Rightarrow> (uuid \<times> uuid list) list" where
  "distribute candidates key_nodes [] load groups = groups"
| "distribute candidates key_nodes (p # ps) load groups =
     (case min_by (\<lambda>c. load (row_id c)) (available_targets candidates (key_nodes (key_id p))) of
        None \<Rightarrow> groups
      | Some best \<Rightarrow>
          distribute candidates key_nodes ps (load(row_id best := Suc (load (row_id best))))
            (add_to_group (row_id best) (row_id p) groups))"

fun migrate_groups :: "time \<Rightarrow> (uuid \<times> uuid list) list \<Rightarrow> db \<Rightarrow> (nat \<times> db) result" where
  "migrate_groups now [] s = Inr (0, s)"
| "migrate_groups now ((target, ids) # gs) s =
     (case bulk_migrate_backend ids target (Some ''node_auto_heal'') now s of
        Inl e \<Rightarrow> Inl e
      | Inr ((k, target_ids), s1) \<Rightarrow>
          let s2 = (if target_ids \<noteq> [] then enqueue_for_placement_ids now target_ids s1 else s1) in
          (case migrate_groups now gs s2 of Inl e \<Rightarrow> Inl e | Inr (n, s3) \<Rightarrow> Inr (k + n, s3)))"

definition wanted_on :: "uuid \<Rightarrow> db \<Rightarrow> user_placement list" where
  "wanted_on i s = filter (\<lambda>p. desired_state p = ds_active) (list_active (Some i) None s)"

definition placed_on :: "uuid \<Rightarrow> db \<Rightarrow> uuid \<Rightarrow> uuid set" where
  "placed_on i s = map_active_backend_nodes_by_key (remdups (map key_id (wanted_on i s))) s"

definition orphans :: "uuid \<Rightarrow> vpn_node list \<Rightarrow> db \<Rightarrow> user_placement list" where
  "orphans i candidates s =
     filter (\<lambda>p. (placed_on i s (key_id p) - {i}) \<inter> row_id ` set candidates = {}) (wanted_on i s)"

definition smart_migrate_placements :: "time \<Rightarrow> vpn_node option \<Rightarrow> uuid \<Rightarrow> db \<Rightarrow> (nat \<times> db) result" where
  "smart_migrate_placements now node i s =
     (if wanted_on i s = [] then Inr (0, s)
      else let candidates = select_nodes now (map_option region node) [i] s in
           if candidates = [] then Inr (0, s)
           else let os = orphans i candidates s in
                if os = [] then Inr (0, s)
                else migrate_groups now (distribute candidates (placed_on i s) os (\<lambda>_. 0) []) s)"

section \<open>Draining what is unavailable\<close>

definition drain_unavailable ::
  "heal_config \<Rightarrow> time \<Rightarrow> vpn_node \<Rightarrow> node_agent_state option \<Rightarrow> nat \<Rightarrow> db \<Rightarrow> (notification list \<times> db) result" where
  "drain_unavailable cfg now n st cnt s =
     (let s1 = s\<lparr>nodes := update_by_id (row_id n)
                  (\<lambda>x. x\<lparr>is_draining := True, drain_source := Some ''auto_heal'', updated_at := now\<rparr>) (nodes s)\<rparr>;
          s2 = record_drain_reason now (row_id n) st DRAIN_REASON_UNHEALTHY_HEARTBEAT s1
      in case announce_backend (hc_port cfg) now n s2 of
           Inl e \<Rightarrow> Inl e
         | Inr s3 \<Rightarrow>
             Inr (case Option.bind st last_seen_at of
                    Some seen \<Rightarrow>
                      if hc_notify cfg
                      then [NodeDown (row_id n) (node_name n) (region n) seen cnt (row_id n, timestamp seen)] else []
                  | None \<Rightarrow> [], s3))"

definition drain_if_serving ::
  "heal_config \<Rightarrow> time \<Rightarrow> uuid \<Rightarrow> nat \<Rightarrow> db \<Rightarrow> (notification list \<times> nat \<times> db) result" where
  "drain_if_serving cfg now i cnt s =
     (case get_by_id i (nodes s) of
        None \<Rightarrow> Inr ([], 0, s)
      | Some n \<Rightarrow>
          if is_draining n then Inr ([], 0, s)
          else case drain_unavailable cfg now n (agent_state_of s i) cnt s of
                 Inl e \<Rightarrow> Inl e
               | Inr (ev, s1) \<Rightarrow> Inr (ev, 1, s1))"

fun heal_sources ::
  "heal_config \<Rightarrow> time \<Rightarrow> (uuid \<times> nat) list \<Rightarrow> notification list \<times> heal_out \<times> db
   \<Rightarrow> (notification list \<times> heal_out \<times> db) result" where
  "heal_sources cfg now [] (ev, out, s) = Inr (ev, out, s)"
| "heal_sources cfg now ((i, cnt) # is) (ev, out, s) =
     (if int (processed_nodes out) \<ge> hc_max_nodes cfg then Inr (ev, out, s)
      else if cnt = 0 \<or> unavailability_reason cfg (get_by_id i (nodes s)) (agent_state_of s i) now = None
      then heal_sources cfg now is (ev, out, s)
      else case drain_if_serving cfg now i cnt s of
             Inl e \<Rightarrow> Inl e
           | Inr (ev1, d, s1) \<Rightarrow>
               (case smart_migrate_placements now (get_by_id i (nodes s)) i s1 of
                  Inl e \<Rightarrow> Inl e
                | Inr (k, s2) \<Rightarrow>
                    heal_sources cfg now is
                      (ev @ ev1,
                       out\<lparr>processed_nodes := Suc (processed_nodes out), drained_nodes := drained_nodes out + d,
                           orphan_active_placements := orphan_active_placements out + cnt,
                           skipped_nodes := skipped_nodes out + (if k = 0 then 1 else 0),
                           migrated_nodes := migrated_nodes out + (if k = 0 then 0 else 1),
                           migrated_placements := migrated_placements out + k\<rparr>,
                       s2)))"

section \<open>Bringing nodes back\<close>

definition has_recent_probe_recovery :: "uuid \<Rightarrow> time \<Rightarrow> db \<Rightarrow> bool" where
  "has_recent_probe_recovery i now s =
     (let pol = the_probe_policy s in
      if \<not> probe_auto_undrain_enabled pol then False
      else let max_age = max 30 (auto_undrain_max_probe_age_sec pol);
               min_successes = max 1 (auto_undrain_min_consecutive_successes pol);
               src = (if truthy (auto_undrain_source pol) then auto_undrain_source pol
                      else if truthy (auto_drain_source pol) then auto_drain_source pol else None)
           in case get_latest_for_backend_node i src s of
                None \<Rightarrow> False
              | Some latest \<Rightarrow>
                  if \<not> ps_is_reachable latest \<or> now - ps_checked_at latest > usec max_age then False
                  else int (count_leading ps_is_reachable
                         (list_recent_for_backend_node (nat (max 10 (min_successes * 3))) i src s)) \<ge> min_successes)"

definition may_recover :: "heal_config \<Rightarrow> time \<Rightarrow> (uuid \<times> nat) list \<Rightarrow> vpn_node \<Rightarrow> node_agent_state option \<Rightarrow> db \<Rightarrow> bool" where
  "may_recover cfg now counts n st s \<longleftrightarrow>
     is_active n \<and> is_enabled n \<and> is_draining n \<and> drain_source n \<noteq> Some ''admin'' \<and>
     (case st of None \<Rightarrow> False | Some a \<Rightarrow> is_healthy a) \<and>
     (case freshness st now of None \<Rightarrow> False | Some f \<Rightarrow> \<not> f > usec (hc_stale_after_sec cfg)) \<and>
     (case map_of counts (row_id n) of
        None \<Rightarrow> True
      | Some k \<Rightarrow> k > 0 \<longrightarrow>
          (let reason = extract_drain_reason (extract_heartbeat_meta st) in
           reason = None \<or> reason = Some DRAIN_REASON_UNHEALTHY_HEARTBEAT \<or>
           is_probe_drain_reason reason \<and> has_recent_probe_recovery (row_id n) now s))"

definition recover_node ::
  "heal_config \<Rightarrow> time \<Rightarrow> vpn_node \<Rightarrow> node_agent_state option \<Rightarrow> db \<Rightarrow> (notification list \<times> db) result" where
  "recover_node cfg now n st s =
     (let s1 = s\<lparr>nodes := update_by_id (row_id n)
                  (\<lambda>x. x\<lparr>is_draining := False, drain_source := None, updated_at := now\<rparr>) (nodes s)\<rparr>;
          m = extract_heartbeat_meta st;
          since = Option.bind m drained_at
      in case announce_backend (hc_port cfg) now n (clear_drain_reason now (row_id n) st s1) of
           Inl e \<Rightarrow> Inl e
         | Inr s2 \<Rightarrow>
             Inr (if hc_notify cfg \<and> extract_drain_reason m = Some DRAIN_REASON_UNHEALTHY_HEARTBEAT
                  then [NodeRecovered (row_id n) (node_name n) (region n)
                          (case since of None \<Rightarrow> 0 | Some d \<Rightarrow> max 0 ((now - d) div 1000000))
                          (row_id n, case since of None \<Rightarrow> 0 | Some d \<Rightarrow> timestamp d)]
                  else [], s2))"

fun recover_nodes ::
  "heal_config \<Rightarrow> time \<Rightarrow> (uuid \<times> nat) list \<Rightarrow> uuid list \<Rightarrow> notification list \<times> nat \<times> db
   \<Rightarrow> (notification list \<times> nat \<times> db) result" where
  "recover_nodes cfg now counts [] (ev, k, s) = Inr (ev, k, s)"
| "recover_nodes cfg now counts (i # is) (ev, k, s) =
     (case get_by_id i (nodes s) of
        None \<Rightarrow> recover_nodes cfg now counts is (ev, k, s)
      | Some n \<Rightarrow>
          if \<not> may_recover cfg now counts n (agent_state_of s i) s then recover_nodes cfg now counts is (ev, k, s)
          else case recover_node cfg now n (agent_state_of s i) s of
                 Inl e \<Rightarrow> Inl e
               | Inr (ev1, s1) \<Rightarrow> recover_nodes cfg now counts is (ev @ ev1, Suc k, s1))"

definition recover_draining_nodes ::
  "heal_config \<Rightarrow> time \<Rightarrow> (uuid \<times> nat) list \<Rightarrow> notification list \<times> heal_out \<times> db
   \<Rightarrow> (notification list \<times> heal_out \<times> db) result" where
  "recover_draining_nodes cfg now counts = (\<lambda>(ev, out, s).
     if \<not> hc_auto_undrain cfg then Inr (ev, out, s)
     else case recover_nodes cfg now counts (map (\<lambda>(n, _). row_id n) (list_active_with_agent_state s)) (ev, 0, s) of
            Inl e \<Rightarrow> Inl e
          | Inr (ev1, k, s1) \<Rightarrow> Inr (ev1, out\<lparr>undrained_nodes := k\<rparr>, s1))"

section \<open>One tick\<close>

definition run_once :: "heal_config \<Rightarrow> time \<Rightarrow> db \<Rightarrow> (notification list \<times> heal_out \<times> db) result" where
  "run_once cfg now s =
     (let (ev, s1) = observe_node_freshness cfg now s;
          counts = count_desired_active_by_backend_node s1
      in case heal_sources cfg now (sort_key (\<lambda>(_, k). - int k) counts) (ev, heal_out_zero, s1) of
           Inl e \<Rightarrow> Inl e
         | Inr st \<Rightarrow> recover_draining_nodes cfg now counts st)"

definition auto_heal_tick :: "int \<Rightarrow> bool \<Rightarrow> time \<Rightarrow> db \<Rightarrow> (notification list \<times> heal_out \<times> db) result" where
  "auto_heal_tick port notify now s = run_once (heal_config_of port notify (the_node_policy s)) now s"

section \<open>The distribution is even\<close>

definition group_of :: "(uuid \<times> uuid list) list \<Rightarrow> uuid \<Rightarrow> uuid list" where
  "group_of gs t = (case map_of gs t of None \<Rightarrow> [] | Some ps \<Rightarrow> ps)"

lemma group_of_add: "group_of (add_to_group t p gs) u = group_of gs u @ (if u = t then [p] else [])"
  by (induction gs) (auto simp: group_of_def)

lemma map_fst_add:
  "map fst (add_to_group t p gs) = (if t \<in> set (map fst gs) then map fst gs else map fst gs @ [t])"
proof (induction gs)
  case (Cons g gs)
  then show ?case by (cases g) simp
qed simp

lemma targets_add: "fst ` set (add_to_group t p gs) = insert t (fst ` set gs)"
  using arg_cong [OF map_fst_add [of t p gs], of set] by (auto split: if_splits)

lemma distinct_add: "distinct (map fst gs) \<Longrightarrow> distinct (map fst (add_to_group t p gs))"
  by (simp add: map_fst_add)

lemma mset_add: "mset (concat (map snd (add_to_group t p gs))) = add_mset p (mset (concat (map snd gs)))"
  by (induction gs) auto

definition balanced :: "uuid set \<Rightarrow> (uuid \<Rightarrow> nat) \<Rightarrow> bool" where
  "balanced cs load \<longleftrightarrow> (\<forall>c \<in> cs. \<forall>d \<in> cs. load c \<le> Suc (load d))"

lemma balanced_least:
  "balanced cs load \<Longrightarrow> b \<in> cs \<Longrightarrow> (\<And>c. c \<in> cs \<Longrightarrow> load b \<le> load c) \<Longrightarrow> balanced cs (load(b := Suc (load b)))"
  by (auto simp: balanced_def intro: le_SucI)

lemma distribute_spec:
  assumes "candidates \<noteq> []" "\<And>p. p \<in> set ps \<Longrightarrow> key_nodes (key_id p) \<inter> row_id ` set candidates = {}"
    and "distinct (map fst gs)" "fst ` set gs \<subseteq> row_id ` set candidates"
    and "\<And>c. load c = length (group_of gs c)" "balanced (row_id ` set candidates) load"
    and "gs' = distribute candidates key_nodes ps load gs"
  shows "distinct (map fst gs') \<and> fst ` set gs' \<subseteq> row_id ` set candidates \<and>
    balanced (row_id ` set candidates) (\<lambda>c. length (group_of gs' c)) \<and>
    mset (concat (map snd gs')) = mset (concat (map snd gs)) + mset (map row_id ps)"
  using assms
proof (induction ps arbitrary: load gs)
  case Nil
  then have "load = (\<lambda>c. length (group_of gs c))" by auto
  with Nil show ?case by simp
next
  case (Cons p ps)
  have "filter (\<lambda>c. row_id c \<notin> key_nodes (key_id p)) candidates = candidates"
    using Cons.prems(2) [of p] by (auto simp: filter_id_conv)
  then have av: "available_targets candidates (key_nodes (key_id p)) = candidates" by (simp add: available_targets_def)
  obtain b where b: "min_by (\<lambda>c. load (row_id c)) candidates = Some b" "b \<in> set candidates"
    using min_by_Some [OF Cons.prems(1)] by blast
  let ?load = "load(row_id b := Suc (load (row_id b)))" and ?gs = "add_to_group (row_id b) (row_id p) gs"
  have gs: "distinct (map fst ?gs)" "fst ` set ?gs \<subseteq> row_id ` set candidates"
    using Cons.prems(3,4) b(2) by (simp_all add: distinct_add targets_add)
  have len: "?load c = length (group_of ?gs c)" for c using Cons.prems(5) by (simp add: group_of_add)
  have bal: "balanced (row_id ` set candidates) ?load"
    using Cons.prems(6) b(2) min_by_least [OF b(1)] by (intro balanced_least) auto
  have eq: "gs' = distribute candidates key_nodes ps ?load ?gs" using Cons.prems(7) av b(1) by simp
  have "key_nodes (key_id p) \<inter> row_id ` set candidates = {}" if "p \<in> set ps" for p
    using Cons.prems(2) that by simp
  from Cons.IH [OF Cons.prems(1) this gs len bal eq] mset_add [of "row_id b" "row_id p" gs]
  show ?case by simp
qed

section \<open>Nobody is left behind\<close>

text \<open>The key of \<open>p\<close> is on \<open>t\<close> now: wanted, to be confirmed, and no longer on its old backend.\<close>

definition moved :: "uuid \<Rightarrow> user_placement \<Rightarrow> db \<Rightarrow> bool" where
  "moved t p s \<longleftrightarrow>
     (\<exists>q \<in> set (placements s). key_id q = key_id p \<and> backend_node_id q = t \<and> is_active q \<and>
        desired_state q = ds_active \<and> applied_state q = as_pending \<and> applied_version q < op_version q) \<and>
     (\<forall>q \<in> set (placements s). placement_pair q = placement_pair p \<longrightarrow> \<not> is_active q)"

definition serves :: "uuid \<Rightarrow> user_placement \<Rightarrow> bool" where
  "serves i p \<longleftrightarrow> is_active p \<and> backend_node_id p = i \<and> desired_state p = ds_active"

lemma migrate_group_ok:
  assumes inv: "placements_inv s" and t: "t \<noteq> i" and d: "distinct ids"
    and src: "\<And>x. x \<in> set ids \<Longrightarrow> \<exists>p \<in> set (placements s). row_id p = x \<and> serves i p"
    and ps: "ps = {p \<in> set (placements s). row_id p \<in> set ids}"
  shows "\<exists>tids s'. bulk_migrate_backend ids t r now s = Inr ((length ids, tids), s') \<and> placements_inv s' \<and>
    (\<forall>p \<in> ps. moved t p s') \<and>
    (\<forall>q \<in> set (placements s). key_id q \<notin> key_id ` ps \<longrightarrow> q \<in> set (placements s')) \<and>
    (\<forall>q \<in> set (placements s'). is_active q \<and> backend_node_id q = i \<longrightarrow> q \<in> set (placements s))"
proof -
  let ?src = "migration_sources ids s"
  have ids: "ids_ok (placements s)" using inv by (simp add: placements_inv_def)
  have serves: "serves i p" if "p \<in> ps" for p
    using src [of "row_id p"] that ids_ok_unique [OF ids] unfolding ps by auto
  have set_src: "set ?src = ps"
    using serves by (auto simp: migration_sources_def ps serves_def)
  have "\<forall>p \<in> set ?src. backend_node_id p = i" using serves set_src by (simp add: serves_def)
  from migratable_same_backend [OF inv this] t have m: "migratable ids t s" by simp
  have "length ?src = card ps"
    using ids set_src distinct_card [of ?src] by (simp add: migration_sources_def ids_ok_def distinct_map)
  also have "\<dots> = card (row_id ` ps)"
    using ids by (intro card_image [symmetric] inj_onI) (auto simp: ps intro: ids_ok_unique)
  also have "row_id ` ps = set ids" using src by (fastforce simp: ps)
  finally have len: "length ?src = length ids" using d by (simp add: distinct_card)
  from bulk_migrate_correct_all [OF m, of r now, unfolded len set_src] obtain tids s' where
    1: "bulk_migrate_backend ids t r now s = Inr ((length ids, tids), s')" and
    2: "\<forall>p \<in> ps. (\<exists>q \<in> set (placements s'). key_id q = key_id p \<and> backend_node_id q = t \<and> is_active q \<and>
               desired_state q = desired_state p \<and> applied_state q = as_pending \<and>
               applied_version q < op_version q \<and> row_id q \<in> set tids) \<and>
            (\<forall>q \<in> set (placements s'). placement_pair q = placement_pair p \<longrightarrow> \<not> is_active q)" and
    3: "\<forall>q \<in> set (placements s). q \<notin> ps \<and> \<not> (backend_node_id q = t \<and> key_id q \<in> key_id ` ps) \<longrightarrow> q \<in> set (placements s')" and
    4: "\<forall>q \<in> set (placements s'). is_active q \<and> backend_node_id q \<noteq> t \<longrightarrow> q \<in> set (placements s)"
    by (elim exE conjE) (rule that)
  have "moved t p s'" if "p \<in> ps" for p
    using bspec [OF 2 that] serves [OF that] unfolding moved_def serves_def by metis
  moreover have "placements_inv s'"
    using bulk_migrate_backend_change [OF inv 1] by (rule placement_change_inv)
  moreover have "\<forall>q \<in> set (placements s). key_id q \<notin> key_id ` ps \<longrightarrow> q \<in> set (placements s')"
    using 3 by blast
  ultimately show ?thesis using 1 4 t by (intro exI conjI) auto
qed

definition to_move :: "(uuid \<times> uuid list) list \<Rightarrow> db \<Rightarrow> user_placement set" where
  "to_move gs s = {p \<in> set (placements s). row_id p \<in> set (concat (map snd gs))}"

lemma to_move_Cons: "to_move ((t, ids) # gs) s = {p \<in> set (placements s). row_id p \<in> set ids} \<union> to_move gs s"
  by (auto simp: to_move_def)

lemma moved_cong: "placements s' = placements s \<Longrightarrow> moved t p s' = moved t p s"
  by (simp add: moved_def)

lemma serving_keys:
  assumes "placements_inv s" "p \<in> set (placements s)" "q \<in> set (placements s)" "serves i p" "serves i q" "key_id p = key_id q"
  shows "p = q"
  using placements_inv_unique [OF assms(1,2,3)] assms(4-6) by (simp add: serves_def placement_pair_def)

text \<open>A row that serves stays as it is while the placements of other keys are moved.\<close>

lemma migrate_groups_ok:
  assumes "placements_inv s" "distinct (concat (map snd gs))" "i \<notin> fst ` set gs"
    and "\<And>x. x \<in> set (concat (map snd gs)) \<Longrightarrow> \<exists>p \<in> set (placements s). row_id p = x \<and> serves i p"
  shows "\<exists>s'. migrate_groups now gs s = Inr (length (concat (map snd gs)), s') \<and> placements_inv s' \<and>
    (\<forall>(t, ids) \<in> set gs. \<forall>p \<in> set (placements s). row_id p \<in> set ids \<longrightarrow> moved t p s') \<and>
    (\<forall>q \<in> set (placements s). key_id q \<notin> key_id ` to_move gs s \<longrightarrow> q \<in> set (placements s')) \<and>
    (\<forall>q \<in> set (placements s'). is_active q \<and> backend_node_id q = i \<longrightarrow> q \<in> set (placements s))"
  using assms
proof (induction gs arbitrary: s)
  case (Cons g gs)
  obtain t ids where g: "g = (t, ids)" by (cases g)
  let ?ps = "{p \<in> set (placements s). row_id p \<in> set ids}"
  have "t \<noteq> i" "distinct ids" using Cons.prems(2,3) g by auto
  moreover have "\<exists>p \<in> set (placements s). row_id p = x \<and> serves i p" if "x \<in> set ids" for x
    using Cons.prems(4) [of x] that g by simp
  ultimately obtain tids s1 where 1: "bulk_migrate_backend ids t (Some ''node_auto_heal'') now s = Inr ((length ids, tids), s1)"
    and inv1: "placements_inv s1" and moved1: "\<forall>p \<in> ?ps. moved t p s1"
    and keep1: "\<forall>q \<in> set (placements s). key_id q \<notin> key_id ` ?ps \<longrightarrow> q \<in> set (placements s1)"
    and old1: "\<forall>q \<in> set (placements s1). is_active q \<and> backend_node_id q = i \<longrightarrow> q \<in> set (placements s)"
    using migrate_group_ok [OF Cons.prems(1) _ _ _ refl, of t i ids "Some ''node_auto_heal''" now] by blast
  define s2 where "s2 = (if tids \<noteq> [] then enqueue_for_placement_ids now tids s1 else s1)"
  have p2: "placements s2 = placements s1" "uuid_supply s1 \<le> uuid_supply s2"
    by (simp_all add: s2_def announce_outbox(2))
  have inv2: "placements_inv s2" by (rule placements_inv_cong [OF p2 inv1])
  have ids: "ids_ok (placements s)" using Cons.prems(1) by (simp add: placements_inv_def)
  have first: "serves i p" if "p \<in> ?ps" for p
    using Cons.prems(4) [of "row_id p"] that g ids_ok_unique [OF ids] by auto
  have rest: "p \<in> set (placements s1) \<and> key_id p \<notin> key_id ` ?ps"
    if p: "p \<in> set (placements s)" "row_id p \<in> set (concat (map snd gs))" for p
  proof -
    have sp: "serves i p" using Cons.prems(4) [of "row_id p"] p g ids_ok_unique [OF ids] by auto
    have np: "row_id p \<notin> set ids" using Cons.prems(2) p(2) g by auto
    have "key_id p \<notin> key_id ` ?ps"
    proof
      assume "key_id p \<in> key_id ` ?ps"
      then obtain x where x: "x \<in> ?ps" "key_id p = key_id x" by (rule imageE) simp
      then have "p = x" using serving_keys [OF Cons.prems(1) p(1) _ sp first [OF x(1)]] by simp
      with x(1) np show False by simp
    qed
    with keep1 p(1) show ?thesis by blast
  qed
  have "distinct (concat (map snd gs))" "i \<notin> fst ` set gs" using Cons.prems(2,3) by auto
  moreover have "\<exists>p \<in> set (placements s2). row_id p = x \<and> serves i p" if "x \<in> set (concat (map snd gs))" for x
  proof -
    have "x \<in> set (concat (map snd (g # gs)))" using that by simp
    from Cons.prems(4) [OF this] obtain p where "p \<in> set (placements s)" "row_id p = x" "serves i p" by blast
    with rest that show ?thesis unfolding p2(1) by blast
  qed
  ultimately obtain s' where 2: "migrate_groups now gs s2 = Inr (length (concat (map snd gs)), s')" "placements_inv s'"
    and moved2: "\<forall>(t, ids) \<in> set gs. \<forall>p \<in> set (placements s2). row_id p \<in> set ids \<longrightarrow> moved t p s'"
    and keep2: "\<forall>q \<in> set (placements s2). key_id q \<notin> key_id ` to_move gs s2 \<longrightarrow> q \<in> set (placements s')"
    and old2: "\<forall>q \<in> set (placements s'). is_active q \<and> backend_node_id q = i \<longrightarrow> q \<in> set (placements s2)"
    using Cons.IH [OF inv2] by blast
  have keys: "key_id ` to_move gs s2 \<subseteq> key_id ` to_move gs s"
  proof -
    have "to_move gs s2 \<subseteq> to_move gs s"
    proof
      fix q assume q: "q \<in> to_move gs s2"
      then obtain p where p: "p \<in> set (placements s)" "row_id p = row_id q" "serves i p"
        using Cons.prems(4) [of "row_id q"] by (auto simp: to_move_def)
      with q rest have "p \<in> set (placements s1)" by (simp add: to_move_def)
      moreover have "q \<in> set (placements s1)" using q p2 by (simp add: to_move_def)
      ultimately have "p = q"
        using inv1 p(2) ids_ok_unique by (auto simp: placements_inv_def)
      with p(1) q show "q \<in> to_move gs s" by (simp add: to_move_def)
    qed
    then show ?thesis by blast
  qed
  show ?case
  proof (intro exI [of _ s'] conjI)
    show "migrate_groups now (g # gs) s = Inr (length (concat (map snd (g # gs))), s')"
      using 1 2(1) by (simp add: g s2_def Let_def)
    show "placements_inv s'" by (rule 2(2))
    show "\<forall>q \<in> set (placements s'). is_active q \<and> backend_node_id q = i \<longrightarrow> q \<in> set (placements s)"
      using old1 old2 p2(1) by auto
    show "\<forall>q \<in> set (placements s). key_id q \<notin> key_id ` to_move (g # gs) s \<longrightarrow> q \<in> set (placements s')"
    proof (intro ballI impI)
      fix q assume q: "q \<in> set (placements s)" "key_id q \<notin> key_id ` to_move (g # gs) s"
      then have "key_id q \<notin> key_id ` ?ps" "key_id q \<notin> key_id ` to_move gs s2"
        using keys unfolding g to_move_Cons by blast+
      with keep1 keep2 q(1) p2(1) show "q \<in> set (placements s')" by auto
    qed
    show "\<forall>(t, ids) \<in> set (g # gs). \<forall>p \<in> set (placements s). row_id p \<in> set ids \<longrightarrow> moved t p s'"
    proof (intro ballI, clarify)
      fix u us p assume u: "(u, us) \<in> set (g # gs)" "p \<in> set (placements s)" "row_id p \<in> set us"
      show "moved u p s'"
      proof (cases "(u, us) \<in> set gs")
        case True
        with u(3) have "row_id p \<in> set (concat (map snd gs))" by (auto intro!: bexI [of _ "(u, us)"])
        with rest u(2) have "p \<in> set (placements s2)" unfolding p2(1) by blast
        with moved2 True u(3) show ?thesis by blast
      next
        case False
        with u(1) g have "u = t" "us = ids" by auto
        with u have p: "p \<in> ?ps" by simp
        from moved1 p have m: "moved t p s1" by blast
        then obtain q where q: "q \<in> set (placements s1)" "key_id q = key_id p" "backend_node_id q = t" "is_active q"
          "desired_state q = ds_active" "applied_state q = as_pending" "applied_version q < op_version q"
          unfolding moved_def by blast
        have "key_id q \<notin> key_id ` to_move gs s"
        proof
          assume "key_id q \<in> key_id ` to_move gs s"
          then obtain x where "x \<in> set (placements s)" "row_id x \<in> set (concat (map snd gs))" "key_id x = key_id p"
            using q(2) unfolding to_move_def by (elim imageE) (metis (no_types, lifting) mem_Collect_eq)
          with rest p show False by (metis (no_types, lifting) imageI)
        qed
        with keys have "key_id q \<notin> key_id ` to_move gs s2" by blast
        with keep2 q(1) p2(1) have q': "q \<in> set (placements s')" by simp
        have "\<not> is_active x" if x: "x \<in> set (placements s')" "placement_pair x = placement_pair p" for x
        proof
          assume a: "is_active x"
          have "backend_node_id x = i" using x(2) first [OF p] by (simp add: placement_pair_def serves_def)
          with old2 x(1) a p2(1) have "x \<in> set (placements s1)" by auto
          with m x(2) a show False unfolding moved_def by blast
        qed
        with q q' show ?thesis unfolding moved_def \<open>u = t\<close> by blast
      qed
    qed
  qed
qed simp

lemma wanted_on_mem: "p \<in> set (wanted_on i s) \<longleftrightarrow> p \<in> set (placements s) \<and> serves i p"
  by (auto simp: wanted_on_def list_active_def limit_rows_def serves_def)

lemma distinct_wanted_on: "placements_inv s \<Longrightarrow> distinct (map row_id (wanted_on i s))"
  by (simp add: wanted_on_def list_active_def limit_rows_def placements_inv_def ids_ok_def
      distinct_map distinct_sort inj_on_def)

lemma mem_placed_on:
  "p \<in> set (wanted_on i s) \<Longrightarrow>
   b \<in> placed_on i s (key_id p) \<longleftrightarrow> (\<exists>q \<in> set (placements s). key_id q = key_id p \<and> is_active q \<and> backend_node_id q = b)"
  by (auto simp: placed_on_def map_active_backend_nodes_by_key_def)

lemma group_of_mem: "distinct (map fst gs) \<Longrightarrow> (t, ids) \<in> set gs \<Longrightarrow> group_of gs t = ids"
  by (simp add: group_of_def map_of_is_SomeI)

lemma candidates_other: "c \<in> set (select_nodes now pr [i] s) \<Longrightarrow> row_id c \<noteq> i"
  by (auto simp: select_nodes_def set_list_available_nodes)

text \<open>
  The target of a placement in a list of groups, and the size of the groups seen from the
  placements.
\<close>

definition target_in :: "(uuid \<times> uuid list) list \<Rightarrow> uuid \<Rightarrow> uuid" where
  "target_in gs x = (case find (\<lambda>(t, ids). x \<in> set ids) gs of None \<Rightarrow> 0 | Some (t, ids) \<Rightarrow> t)"

lemma target_in_eq:
  assumes "distinct (concat (map snd gs))" "(t, ids) \<in> set gs" "x \<in> set ids"
  shows "target_in gs x = t"
  using assms
proof (induction gs)
  case (Cons g gs)
  show ?case
  proof (cases "x \<in> set (snd g)")
    case True
    then have "x \<notin> set (concat (map snd gs))" using Cons.prems(1) by auto
    then have "(t, ids) \<notin> set gs" using Cons.prems(3) by (auto dest!: bspec [of _ _ "(t, ids)"])
    with Cons.prems True show ?thesis by (auto simp: target_in_def)
  next
    case False
    with Cons show ?thesis by (cases g) (auto simp: target_in_def)
  qed
qed simp

lemma card_target_in:
  assumes "distinct (map fst gs)" "distinct (concat (map snd gs))" "set (concat (map snd gs)) = X"
  shows "card {x \<in> X. target_in gs x = c} = length (group_of gs c)"
proof -
  have "{x \<in> X. target_in gs x = c} = set (group_of gs c)"
  proof (intro equalityI subsetI)
    fix x assume x: "x \<in> {x \<in> X. target_in gs x = c}"
    then obtain t ids where t: "(t, ids) \<in> set gs" "x \<in> set ids" using assms(3) by auto
    with x target_in_eq [OF assms(2)] have "t = c" by auto
    with t group_of_mem [OF assms(1)] show "x \<in> set (group_of gs c)" by auto
  next
    fix x assume x: "x \<in> set (group_of gs c)"
    then obtain ids where ids: "map_of gs c = Some ids" "x \<in> set ids"
      by (cases "map_of gs c") (auto simp: group_of_def)
    then have mem: "(c, ids) \<in> set gs" by (simp add: map_of_SomeD)
    then have "x \<in> X" using ids(2) assms(3) by force
    with target_in_eq [OF assms(2) mem ids(2)] show "x \<in> {x \<in> X. target_in gs x = c}" by simp
  qed
  moreover have "distinct (group_of gs c)"
  proof (cases "map_of gs c")
    case (Some ids)
    then have "ids \<in> set (map snd gs)" by (force dest: map_of_SomeD)
    with assms(2) Some show ?thesis unfolding distinct_concat_iff by (simp add: group_of_def)
  qed (simp add: group_of_def)
  ultimately show ?thesis by (simp add: distinct_card)
qed

text \<open>The groups of a migration: each orphan in one of them, the targets among the candidates, evenly filled.\<close>

lemma smart_groups:
  assumes "placements_inv s" "cands = select_nodes now (map_option region node) [i] s" "cands \<noteq> []"
  obtains gs where "smart_migrate_placements now node i s = migrate_groups now gs s"
    "distinct (map fst gs)" "fst ` set gs \<subseteq> row_id ` set cands" "i \<notin> fst ` set gs"
    "balanced (row_id ` set cands) (\<lambda>c. length (group_of gs c))"
    "distinct (concat (map snd gs))" "set (concat (map snd gs)) = row_id ` set (orphans i cands s)"
    "length (concat (map snd gs)) = card (set (orphans i cands s))"
proof -
  let ?os = "orphans i cands s"
  define gs where "gs = (if ?os = [] then [] else distribute cands (placed_on i s) ?os (\<lambda>_. 0) [])"
  have dist: "distinct (map row_id ?os)"
    using distinct_wanted_on [OF assms(1)] unfolding orphans_def by (rule distinct_map_inj_on_filter)
  have i: "i \<notin> row_id ` set cands" using candidates_other [of _ now _ i s] assms(2) by blast
  have free: "placed_on i s (key_id p) \<inter> row_id ` set cands = {}" if "p \<in> set ?os" for p
    using that i by (auto simp: orphans_def)
  have gs: "distinct (map fst gs) \<and> fst ` set gs \<subseteq> row_id ` set cands \<and>
      balanced (row_id ` set cands) (\<lambda>c. length (group_of gs c)) \<and> mset (concat (map snd gs)) = mset (map row_id ?os)"
  proof (cases "?os = []")
    case True
    then show ?thesis by (simp add: gs_def balanced_def group_of_def)
  next
    case False
    then have "gs = distribute cands (placed_on i s) ?os (\<lambda>_. 0) []" by (simp add: gs_def)
    from distribute_spec [OF assms(3) free _ _ _ _ this] show ?thesis by (simp add: group_of_def balanced_def)
  qed
  have "distinct (concat (map snd gs))" using gs dist by (metis mset_eq_imp_distinct_iff)
  moreover have "set (concat (map snd gs)) = row_id ` set ?os" using gs by (metis mset_eq_setD set_map)
  moreover have "length (concat (map snd gs)) = card (set ?os)"
    using gs dist by (metis distinct_card distinct_map length_map size_mset)
  moreover have "smart_migrate_placements now node i s = migrate_groups now gs s"
    using assms(3) by (auto simp: smart_migrate_placements_def Let_def assms(2) [symmetric] gs_def orphans_def)
  moreover have "i \<notin> fst ` set gs" using gs i by blast
  ultimately show ?thesis using gs by (intro that [of gs]) simp_all
qed

lemma orphans_mem: "p \<in> set (orphans i cands s) \<Longrightarrow> p \<in> set (placements s) \<and> serves i p"
  by (simp add: orphans_def wanted_on_mem)

text \<open>A placement that is not moved has a row of its key on a candidate, and no orphan shares its key.\<close>

lemma covered_key:
  assumes "placements_inv s" "p \<in> set (wanted_on i s) - set (orphans i cands s)"
  shows "key_id p \<notin> key_id ` set (orphans i cands s)"
    and "\<exists>q \<in> set (placements s). key_id q = key_id p \<and> is_active q \<and> backend_node_id q \<in> row_id ` set cands"
proof -
  have mem: "p \<in> set (wanted_on i s)" "p \<in> set (placements s)" "serves i p"
    using assms(2) wanted_on_mem [of p i s] by auto
  show "key_id p \<notin> key_id ` set (orphans i cands s)"
  proof
    assume "key_id p \<in> key_id ` set (orphans i cands s)"
    then obtain x where x: "x \<in> set (orphans i cands s)" "key_id p = key_id x" by blast
    with serving_keys [OF assms(1) mem(2) _ mem(3)] orphans_mem [OF x(1)] have "p = x" by blast
    with x(1) assms(2) show False by blast
  qed
  obtain b where "b \<in> placed_on i s (key_id p)" "b \<in> row_id ` set cands"
    using assms(2) mem(1) by (auto simp: orphans_def)
  then show "\<exists>q \<in> set (placements s). key_id q = key_id p \<and> is_active q \<and> backend_node_id q \<in> row_id ` set cands"
    using mem_placed_on [OF mem(1)] by blast
qed

text \<open>C9: When a backend has failed and others can take its users, the repair moves exactly the users
  that have no placement on one of those others, and nobody else: it succeeds and reports their
  number; each of them ends with a wanted placement on a backend that can take it, pending under a
  new version, and is no longer on the failed one; the others keep their placements, one of which
  is on a healthy backend; and the moved users are spread evenly, any two targets receiving
  numbers that differ by at most one.\<close>

theorem smart_migrate_rescues:
  assumes "placements_inv s" and "cands = select_nodes now (map_option region node) [i] s" and "cands \<noteq> []"
    and "os = set (orphans i cands s)"
  shows "\<exists>s' target. smart_migrate_placements now node i s = Inr (card os, s') \<and> placements_inv s' \<and>
    (\<forall>p \<in> os. target (row_id p) \<in> row_id ` set cands \<and> moved (target (row_id p)) p s') \<and>
    (\<forall>p \<in> set (wanted_on i s) - os. p \<in> set (placements s') \<and>
       (\<exists>q \<in> set (placements s'). key_id q = key_id p \<and> is_active q \<and> backend_node_id q \<in> row_id ` set cands)) \<and>
    (\<forall>c \<in> set cands. \<forall>d \<in> set cands.
       card {p \<in> os. target (row_id p) = row_id c} \<le> Suc (card {p \<in> os. target (row_id p) = row_id d}))"
proof -
  have ids: "ids_ok (placements s)" using assms(1) by (simp add: placements_inv_def)
  obtain gs where run: "smart_migrate_placements now node i s = migrate_groups now gs s"
    and gs: "distinct (map fst gs)" "fst ` set gs \<subseteq> row_id ` set cands" "i \<notin> fst ` set gs"
      "balanced (row_id ` set cands) (\<lambda>c. length (group_of gs c))"
    and dgs: "distinct (concat (map snd gs))" and set_gs: "set (concat (map snd gs)) = row_id ` os"
    and len: "length (concat (map snd gs)) = card os"
    using smart_groups [OF assms(1-3)] unfolding assms(4) by blast
  have os: "p \<in> set (placements s) \<and> serves i p" if "p \<in> os" for p using orphans_mem that assms(4) by blast
  have "\<exists>p \<in> set (placements s). row_id p = x \<and> serves i p" if "x \<in> set (concat (map snd gs))" for x
    using that os unfolding set_gs by blast
  from migrate_groups_ok [OF assms(1) dgs gs(3) this, of now] obtain s' where
    s': "migrate_groups now gs s = Inr (card os, s')" "placements_inv s'"
    and moved: "\<forall>(t, ids) \<in> set gs. \<forall>p \<in> set (placements s). row_id p \<in> set ids \<longrightarrow> moved t p s'"
    and keep: "\<forall>q \<in> set (placements s). key_id q \<notin> key_id ` to_move gs s \<longrightarrow> q \<in> set (placements s')"
    unfolding len by blast
  have to_move: "to_move gs s = os"
    using set_gs os ids_ok_unique [OF ids] unfolding to_move_def by blast
  have 1: "target_in gs (row_id p) \<in> row_id ` set cands \<and> moved (target_in gs (row_id p)) p s'" if "p \<in> os" for p
  proof -
    from that set_gs have "row_id p \<in> set (concat (map snd gs))" by simp
    then obtain t ids where t: "(t, ids) \<in> set gs" "row_id p \<in> set ids" by auto
    with moved os [OF that] have "moved t p s'" by blast
    moreover have "t \<in> row_id ` set cands" using t(1) gs(2) by force
    ultimately show ?thesis using target_in_eq [OF dgs t] by simp
  qed
  have 2: "p \<in> set (placements s') \<and>
      (\<exists>q \<in> set (placements s'). key_id q = key_id p \<and> is_active q \<and> backend_node_id q \<in> row_id ` set cands)"
    if p: "p \<in> set (wanted_on i s) - os" for p
    using covered_key [OF assms(1) p [unfolded assms(4)]] keep p wanted_on_mem [of p i s]
    unfolding to_move assms(4) by (metis DiffD1)
  have 3: "card {p \<in> os. target_in gs (row_id p) = c} = length (group_of gs c)" for c
  proof -
    have "card {p \<in> os. target_in gs (row_id p) = c} = card (row_id ` {p \<in> os. target_in gs (row_id p) = c})"
      using os ids_ok_unique [OF ids] by (intro card_image [symmetric] inj_onI) blast
    also have "row_id ` {p \<in> os. target_in gs (row_id p) = c} = {x \<in> row_id ` os. target_in gs x = c}" by blast
    finally show ?thesis using card_target_in [OF gs(1) dgs set_gs] by simp
  qed
  show ?thesis
    using s' run gs(4) 1 2 unfolding balanced_def
    by (intro exI [of _ s'] exI [of _ "target_in gs"]) (simp add: 3)
qed

text \<open>Two users on backend 2, whose agent is silent, and a healthy backend 3.\<close>

definition heal_db :: db where
  "heal_db = sample_placements_db\<lparr>nodes := [sample_node 2 ''backend'', sample_node 3 ''backend''],
     agent_states := [sample_agent_state 3 0]\<rparr>"

lemma heal_db_candidates: "sample_node 3 ''backend'' \<in> set (select_nodes 5 None [2] heal_db)"
proof -
  let ?x = "(sample_node 3 ''backend'', sample_agent_state 3 0, active_count heal_db 3)"
  have state: "agent_state_of heal_db 3 = Some (sample_agent_state 3 0)"
    by (simp add: agent_state_of_def get_one_by_def heal_db_def sample_agent_state_def)
  have count: "active_count heal_db 3 = 1"
    by (simp add: active_count_def heal_db_def sample_placement_def)
  have node: "sample_node 3 ''backend'' \<in> set (nodes heal_db)" by (simp add: heal_db_def)
  have sel: "row_id (sample_node 3 ''backend'') = 3" "capacity (sample_node 3 ''backend'') = 100"
    "role (sample_node 3 ''backend'') = ''backend''" "node_available (sample_node 3 ''backend'')"
    "is_healthy (sample_agent_state 3 0)"
    by (simp_all add: sample_node_def node_available_def sample_agent_state_def)
  have "?x \<in> set (list_available_nodes None [2] heal_db)"
    unfolding set_list_available_nodes using node by (simp add: sel state count)
  moreover have "routing_is_healthy heal_db 5 (Some (sample_agent_state 3 0))"
    by (simp add: routing_is_healthy_def sample_agent_state_def node_state_stale_after_sec_def heal_db_def
        default_node_policy_def usec_def)
  moreover have "int (active_count heal_db 3) < capacity (sample_node 3 ''backend'')" by (simp add: count sel)
  ultimately show ?thesis
    unfolding select_nodes_def set_map set_sort set_filter by (intro image_eqI [of _ _ ?x]) simp_all
qed

theorem smart_migrate_rescues_witness:
  "\<exists>s' t. smart_migrate_placements 5 None 2 heal_db = Inr (1, s') \<and>
     moved t (sample_placement 20 7 2) s' \<and> sample_placement 21 8 2 \<in> set (placements s')"
proof -
  let ?c = "select_nodes 5 None [2] heal_db"
  have inv: "placements_inv heal_db"
    by (rule placements_inv_cong [OF _ _ sample_placements_inv]) (simp_all add: heal_db_def)
  have ne: "?c \<noteq> []" using heal_db_candidates by (cases ?c) auto
  have three: "3 \<in> row_id ` set ?c" using imageI [OF heal_db_candidates, of row_id] by (simp add: sample_node_def)
  have w: "set (wanted_on 2 heal_db) = {sample_placement 20 7 2, sample_placement 21 8 2}"
    by (auto simp: wanted_on_mem serves_def heal_db_def)
  have p7: "placed_on 2 heal_db 7 = {2}"
    using mem_placed_on [of "sample_placement 20 7 2" 2 heal_db] w by (auto simp: heal_db_def)
  have p8: "placed_on 2 heal_db 8 = {2, 3}"
    using mem_placed_on [of "sample_placement 21 8 2" 2 heal_db] w by (auto simp: heal_db_def)
  have os: "{sample_placement 20 7 2} = set (orphans 2 ?c heal_db)"
    using w p7 p8 three by (auto simp: orphans_def)
  have "row_id (sample_placement 21 8 2) \<noteq> row_id (sample_placement 20 7 2)" by simp
  then have other: "sample_placement 21 8 2 \<in> set (wanted_on 2 heal_db) - {sample_placement 20 7 2}"
    using w by (metis Diff_iff insertI1 insert_commute singletonD)
  have "?c = select_nodes 5 (map_option region None) [2] heal_db" by simp
  from smart_migrate_rescues [OF inv this ne os] obtain s' target where
    "smart_migrate_placements 5 None 2 heal_db = Inr (card {sample_placement 20 7 2}, s')"
    "moved (target (row_id (sample_placement 20 7 2))) (sample_placement 20 7 2) s'"
    "sample_placement 21 8 2 \<in> set (placements s')"
    using other by blast
  then show ?thesis by (intro exI conjI) simp_all
qed

section \<open>What a tick does to the nodes\<close>

text \<open>A node is in touch: active, enabled, and its agent healthy and seen within the window.\<close>

definition seen_lately :: "heal_config \<Rightarrow> time \<Rightarrow> node_agent_state option \<Rightarrow> bool" where
  "seen_lately cfg now st \<longleftrightarrow>
     (case st of
        None \<Rightarrow> False
      | Some a \<Rightarrow> is_healthy a \<and>
          (case last_seen_at a of None \<Rightarrow> False | Some seen \<Rightarrow> max 0 (now - seen) \<le> usec (hc_stale_after_sec cfg)))"

definition in_touch :: "heal_config \<Rightarrow> time \<Rightarrow> db \<Rightarrow> vpn_node \<Rightarrow> bool" where
  "in_touch cfg now s n \<longleftrightarrow> is_active n \<and> is_enabled n \<and> seen_lately cfg now (agent_state_of s (row_id n))"

definition node_healed :: "bool \<Rightarrow> vpn_node \<Rightarrow> vpn_node \<Rightarrow> bool" where
  "node_healed touch n n' \<longleftrightarrow>
     is_active n' = is_active n \<and> is_enabled n' = is_enabled n \<and>
     (is_draining n' \<noteq> is_draining n \<longrightarrow> is_draining n = touch) \<and>
     (is_draining n \<and> drain_source n = Some ''admin'' \<longrightarrow> n' = n)"

definition healed :: "heal_config \<Rightarrow> time \<Rightarrow> db \<Rightarrow> db \<Rightarrow> bool" where
  "healed cfg now s s' \<longleftrightarrow>
     (\<forall>i. seen_lately cfg now (agent_state_of s' i) = seen_lately cfg now (agent_state_of s i)) \<and>
     (\<forall>i n. get_by_id i (nodes s) = Some n \<longrightarrow>
        (\<exists>n'. get_by_id i (nodes s') = Some n' \<and> node_healed (in_touch cfg now s n) n n'))"

lemma healed_refl [simp]: "healed cfg now s s"
  by (simp add: healed_def node_healed_def)

lemma healed_same:
  "healed cfg now s s1 \<Longrightarrow> nodes s' = nodes s1 \<Longrightarrow>
   (\<And>i. seen_lately cfg now (agent_state_of s' i) = seen_lately cfg now (agent_state_of s1 i)) \<Longrightarrow> healed cfg now s s'"
  by (simp add: healed_def)

lemma agent_state_of_update:
  "(\<And>x. nas_node_id (f x) = nas_node_id x) \<Longrightarrow>
   agent_state_of (update_by_node_id j f s) i = (if i = j then map_option f (agent_state_of s i) else agent_state_of s i)"
proof -
  assume f: "\<And>x. nas_node_id (f x) = nas_node_id x"
  have "find (\<lambda>st. nas_node_id st = i) (update_where (\<lambda>st. nas_node_id st = j) f t) =
      (if i = j then map_option f (find (\<lambda>st. nas_node_id st = i) t) else find (\<lambda>st. nas_node_id st = i) t)" for t
    by (induction t) (auto simp: f)
  then show ?thesis by (simp add: agent_state_of_def get_one_by_def update_by_node_id_def)
qed

lemma update_by_node_id_frame [simp]:
  "nodes (update_by_node_id i f s) = nodes s" "assignments (update_by_node_id i f s) = assignments s"
  "placements (update_by_node_id i f s) = placements s" "outbox (update_by_node_id i f s) = outbox s"
  "uuid_supply (update_by_node_id i f s) = uuid_supply s" "the_node_policy (update_by_node_id i f s) = the_node_policy s"
  by (simp_all add: update_by_node_id_def)

lemma record_drain_reason_frame [simp]:
  "nodes (record_drain_reason now i st r s) = nodes s" "assignments (record_drain_reason now i st r s) = assignments s"
  "placements (record_drain_reason now i st r s) = placements s" "outbox (record_drain_reason now i st r s) = outbox s"
  "uuid_supply (record_drain_reason now i st r s) = uuid_supply s"
  by (simp_all add: record_drain_reason_def Let_def split: option.split)

lemma clear_drain_reason_frame [simp]:
  "nodes (clear_drain_reason now i st s) = nodes s" "assignments (clear_drain_reason now i st s) = assignments s"
  "placements (clear_drain_reason now i st s) = placements s" "outbox (clear_drain_reason now i st s) = outbox s"
  "uuid_supply (clear_drain_reason now i st s) = uuid_supply s"
  by (simp_all add: clear_drain_reason_def Let_def split: option.split)

lemma seen_lately_details:
  "seen_lately cfg now (map_option (\<lambda>x. x\<lparr>details := d, updated_at := t\<rparr>) st) = seen_lately cfg now st"
  by (cases st) (simp_all add: seen_lately_def)

lemma seen_lately_record:
  "seen_lately cfg now (agent_state_of (record_drain_reason t j st r s) i) = seen_lately cfg now (agent_state_of s i)"
  by (simp add: record_drain_reason_def Let_def agent_state_of_update seen_lately_details split: option.split)

lemma seen_lately_clear:
  "seen_lately cfg now (agent_state_of (clear_drain_reason t j st s) i) = seen_lately cfg now (agent_state_of s i)"
  by (simp add: clear_drain_reason_def Let_def agent_state_of_update seen_lately_details split: option.split)

lemma available_in_touch:
  assumes "unavailability_reason cfg (Some n) (agent_state_of s (row_id n)) now \<noteq> None" "\<not> is_draining n"
  shows "\<not> in_touch cfg now s n"
  using assms by (auto simp: unavailability_reason_def in_touch_def seen_lately_def freshness_def
      max_def usec_def split: if_splits option.splits)

text \<open>A change of whether a node drains, justified by the state of its agent, and its announcement.\<close>

lemma healed_mark:
  assumes "healed cfg now s0 s" "get_by_id i (nodes s) = Some n"
    and just: "is_draining n \<noteq> b" "b \<noteq> in_touch cfg now s n" "is_draining n \<Longrightarrow> drain_source n \<noteq> Some ''admin''"
    and s': "nodes s' = update_by_id i (\<lambda>x. x\<lparr>is_draining := b, drain_source := src, updated_at := t\<rparr>) (nodes s)"
      "\<And>i. seen_lately cfg now (agent_state_of s' i) = seen_lately cfg now (agent_state_of s i)"
  shows "healed cfg now s0 s'"
  unfolding healed_def
proof (intro conjI allI impI)
  fix j show "seen_lately cfg now (agent_state_of s' j) = seen_lately cfg now (agent_state_of s0 j)"
    using assms(1) s'(2) by (simp add: healed_def)
next
  fix j n0 assume j: "get_by_id j (nodes s0) = Some n0"
  with assms(1) obtain n1 where n1: "get_by_id j (nodes s) = Some n1" "node_healed (in_touch cfg now s0 n0) n0 n1"
    unfolding healed_def by blast
  have row: "row_id n0 = j" "row_id n1 = j" using j n1(1) by (simp_all add: get_by_id_Some)
  show "\<exists>n'. get_by_id j (nodes s') = Some n' \<and> node_healed (in_touch cfg now s0 n0) n0 n'"
  proof (cases "j = i")
    case False
    with n1 show ?thesis by (simp add: s'(1) tbl.get_upd)
  next
    case True
    with n1(1) assms(2) have "n1 = n" by simp
    moreover have "in_touch cfg now s n = in_touch cfg now s0 n0"
      using n1(2) assms(1) row \<open>n1 = n\<close> unfolding in_touch_def node_healed_def healed_def by simp
    moreover have "get_by_id j (nodes s') = Some (n\<lparr>is_draining := b, drain_source := src, updated_at := t\<rparr>)"
      using True assms(2) by (simp add: s'(1) tbl.get_upd)
    ultimately show ?thesis
      using n1(2) just by (cases "is_draining n0") (auto simp: node_healed_def)
  qed
qed

section \<open>A tick as a sequence of repairs\<close>

inductive heal_step :: "heal_config \<Rightarrow> time \<Rightarrow> db \<Rightarrow> db \<Rightarrow> bool" for cfg now where
  silent: "\<not> seen_lately cfg now (agent_state_of s i) \<Longrightarrow>
    heal_step cfg now s (update_by_node_id i (\<lambda>x. x\<lparr>is_healthy := False, updated_at := now\<rparr>) s)"
| drain: "get_by_id i (nodes s) = Some n \<Longrightarrow> \<not> is_draining n \<Longrightarrow>
    unavailability_reason cfg (Some n) (agent_state_of s i) now \<noteq> None \<Longrightarrow>
    drain_unavailable cfg now n (agent_state_of s i) cnt s = Inr (ev, s') \<Longrightarrow> heal_step cfg now s s'"
| migrate: "smart_migrate_placements now node i s = Inr (k, s') \<Longrightarrow> heal_step cfg now s s'"
| recover: "get_by_id i (nodes s) = Some n \<Longrightarrow> may_recover cfg now counts n (agent_state_of s i) s \<Longrightarrow>
    recover_node cfg now n (agent_state_of s i) s = Inr (ev, s') \<Longrightarrow> heal_step cfg now s s'"

lemma observe_steps:
  assumes "\<forall>(n, st) \<in> set rows. map_option last_seen_at st = map_option last_seen_at (agent_state_of s (row_id n))"
  shows "(heal_step cfg now)\<^sup>*\<^sup>* s (snd (fold (observe_node cfg now) rows (ev, s)))"
  using assms
proof (induction rows arbitrary: ev s)
  case (Cons row rows)
  obtain n st where row: "row = (n, st)" by (cases row)
  obtain ev1 s1 where s1: "observe_node cfg now row (ev, s) = (ev1, s1)" by (cases "observe_node cfg now row (ev, s)")
  let ?mark = "update_by_node_id (row_id n) (\<lambda>x. x\<lparr>is_healthy := False, updated_at := now\<rparr>) s"
  have "s1 = s \<or> s1 = ?mark \<and> \<not> seen_lately cfg now (agent_state_of s (row_id n))"
  proof (cases st)
    case None
    then show ?thesis using s1 by (simp add: row observe_node_def)
  next
    case (Some a)
    then obtain b where b: "agent_state_of s (row_id n) = Some b" "last_seen_at a = last_seen_at b"
      using Cons.prems by (cases "agent_state_of s (row_id n)") (simp_all add: row)
    show ?thesis
    proof (cases "last_seen_at a")
      case None
      then show ?thesis using s1 Some by (simp add: row observe_node_def freshness_def)
    next
      case (Some seen)
      then show ?thesis
        using s1 \<open>st = Some a\<close> b by (auto simp: row observe_node_def freshness_def seen_lately_def max_def usec_def split: if_splits)
    qed
  qed
  moreover have "map_option last_seen_at (agent_state_of ?mark j) = map_option last_seen_at (agent_state_of s j)" for j
    by (simp add: agent_state_of_update option.map_comp comp_def)
  ultimately have "(heal_step cfg now)\<^sup>*\<^sup>* s s1"
    and last: "map_option last_seen_at (agent_state_of s1 j) = map_option last_seen_at (agent_state_of s j)" for j
    by (auto intro: r_into_rtranclp heal_step.silent)
  moreover have "(heal_step cfg now)\<^sup>*\<^sup>* s1 (snd (fold (observe_node cfg now) rows (ev1, s1)))"
    using Cons.prems last by (intro Cons.IH) (auto simp: row)
  ultimately show ?case by (simp add: s1)
qed simp

lemma heal_sources_steps:
  "heal_sources cfg now rows (ev, out, s) = Inr (ev', out', s') \<Longrightarrow> (heal_step cfg now)\<^sup>*\<^sup>* s s'"
proof (induction rows arbitrary: ev out s)
  case (Cons row rows)
  obtain i cnt where row: "row = (i, cnt)" by (cases row)
  let ?reason = "unavailability_reason cfg (get_by_id i (nodes s)) (agent_state_of s i) now"
  show ?case
  proof (cases "int (processed_nodes out) \<ge> hc_max_nodes cfg \<or> cnt = 0 \<or> ?reason = None")
    case True
    then show ?thesis using Cons by (auto simp: row split: if_splits)
  next
    case False
    with Cons.prems obtain ev1 d s1 k s2 ev2 out2 where
      1: "drain_if_serving cfg now i cnt s = Inr (ev1, d, s1)"
        "smart_migrate_placements now (get_by_id i (nodes s)) i s1 = Inr (k, s2)"
        "heal_sources cfg now rows (ev2, out2, s2) = Inr (ev', out', s')"
      by (auto simp: row split: sum.splits)
    have "(heal_step cfg now)\<^sup>*\<^sup>* s s1"
      using 1(1) False
      by (auto simp: drain_if_serving_def split: option.splits if_splits sum.splits
          intro!: r_into_rtranclp heal_step.drain)
    also have "heal_step cfg now s1 s2" using 1(2) by (rule heal_step.migrate)
    also have "(heal_step cfg now)\<^sup>*\<^sup>* s2 s'" using 1(3) by (rule Cons.IH)
    finally show ?thesis .
  qed
qed simp

lemma recover_nodes_steps:
  "recover_nodes cfg now counts is (ev, k, s) = Inr (ev', k', s') \<Longrightarrow> (heal_step cfg now)\<^sup>*\<^sup>* s s'"
proof (induction "is" arbitrary: ev k s)
  case (Cons i "is")
  show ?case
  proof (cases "get_by_id i (nodes s)")
    case None
    then show ?thesis using Cons by simp
  next
    case (Some n)
    show ?thesis
    proof (cases "may_recover cfg now counts n (agent_state_of s i) s")
      case False
      then show ?thesis using Cons Some by simp
    next
      case True
      with Cons.prems Some obtain ev1 s1 where
        1: "recover_node cfg now n (agent_state_of s i) s = Inr (ev1, s1)"
          "recover_nodes cfg now counts is (ev @ ev1, Suc k, s1) = Inr (ev', k', s')"
        by (auto split: sum.splits)
      with heal_step.recover [OF Some True 1(1)] Cons.IH [OF 1(2)] show ?thesis by simp
    qed
  qed
qed simp

lemma run_once_steps:
  assumes "run_once cfg now s = Inr (ev, out, s')"
  shows "(heal_step cfg now)\<^sup>*\<^sup>* s s'"
proof -
  obtain ev1 s1 where s1: "observe_node_freshness cfg now s = (ev1, s1)" by (cases "observe_node_freshness cfg now s")
  have "(heal_step cfg now)\<^sup>*\<^sup>* s (snd (observe_node_freshness cfg now s))"
    unfolding observe_node_freshness_def by (rule observe_steps) (auto simp: list_active_with_agent_state_def)
  then have "(heal_step cfg now)\<^sup>*\<^sup>* s s1" by (simp add: s1)
  also obtain ev2 out2 s2 where
    2: "heal_sources cfg now (sort_key (\<lambda>(_, k). - int k) (count_desired_active_by_backend_node s1)) (ev1, heal_out_zero, s1)
          = Inr (ev2, out2, s2)"
       "recover_draining_nodes cfg now (count_desired_active_by_backend_node s1) (ev2, out2, s2) = Inr (ev, out, s')"
    using assms by (auto simp: run_once_def s1 Let_def split: sum.splits)
  have "(heal_step cfg now)\<^sup>*\<^sup>* s1 s2" using 2(1) by (rule heal_sources_steps)
  also have "(heal_step cfg now)\<^sup>*\<^sup>* s2 s'"
    using 2(2) by (auto simp: recover_draining_nodes_def split: if_splits sum.splits dest: recover_nodes_steps)
  finally show ?thesis .
qed

lemma migrate_groups_frame:
  "migrate_groups now gs s = Inr (k, s') \<Longrightarrow> nodes s' = nodes s \<and> agent_states s' = agent_states s"
proof (induction gs arbitrary: s k)
  case (Cons g gs)
  obtain t ids where g: "g = (t, ids)" by (cases g)
  from Cons.prems obtain j tids s1 n where
    1: "bulk_migrate_backend ids t (Some ''node_auto_heal'') now s = Inr ((j, tids), s1)"
      "migrate_groups now gs (if tids \<noteq> [] then enqueue_for_placement_ids now tids s1 else s1) = Inr (n, s')"
    by (auto simp: g Let_def split: sum.splits)
  have "agent_states s1 = agent_states s"
    using 1(1) by (auto simp: bulk_migrate_backend_def Let_def move_placements_def store_placements_def merge_placements_def
        split: if_splits sum.splits)
  with Cons.IH [OF 1(2)] bulk_migrate_frame [OF 1(1)] show ?case by (auto split: if_splits)
qed simp

lemma smart_migrate_frame:
  "smart_migrate_placements now node i s = Inr (k, s') \<Longrightarrow> nodes s' = nodes s \<and> agent_states s' = agent_states s"
  by (auto simp: smart_migrate_placements_def Let_def split: if_splits dest: migrate_groups_frame)

lemma sys_inv_migrate_groups:
  "migrate_groups now gs s = Inr (k, s') \<Longrightarrow> sys_inv port s \<Longrightarrow> sys_inv port s'"
proof (induction gs arbitrary: s k)
  case (Cons g gs)
  obtain t ids where g: "g = (t, ids)" by (cases g)
  from Cons.prems(1) obtain j tids s1 n where
    1: "bulk_migrate_backend ids t (Some ''node_auto_heal'') now s = Inr ((j, tids), s1)"
      "migrate_groups now gs (if tids \<noteq> [] then enqueue_for_placement_ids now tids s1 else s1) = Inr (n, s')"
    by (auto simp: g Let_def split: sum.splits)
  from sys_inv_bulk_migrate [OF Cons.prems(2) 1(1)] have "sys_inv port s1" .
  then have "sys_inv port (if tids \<noteq> [] then enqueue_for_placement_ids now tids s1 else s1)"
    by (simp add: sys_inv_enqueue_for_placement_ids)
  with Cons.IH 1(2) show ?case by blast
qed simp

lemma heal_step_sys_inv: "heal_step cfg now s s' \<Longrightarrow> sys_inv (hc_port cfg) s \<Longrightarrow> sys_inv (hc_port cfg) s'"
proof (induction rule: heal_step.induct)
  case (silent s i)
  then show ?case by (auto intro: sys_inv_elsewhere)
next
  case (drain i s n cnt ev s')
  have "row_id n = i" using drain.hyps(1) by (simp add: get_by_id_Some)
  let ?f = "\<lambda>x :: vpn_node. x\<lparr>is_draining := True, drain_source := Some ''auto_heal'', updated_at := now\<rparr>"
  let ?s1 = "record_drain_reason now i (agent_state_of s i) DRAIN_REASON_UNHEALTHY_HEARTBEAT
      (s\<lparr>nodes := update_by_id i ?f (nodes s)\<rparr>)"
  have "announce_backend (hc_port cfg) now n ?s1 = Inr s'"
    using drain.hyps(4) \<open>row_id n = i\<close> by (auto simp: drain_unavailable_def Let_def split: sum.splits)
  then show ?case
    using sys_inv_announce_backend [OF drain.prems drain.hyps(1), of ?f ?s1] by simp
next
  case (migrate node i s k s')
  then show ?case
    by (auto simp: smart_migrate_placements_def Let_def split: if_splits dest: sys_inv_migrate_groups)
next
  case (recover i s n counts ev s')
  have "row_id n = i" using recover.hyps(1) by (simp add: get_by_id_Some)
  let ?f = "\<lambda>x :: vpn_node. x\<lparr>is_draining := False, drain_source := None, updated_at := now\<rparr>"
  let ?s1 = "clear_drain_reason now i (agent_state_of s i) (s\<lparr>nodes := update_by_id i ?f (nodes s)\<rparr>)"
  have "announce_backend (hc_port cfg) now n ?s1 = Inr s'"
    using recover.hyps(3) \<open>row_id n = i\<close> by (auto simp: recover_node_def Let_def split: sum.splits)
  then show ?case
    using sys_inv_announce_backend [OF recover.prems recover.hyps(1), of ?f ?s1] by simp
qed

lemma heal_step_healed: "heal_step cfg now s s' \<Longrightarrow> healed cfg now s0 s \<Longrightarrow> healed cfg now s0 s'"
proof (induction rule: heal_step.induct)
  case (silent s i)
  have "\<not> seen_lately cfg now (map_option (\<lambda>x. x\<lparr>is_healthy := False, updated_at := now\<rparr>) (agent_state_of s i))"
    by (cases "agent_state_of s i") (simp_all add: seen_lately_def)
  with silent show ?case
    by (auto simp: agent_state_of_update intro!: healed_same [of cfg now s0 s] split: if_splits)
next
  case (drain i s n cnt ev s')
  have i: "row_id n = i" using drain.hyps(1) by (simp add: get_by_id_Some)
  let ?s1 = "record_drain_reason now i (agent_state_of s i) DRAIN_REASON_UNHEALTHY_HEARTBEAT (s\<lparr>nodes := update_by_id i
      (\<lambda>x. x\<lparr>is_draining := True, drain_source := Some ''auto_heal'', updated_at := now\<rparr>) (nodes s)\<rparr>)"
  have a: "announce_backend (hc_port cfg) now n ?s1 = Inr s'"
    using drain.hyps(4) i by (auto simp: drain_unavailable_def Let_def split: sum.splits)
  have "\<not> in_touch cfg now s n" using available_in_touch drain.hyps(2,3) i by metis
  moreover have "seen_lately cfg now (agent_state_of s' j) = seen_lately cfg now (agent_state_of s j)" for j
    using only_outboxD [OF announce_backend_Inr [OF a]] seen_lately_record [of cfg now now i]
    by (simp add: agent_state_of_def)
  ultimately show ?case
    using healed_mark [OF drain.prems drain.hyps(1)] drain.hyps(2) only_outboxD [OF announce_backend_Inr [OF a]] by simp
next
  case (migrate node i s k s')
  from smart_migrate_frame [OF migrate.hyps] show ?case
    by (intro healed_same [OF migrate.prems]) (simp_all add: agent_state_of_def)
next
  case (recover i s n counts ev s')
  have i: "row_id n = i" using recover.hyps(1) by (simp add: get_by_id_Some)
  let ?s1 = "clear_drain_reason now i (agent_state_of s i) (s\<lparr>nodes := update_by_id i
      (\<lambda>x. x\<lparr>is_draining := False, drain_source := None, updated_at := now\<rparr>) (nodes s)\<rparr>)"
  have a: "announce_backend (hc_port cfg) now n ?s1 = Inr s'"
    using recover.hyps(3) i by (auto simp: recover_node_def Let_def split: sum.splits)
  have m: "is_draining n" "drain_source n \<noteq> Some ''admin''" using recover.hyps(2) by (simp_all add: may_recover_def)
  have "in_touch cfg now s n"
    using recover.hyps(2) i by (auto simp: may_recover_def in_touch_def seen_lately_def freshness_def max_def usec_def
        split: option.splits if_splits)
  moreover have "seen_lately cfg now (agent_state_of s' j) = seen_lately cfg now (agent_state_of s j)" for j
    using only_outboxD [OF announce_backend_Inr [OF a]] seen_lately_clear [of cfg now now i]
    by (simp add: agent_state_of_def)
  ultimately show ?case
    using healed_mark [OF recover.prems recover.hyps(1)] m only_outboxD [OF announce_backend_Inr [OF a]] by simp
qed

interpretation heal_nodes: step_invariant "\<lambda>s. s = s0" "heal_step cfg now" "healed cfg now s0" for cfg now s0
  by unfold_locales (auto intro: heal_step_healed)

interpretation heal_sys: step_invariant "sys_inv (hc_port cfg)" "heal_step cfg now" "sys_inv (hc_port cfg)" for cfg now
  by unfold_locales (auto intro: heal_step_sys_inv)

lemma auto_heal_tick_sys_inv [sys_ok]:
  "auto_heal_tick port notify now s = Inr (ev, out, s') \<Longrightarrow> sys_inv port s \<Longrightarrow> sys_inv port s'"
  using heal_sys.reachable_inv [of "heal_config_of port notify (the_node_policy s)" s now s']
  by (auto simp: auto_heal_tick_def heal_config_of_def dest: run_once_steps)

text \<open>C10: A tick of the repair loop drains only nodes that are out of touch and puts back only nodes that
  are in touch: if it changes whether a node drains, then the node was draining and is active,
  enabled, and its agent healthy and seen within the configured window, or it was serving and is
  not.  A node an administrator drained is left exactly as it is, and no tick enables, disables or
  removes a node.\<close>

theorem auto_heal_justified:
  assumes "auto_heal_tick port notify now s = Inr (ev, out, s')" and "get_by_id i (nodes s) = Some n"
    and "touch \<longleftrightarrow> is_active n \<and> is_enabled n \<and>
      (\<exists>st seen. agent_state_of s i = Some st \<and> is_healthy st \<and> last_seen_at st = Some seen \<and>
         now - seen \<le> usec (max 30 (stale_after_sec (the_node_policy s))))"
  shows "\<exists>n'. get_by_id i (nodes s') = Some n' \<and> is_active n' = is_active n \<and> is_enabled n' = is_enabled n \<and>
    (is_draining n' \<noteq> is_draining n \<longrightarrow> is_draining n = touch) \<and>
    (is_draining n \<and> drain_source n = Some ''admin'' \<longrightarrow> n' = n)"
proof -
  let ?cfg = "heal_config_of port notify (the_node_policy s)"
  have "row_id n = i" using assms(2) by (simp add: get_by_id_Some)
  moreover have "seen_lately ?cfg now (agent_state_of s i) \<longleftrightarrow>
      (\<exists>st seen. agent_state_of s i = Some st \<and> is_healthy st \<and> last_seen_at st = Some seen \<and>
         now - seen \<le> usec (max 30 (stale_after_sec (the_node_policy s))))"
    by (auto simp: seen_lately_def heal_config_of_def usec_def split: option.split)
  ultimately have touch: "touch = in_touch ?cfg now s n" using assms(3) by (simp add: in_touch_def)
  have "healed ?cfg now s s'"
    using heal_nodes.reachable_inv [OF refl run_once_steps] assms(1) by (simp add: auto_heal_tick_def)
  with assms(2) show ?thesis unfolding healed_def node_healed_def touch by blast
qed

text \<open>A draining backend whose agent reports again.\<close>

definition recover_db :: db where
  "recover_db = empty_db\<lparr>nodes := [(sample_node 2 ''backend'')\<lparr>is_draining := True\<rparr>],
     agent_states := [sample_agent_state 2 0], the_node_policy := default_node_policy\<lparr>auto_undrain_enabled := True\<rparr>\<rparr>"

lemma recover_db_tick: "\<exists>ev out s'. auto_heal_tick 443 False 5 recover_db = Inr (ev, out, s') \<and> undrained_nodes out = 1"
proof -
  have st: "agent_state_of recover_db 2 = Some (sample_agent_state 2 0)"
    by (simp add: agent_state_of_def get_one_by_def recover_db_def sample_agent_state_def)
  have n: "nodes recover_db = [(sample_node 2 ''backend'')\<lparr>is_draining := True\<rparr>]" by (simp add: recover_db_def)
  let ?cfg = "heal_config_of 443 False (the_node_policy recover_db)"
  have cfg: "hc_stale_after_sec ?cfg = 90" "\<not> hc_notify ?cfg" "hc_auto_undrain ?cfg"
    by (simp_all add: heal_config_of_def recover_db_def default_node_policy_def)
  have seen: "last_seen_at (sample_agent_state 2 0) = Some 0" by (simp add: sample_agent_state_def)
  have sel: "row_id ((sample_node 2 ''backend'')\<lparr>is_draining := True\<rparr>) = 2"
    "is_active ((sample_node 2 ''backend'')\<lparr>is_draining := True\<rparr>)" by (simp_all add: sample_node_def)
  have rows: "list_active_with_agent_state recover_db =
      [((sample_node 2 ''backend'')\<lparr>is_draining := True\<rparr>, Some (sample_agent_state 2 0))]"
    by (simp add: list_active_with_agent_state_def n sel st del: base.simps vpn_node.simps)
  have obs: "observe_node_freshness ?cfg 5 recover_db = ([], recover_db)"
    by (simp add: observe_node_freshness_def rows observe_node_def freshness_def seen cfg usec_def)
  have counts: "count_desired_active_by_backend_node recover_db = []"
    by (simp add: count_desired_active_by_backend_node_def count_by_backend_def recover_db_def)
  have ids: "map (\<lambda>(n, _). row_id n) (list_active_with_agent_state recover_db) = [2]"
    by (simp add: rows sel)
  have may: "may_recover ?cfg 5 [] ((sample_node 2 ''backend'')\<lparr>is_draining := True\<rparr>) (Some (sample_agent_state 2 0)) recover_db"
    by (simp add: may_recover_def sample_node_def sample_agent_state_def freshness_def cfg usec_def)
  have "\<exists>s1. recover_node ?cfg 5 ((sample_node 2 ''backend'')\<lparr>is_draining := True\<rparr>) (Some (sample_agent_state 2 0)) recover_db = Inr ([], s1)"
    by (simp add: recover_node_def announce_backend_def notify_backend_health_changed_def list_entry_ids_for_backend_def
        clear_drain_reason_def stored_meta_def sample_agent_state_def empty_meta_def recover_db_def heal_config_of_def
        sample_node_def)
  then obtain s1 where s1: "recover_node ?cfg 5 ((sample_node 2 ''backend'')\<lparr>is_draining := True\<rparr>) (Some (sample_agent_state 2 0)) recover_db = Inr ([], s1)"
    by blast
  have "get_by_id 2 (nodes recover_db) = Some ((sample_node 2 ''backend'')\<lparr>is_draining := True\<rparr>)"
    by (simp add: n get_by_id_def sample_node_def)
  then show ?thesis
    using s1 may cfg(3) by (simp add: auto_heal_tick_def run_once_def obs counts recover_draining_nodes_def ids st)
qed

theorem auto_heal_justified_witness:
  "\<exists>ev out s' n'. auto_heal_tick 443 False 5 recover_db = Inr (ev, out, s') \<and>
     get_by_id 2 (nodes s') = Some n' \<and> is_enabled n'"
proof -
  obtain ev out s' where t: "auto_heal_tick 443 False 5 recover_db = Inr (ev, out, s')" using recover_db_tick by blast
  have "get_by_id 2 (nodes recover_db) = Some ((sample_node 2 ''backend'')\<lparr>is_draining := True\<rparr>)"
    by (simp add: recover_db_def get_by_id_def sample_node_def)
  from auto_heal_justified [OF t this refl] obtain n' where "get_by_id 2 (nodes s') = Some n'" "is_enabled n'"
    by (auto simp: sample_node_def)
  with t show ?thesis by blast
qed

text \<open>
  A placement that is to be removed counts as well: a user whose only other placement is an
  unwanted one on a healthy backend is taken for covered and stays on the failed backend.
\<close>

lemma unwanted_placement_covers:
  assumes "p \<in> set (wanted_on i s)" "q \<in> set (placements s)" "key_id q = key_id p" "is_active q"
    "desired_state q = ds_inactive" "backend_node_id q \<noteq> i" "backend_node_id q \<in> row_id ` set cands"
  shows "p \<notin> set (orphans i cands s)"
proof -
  have "backend_node_id q \<in> placed_on i s (key_id p)" using assms(2-4) mem_placed_on [OF assms(1)] by blast
  with assms(6,7) show ?thesis by (auto simp: orphans_def)
qed

end
