(* ===== verification/Probe_Drain.thy ===== *)
theory Probe_Drain
  imports Auto_Heal
begin

text \<open>
  \<open>services/probe/drain_service.py\<close> and \<open>services/probe/reconcilers/auto_drain.py\<close>: a backend that
  the probes cannot reach is drained and its users are migrated, on request of an administrator or
  by the reconciler.

  An operation that raises an \<open>HTTPException\<close> has written to the session before, and the loop over
  the backends catches that exception and goes on; the model therefore returns the state with the
  outcome.  The other errors (\<open>Inl\<close> of the outer result) end the whole operation and roll back.
\<close>

section \<open>Requests\<close>

record probe_drain_in =
  pd_source_backend_id :: uuid
  pd_target_backend_id :: "uuid option"
  pd_require_recent_failure :: bool
  pd_max_probe_age_sec :: int
  pd_min_consecutive_failures :: int
  pd_source :: "string option"
  pd_last_migration_reason :: string

record probe_drain_out =
  po_source_backend_id :: uuid
  po_target_backend_id :: uuid
  po_migrated_count :: nat
  po_probe_report_id :: "uuid option"

record auto_drain_in =
  ad_backend_node_ids :: "uuid list option"
  ad_target_backend_id :: "uuid option"
  ad_source :: "string option"
  ad_require_recent_failure :: bool
  ad_max_probe_age_sec :: int
  ad_min_consecutive_failures :: int
  ad_include_already_draining :: bool
  ad_dry_run :: bool
  ad_max_nodes :: int
  ad_last_migration_reason :: string

datatype auto_drain_action = ada_migrated "uuid" "nat" | ada_would_migrate | ada_skipped string

record auto_drain_out =
  ado_processed :: nat
  ado_migrated :: nat
  ado_items :: "(uuid \<times> auto_drain_action) list"

definition auto_drain_in_valid :: "auto_drain_in \<Rightarrow> bool" where
  "auto_drain_in_valid pl \<longleftrightarrow>
     30 \<le> ad_max_probe_age_sec pl \<and> ad_max_probe_age_sec pl \<le> 86400 \<and>
     1 \<le> ad_min_consecutive_failures pl \<and> ad_min_consecutive_failures pl \<le> 10 \<and>
     1 \<le> ad_max_nodes pl \<and> ad_max_nodes pl \<le> 200 \<and>
     (case ad_source pl of None \<Rightarrow> True | Some v \<Rightarrow> length v \<le> 64) \<and> length (ad_last_migration_reason pl) \<le> 64"

section \<open>The evidence\<close>

definition MESH_HEALTHY_MAX_AGE_SEC :: int where
  "MESH_HEALTHY_MAX_AGE_SEC = 600"

definition conflict :: "string \<Rightarrow> api_error" where
  "conflict detail = HTTPException 409 detail"

definition user_path_healthy :: "time \<Rightarrow> uuid \<Rightarrow> db \<Rightarrow> bool" where
  "user_path_healthy now node s \<longleftrightarrow>
     (case get_latest_mesh_for_backend node s of
        None \<Rightarrow> False
      | Some m \<Rightarrow> ps_is_reachable m \<and> now - ps_checked_at m \<le> usec MESH_HEALTHY_MAX_AGE_SEC)"

definition validate_probe_failure_for_node ::
  "time \<Rightarrow> uuid \<Rightarrow> string option \<Rightarrow> bool \<Rightarrow> int \<Rightarrow> int \<Rightarrow> db \<Rightarrow> probe_signal option result" where
  "validate_probe_failure_for_node now node src require max_age min_failures s =
     (let latest = get_latest_for_backend_node node src s in
      if \<not> require then Inr latest
      else case latest of
        None \<Rightarrow> Inl (conflict ''No probe report for source backend'')
      | Some l \<Rightarrow>
          if ps_is_reachable l then Inl (conflict ''Latest probe is healthy'')
          else if now - ps_checked_at l > usec max_age then Inl (conflict ''Latest probe failure is stale'')
          else if min_failures > 1 \<and>
                  int (count_leading (\<lambda>p. \<not> ps_is_reachable p)
                    (list_recent_for_backend_node (nat (max 20 (min_failures * 3))) node src s)) < min_failures
          then Inl (conflict ''Insufficient consecutive probe failures'')
          else if user_path_healthy now node s
          then Inl (conflict ''User-path (entry-mesh-backend) probe healthy; skipping drain'')
          else Inr latest)"

section \<open>The reason kept with the heartbeats\<close>

definition set_probe_drain_reason :: "time \<Rightarrow> uuid \<Rightarrow> string \<Rightarrow> db \<Rightarrow> db" where
  "set_probe_drain_reason now node reason s = record_drain_reason now node (agent_state_of s node) reason s"

definition clear_probe_drain_reason :: "time \<Rightarrow> uuid \<Rightarrow> db \<Rightarrow> db" where
  "clear_probe_drain_reason now node s = clear_drain_reason now node (agent_state_of s node) s"

definition normalize_probe_drain_reason :: "string \<Rightarrow> string" where
  "normalize_probe_drain_reason value =
     (let v = py_strip value in
      if take 6 v = ''probe_'' then v else if v \<noteq> [] then ''probe_'' @ v else ''probe_failure'')"

section \<open>Drain and migrate\<close>

definition mark_draining :: "bool \<Rightarrow> string option \<Rightarrow> time \<Rightarrow> uuid \<Rightarrow> db \<Rightarrow> db" where
  "mark_draining b src now i s =
     s\<lparr>nodes := update_by_id i (\<lambda>x. x\<lparr>is_draining := b, drain_source := src, updated_at := now\<rparr>) (nodes s)\<rparr>"

definition start_drain :: "int \<Rightarrow> time \<Rightarrow> probe_drain_in \<Rightarrow> db \<Rightarrow> db result" where
  "start_drain port now pl s =
     (let i = pd_source_backend_id pl;
          s1 = set_probe_drain_reason now i (normalize_probe_drain_reason (pd_last_migration_reason pl))
                 (mark_draining True (Some ''auto_heal'') now i s)
      in case notify_backend_health_changed port now i s1 of Inl e \<Rightarrow> Inl e | Inr (_, s2) \<Rightarrow> Inr s2)"

definition undo_drain :: "int \<Rightarrow> time \<Rightarrow> uuid \<Rightarrow> db \<Rightarrow> db result" where
  "undo_drain port now i s =
     (let s1 = clear_probe_drain_reason now i (mark_draining False None now i s)
      in case notify_backend_health_changed port now i s1 of Inl e \<Rightarrow> Inl e | Inr (_, s2) \<Rightarrow> Inr s2)"

definition migrate_or_undo ::
  "int \<Rightarrow> time \<Rightarrow> probe_drain_in \<Rightarrow> bool \<Rightarrow> probe_signal option \<Rightarrow> db \<Rightarrow> (probe_drain_out result \<times> db) result" where
  "migrate_or_undo port now pl was_draining latest s =
     (case migrate_backend now
             \<lparr>mi_source_backend_id = pd_source_backend_id pl, mi_target_backend_id = pd_target_backend_id pl,
              mi_last_migration_reason = pd_last_migration_reason pl\<rparr> s of
        Inl (HTTPException code detail) \<Rightarrow>
          (case (if was_draining then Inr s else undo_drain port now (pd_source_backend_id pl) s) of
             Inl e \<Rightarrow> Inl e
           | Inr s1 \<Rightarrow> Inr (Inl (HTTPException code detail), s1))
      | Inl e \<Rightarrow> Inl e
      | Inr (out, s1) \<Rightarrow>
          Inr (Inr \<lparr>po_source_backend_id = mo_source_backend_id out, po_target_backend_id = mo_target_backend_id out,
                    po_migrated_count = mo_migrated_count out, po_probe_report_id = map_option row_id latest\<rparr>, s1))"

definition drain_and_migrate_backend ::
  "int \<Rightarrow> time \<Rightarrow> probe_drain_in \<Rightarrow> db \<Rightarrow> (probe_drain_out result \<times> db) result" where
  "drain_and_migrate_backend port now pl s =
     (let i = pd_source_backend_id pl in
      case get_by_id i (nodes s) of
        None \<Rightarrow> Inr (Inl (HTTPException 404 ''Source node not found''), s)
      | Some n \<Rightarrow>
          (case validate_probe_failure_for_node now i (pd_source pl) (pd_require_recent_failure pl)
                  (pd_max_probe_age_sec pl) (pd_min_consecutive_failures pl) s of
             Inl e \<Rightarrow> Inr (Inl e, s)
           | Inr latest \<Rightarrow>
               (case (if is_draining n then Inr s else start_drain port now pl s) of
                  Inl e \<Rightarrow> Inl e
                | Inr s1 \<Rightarrow> migrate_or_undo port now pl (is_draining n) latest s1)))"

text \<open>The endpoint: an \<open>HTTPException\<close> that leaves it rolls back.\<close>

definition drain_and_migrate_endpoint :: "int \<Rightarrow> time \<Rightarrow> probe_drain_in \<Rightarrow> db \<Rightarrow> (probe_drain_out \<times> db) result" where
  "drain_and_migrate_endpoint port now pl s =
     (case drain_and_migrate_backend port now pl s of
        Inl e \<Rightarrow> Inl e
      | Inr (Inl e, _) \<Rightarrow> Inl e
      | Inr (Inr out, s1) \<Rightarrow> Inr (out, s1))"

section \<open>All backends\<close>

definition resolve_auto_nodes :: "auto_drain_in \<Rightarrow> db \<Rightarrow> vpn_node list" where
  "resolve_auto_nodes pl s =
     (case ad_backend_node_ids pl of
        None \<Rightarrow> list_rows None (nodes s)
      | Some ids \<Rightarrow> List.map_filter (\<lambda>i. get_by_id i (nodes s)) ids)"

definition drain_request :: "auto_drain_in \<Rightarrow> uuid \<Rightarrow> probe_drain_in" where
  "drain_request pl i =
     \<lparr>pd_source_backend_id = i, pd_target_backend_id = ad_target_backend_id pl, pd_require_recent_failure = False,
      pd_max_probe_age_sec = ad_max_probe_age_sec pl, pd_min_consecutive_failures = ad_min_consecutive_failures pl,
      pd_source = ad_source pl, pd_last_migration_reason = ad_last_migration_reason pl\<rparr>"

fun error_detail :: "api_error \<Rightarrow> string" where
  "error_detail (HTTPException _ detail) = detail"
| "error_detail _ = []"

definition auto_drain_node :: "int \<Rightarrow> time \<Rightarrow> auto_drain_in \<Rightarrow> vpn_node \<Rightarrow> db \<Rightarrow> (auto_drain_action \<times> db) result" where
  "auto_drain_node port now pl n s =
     (if \<not> is_active n \<or> \<not> is_enabled n then Inr (ada_skipped ''Node is not active/enabled'', s)
      else if is_draining n \<and> \<not> ad_include_already_draining pl then Inr (ada_skipped ''Node already draining'', s)
      else case validate_probe_failure_for_node now (row_id n) (ad_source pl) (ad_require_recent_failure pl)
                  (ad_max_probe_age_sec pl) (ad_min_consecutive_failures pl) s of
             Inl e \<Rightarrow> Inr (ada_skipped (error_detail e), s)
           | Inr _ \<Rightarrow>
               if ad_dry_run pl then Inr (ada_would_migrate, s)
               else case drain_and_migrate_backend port now (drain_request pl (row_id n)) s of
                      Inl e \<Rightarrow> Inl e
                    | Inr (Inl e, s1) \<Rightarrow> Inr (ada_skipped (error_detail e), s1)
                    | Inr (Inr out, s1) \<Rightarrow> Inr (ada_migrated (po_target_backend_id out) (po_migrated_count out), s1))"

fun auto_drain_nodes ::
  "int \<Rightarrow> time \<Rightarrow> auto_drain_in \<Rightarrow> uuid list \<Rightarrow> auto_drain_out \<times> db \<Rightarrow> (auto_drain_out \<times> db) result" where
  "auto_drain_nodes port now pl [] (out, s) = Inr (out, s)"
| "auto_drain_nodes port now pl (i # is) (out, s) =
     (if int (ado_processed out) \<ge> ad_max_nodes pl then Inr (out, s)
      else case get_by_id i (nodes s) of
        None \<Rightarrow> auto_drain_nodes port now pl is (out, s)
      | Some n \<Rightarrow>
          (case auto_drain_node port now pl n s of
             Inl e \<Rightarrow> Inl e
           | Inr (act, s1) \<Rightarrow>
               auto_drain_nodes port now pl is
                 (out\<lparr>ado_processed := Suc (ado_processed out),
                      ado_migrated := ado_migrated out + (case act of ada_migrated _ _ \<Rightarrow> 1 | _ \<Rightarrow> 0),
                      ado_items := ado_items out @ [(i, act)]\<rparr>, s1)))"

definition auto_drain_and_migrate_backends :: "int \<Rightarrow> time \<Rightarrow> auto_drain_in \<Rightarrow> db \<Rightarrow> (auto_drain_out \<times> db) result" where
  "auto_drain_and_migrate_backends port now pl s =
     auto_drain_nodes port now pl (map row_id (resolve_auto_nodes pl s))
       (\<lparr>ado_processed = 0, ado_migrated = 0, ado_items = []\<rparr>, s)"

section \<open>ProbeAutoDrainReconciler\<close>

definition build_payload :: "probe_policy \<Rightarrow> auto_drain_in result" where
  "build_payload pol =
     (let pl = \<lparr>ad_backend_node_ids = None, ad_target_backend_id = auto_drain_target_backend_id pol,
               ad_source = (if truthy (auto_drain_source pol) then auto_drain_source pol else None),
               ad_require_recent_failure = auto_drain_require_recent_failure pol,
               ad_max_probe_age_sec = max 30 (auto_drain_max_probe_age_sec pol),
               ad_min_consecutive_failures = max 1 (auto_drain_min_consecutive_failures pol),
               ad_include_already_draining = auto_drain_include_already_draining pol,
               ad_dry_run = False, ad_max_nodes = min 500 (max 1 (auto_drain_max_nodes pol)),
               ad_last_migration_reason =
                 (if auto_drain_last_migration_reason pol \<noteq> [] then auto_drain_last_migration_reason pol
                  else ''probe_auto_failure'')\<rparr>
      in if auto_drain_in_valid pl then Inr pl else Inl (ValidationError ''ProbeAutoDrainMigrateIn''))"

definition probe_auto_drain_tick :: "int \<Rightarrow> time \<Rightarrow> db \<Rightarrow> (auto_drain_out \<times> db) result" where
  "probe_auto_drain_tick port now s =
     (case build_payload (the_probe_policy s) of
        Inl e \<Rightarrow> Inl e
      | Inr pl \<Rightarrow> auto_drain_and_migrate_backends port now pl s)"

section \<open>All or nothing\<close>

text \<open>The nodes that drain.\<close>

definition draining_set :: "db \<Rightarrow> uuid set" where
  "draining_set s = {i. \<exists>n. get_by_id i (nodes s) = Some n \<and> is_draining n}"

lemma active_on_Nil: "active_on j s = [] \<longleftrightarrow> (\<forall>q \<in> set (placements s). \<not> (is_active q \<and> backend_node_id q = j \<and> desired_state q = ds_active))"
proof -
  have "active_on j s = [] \<longleftrightarrow> (\<forall>q. q \<notin> set (active_on j s))" by (metis list.set_intros(1) neq_Nil_conv empty_iff list.set(1))
  then show ?thesis by (auto simp: active_on_mem)
qed

lemma migrate_backend_effect:
  assumes "sys_inv port s" "migrate_backend now pl s = Inr (out, s')"
  shows "sys_inv port s'" "nodes s' = nodes s" "active_on (mi_source_backend_id pl) s' = []"
    "mo_migrated_count out = length (active_on (mi_source_backend_id pl) s)" "mo_target_backend_id out \<noteq> mi_source_backend_id pl"
    "mo_target_backend_id out \<notin> draining_set s"
    "\<And>j. j \<noteq> mo_target_backend_id out \<Longrightarrow> active_on j s = [] \<Longrightarrow> active_on j s' = []"
proof -
  let ?i = "mi_source_backend_id pl"
  have inv: "transport_inv s" using assms(1) by (simp add: sys_inv_def)
  from assms(2) obtain source target where
    t: "mi_target_backend_id pl \<noteq> Some ?i" "get_by_id ?i (nodes s) = Some source" "migrate_target now pl source s = Inr target"
      "node_available target"
    by (auto simp: migrate_backend_eq split: if_splits option.splits sum.splits)
  have row: "row_id source = ?i" using t(2) by (simp add: get_by_id_Some)
  have other: "?i \<noteq> row_id target" using migrate_target_other [OF t(3)] t(1) row by auto
  from migrate_active_on [OF inv other, of "Some (mi_last_migration_reason pl)" now] obtain ann s1 where
    m: "bulk_migrate_backend (map row_id (active_on ?i s)) (row_id target) (Some (mi_last_migration_reason pl)) now s =
          Inr ((length (active_on ?i s), ann), s1)" "active_on ?i s1 = []" by blast
  have "migratable (map row_id (active_on ?i s)) (row_id target) s"
    using inv other by (intro migratable_same_backend [of s _ ?i])
      (auto simp: transport_inv_def migration_sources_active_on active_on_mem)
  from bulk_migrate_correct_all [OF this, of "Some (mi_last_migration_reason pl)" now] m(1)
  have new: "\<forall>q \<in> set (placements s1). is_active q \<and> backend_node_id q \<noteq> row_id target \<longrightarrow> q \<in> set (placements s)"
    by (elim exE conjE) simp
  have "active_on ?i (enqueue_for_placement_ids now ann s1) = active_on ?i s1"
    by (simp add: active_on_def list_active_def)
  then have s': "s' = s \<and> active_on ?i s = [] \<or> s' = enqueue_for_placement_ids now ann s1 \<and> active_on ?i s' = []"
    and out: "mo_migrated_count out = length (active_on ?i s)" "mo_target_backend_id out = row_id target"
    using assms(2) t m by (auto simp: migrate_backend_eq Let_def split: if_splits)
  show "sys_inv port s'"
    using s' assms(1) sys_inv_enqueue_for_placement_ids [OF sys_inv_bulk_migrate [OF assms(1) m(1)]] by auto
  show "nodes s' = nodes s" using s' bulk_migrate_frame [OF m(1)] by auto
  show "active_on ?i s' = []" using s' by auto
  show "mo_migrated_count out = length (active_on ?i s)" "mo_target_backend_id out \<noteq> ?i" using out other by auto
  have "get_by_id (row_id target) (nodes s) = Some target"
    using assms(1) migrate_target_node [OF t(3)] by (auto simp: sys_inv_def pools_ok_def pools_inv_def intro: ids_ok_get)
  then show "mo_target_backend_id out \<notin> draining_set s" using t(4) out by (simp add: draining_set_def node_available_def)
  show "active_on j s' = []" if "j \<noteq> mo_target_backend_id out" "active_on j s = []" for j
    using s' that new out unfolding active_on_Nil by auto
qed

lemma mark_draining_frame [simp]:
  "nodes (mark_draining b src now i s) =
     update_by_id i (\<lambda>x. x\<lparr>is_draining := b, drain_source := src, updated_at := now\<rparr>) (nodes s)"
  "assignments (mark_draining b src now i s) = assignments s" "placements (mark_draining b src now i s) = placements s"
  "outbox (mark_draining b src now i s) = outbox s" "uuid_supply (mark_draining b src now i s) = uuid_supply s"
  by (simp_all add: mark_draining_def)

lemma start_drain_effect:
  assumes "sys_inv port s" "get_by_id (pd_source_backend_id pl) (nodes s) = Some n" "start_drain port now pl s = Inr s'"
  shows "sys_inv port s'" "placements s' = placements s"
    "nodes s' = update_by_id (pd_source_backend_id pl)
       (\<lambda>x. x\<lparr>is_draining := True, drain_source := Some ''auto_heal'', updated_at := now\<rparr>) (nodes s)"
proof -
  let ?i = "pd_source_backend_id pl"
  let ?f = "\<lambda>x :: vpn_node. x\<lparr>is_draining := True, drain_source := Some ''auto_heal'', updated_at := now\<rparr>"
  let ?s1 = "set_probe_drain_reason now ?i (normalize_probe_drain_reason (pd_last_migration_reason pl))
    (mark_draining True (Some ''auto_heal'') now ?i s)"
  from assms(3) obtain k where k: "notify_backend_health_changed port now ?i ?s1 = Inr (k, s')"
    by (auto simp: start_drain_def Let_def split: sum.splits)
  have s1: "nodes ?s1 = update_by_id ?i ?f (nodes s)" "assignments ?s1 = assignments s" "placements ?s1 = placements s"
    "outbox ?s1 = outbox s" "uuid_supply ?s1 = uuid_supply s"
    by (simp_all add: set_probe_drain_reason_def)
  show "sys_inv port s'" by (rule sys_inv_notify [OF assms(1,2) _ _ _ s1 k]) simp_all
  from only_outboxD [OF only_outbox_notify [OF k]] s1
  show "placements s' = placements s" "nodes s' = update_by_id ?i ?f (nodes s)" by simp_all
qed

lemma undo_drain_effect:
  assumes "sys_inv port s" "get_by_id i (nodes s) = Some n" "undo_drain port now i s = Inr s'"
  shows "sys_inv port s'" "placements s' = placements s"
    "nodes s' = update_by_id i (\<lambda>x. x\<lparr>is_draining := False, drain_source := None, updated_at := now\<rparr>) (nodes s)"
proof -
  let ?f = "\<lambda>x :: vpn_node. x\<lparr>is_draining := False, drain_source := None, updated_at := now\<rparr>"
  let ?s1 = "clear_probe_drain_reason now i (mark_draining False None now i s)"
  from assms(3) obtain k where k: "notify_backend_health_changed port now i ?s1 = Inr (k, s')"
    by (auto simp: undo_drain_def Let_def split: sum.splits)
  have s1: "nodes ?s1 = update_by_id i ?f (nodes s)" "assignments ?s1 = assignments s" "placements ?s1 = placements s"
    "outbox ?s1 = outbox s" "uuid_supply ?s1 = uuid_supply s"
    by (simp_all add: clear_probe_drain_reason_def)
  show "sys_inv port s'" by (rule sys_inv_notify [OF assms(1,2) _ _ _ s1 k]) simp_all
  from only_outboxD [OF only_outbox_notify [OF k]] s1
  show "placements s' = placements s" "nodes s' = update_by_id i ?f (nodes s)" by simp_all
qed

lemma draining_set_update:
  assumes "get_by_id i (nodes s) = Some n"
    "nodes s' = update_by_id i (\<lambda>x. x\<lparr>is_draining := b, drain_source := src, updated_at := now\<rparr>) (nodes s)"
  shows "draining_set s' = (if b then insert i (draining_set s) else draining_set s - {i})"
  using assms by (auto simp: draining_set_def tbl.get_upd split: if_splits)

lemma drain_and_migrate_cases:
  assumes "sys_inv port s" "drain_and_migrate_backend port now pl s = Inr (res, s')"
  shows "sys_inv port s' \<and>
    (\<forall>j \<in> draining_set s'. active_on j s = [] \<longrightarrow> active_on j s' = []) \<and>
    (case res of
       Inr out \<Rightarrow> draining_set s' = insert (pd_source_backend_id pl) (draining_set s) \<and>
         get_by_id (pd_source_backend_id pl) (nodes s) \<noteq> None \<and>
         active_on (pd_source_backend_id pl) s' = [] \<and>
         po_migrated_count out = length (active_on (pd_source_backend_id pl) s) \<and>
         po_target_backend_id out \<noteq> pd_source_backend_id pl
     | Inl e \<Rightarrow> draining_set s' = draining_set s \<and> placements s' = placements s)"
proof (cases "\<exists>e. res = Inl e \<and> s' = s")
  case True
  then show ?thesis using assms(1) by auto
next
  case False
  let ?i = "pd_source_backend_id pl"
  let ?m = "\<lparr>mi_source_backend_id = ?i, mi_target_backend_id = pd_target_backend_id pl,
    mi_last_migration_reason = pd_last_migration_reason pl\<rparr>"
  from assms(2) False obtain n latest s1 where
    n: "get_by_id ?i (nodes s) = Some n" and s1: "(if is_draining n then Inr s else start_drain port now pl s) = Inr s1"
    and rest: "migrate_or_undo port now pl (is_draining n) latest s1 = Inr (res, s')"
    by (auto simp: drain_and_migrate_backend_def Let_def split: option.splits sum.splits)
  have e1: "sys_inv port s1 \<and> placements s1 = placements s \<and> draining_set s1 = insert ?i (draining_set s) \<and>
      (\<exists>n1. get_by_id ?i (nodes s1) = Some n1)"
  proof (cases "is_draining n")
    case True
    then show ?thesis using s1 n assms(1) by (auto simp: draining_set_def)
  next
    case False
    with s1 have "start_drain port now pl s = Inr s1" by simp
    from start_drain_effect [OF assms(1) n this] draining_set_update [OF n] n show ?thesis
      by (auto simp: tbl.get_upd)
  qed
  then obtain n1 where n1: "get_by_id ?i (nodes s1) = Some n1" by blast
  show ?thesis
  proof (cases "migrate_backend now ?m s1")
    case (Inr x)
    obtain out s2 where x: "x = (out, s2)" by (cases x)
    from migrate_backend_effect [of port s1 now ?m out s2] e1 Inr x have
      "sys_inv port s2" "nodes s2 = nodes s1" "active_on ?i s2 = []" "mo_migrated_count out = length (active_on ?i s1)"
      "mo_target_backend_id out \<noteq> ?i" "mo_target_backend_id out \<notin> draining_set s1"
      "\<And>j. j \<noteq> mo_target_backend_id out \<Longrightarrow> active_on j s1 = [] \<Longrightarrow> active_on j s2 = []" by simp_all
    moreover have "active_on j s1 = active_on j s" for j using e1 by (simp add: active_on_def list_active_def)
    moreover have "draining_set s2 = draining_set s1" using \<open>nodes s2 = nodes s1\<close> by (simp add: draining_set_def)
    moreover have "\<forall>j \<in> draining_set s2. active_on j s = [] \<longrightarrow> active_on j s2 = []"
      using calculation by metis
    ultimately show ?thesis using rest Inr x e1 n by (auto simp: migrate_or_undo_def)
  next
    case (Inl e)
    with rest obtain code detail where e: "e = HTTPException code detail" by (cases e) (auto simp: migrate_or_undo_def)
    with rest Inl have s': "(if is_draining n then Inr s1 else undo_drain port now ?i s1) = Inr s'" and res: "res = Inl e"
      by (auto simp: migrate_or_undo_def split: sum.splits if_splits)
    show ?thesis
    proof (cases "is_draining n")
      case True
      with s' s1 res assms(1) show ?thesis by (auto simp: active_on_def list_active_def)
    next
      case nd: False
      with s' have u: "undo_drain port now ?i s1 = Inr s'" by simp
      from undo_drain_effect [OF conjunct1 [OF e1] n1 u] draining_set_update [OF n1]
      have "sys_inv port s'" "placements s' = placements s1" "draining_set s' = draining_set s1 - {?i}" by simp_all
      moreover have "?i \<notin> draining_set s" using nd n by (simp add: draining_set_def)
      ultimately show ?thesis using e1 res by (auto simp: active_on_def list_active_def)
    qed
  qed
qed

section \<open>Only failing backends are drained\<close>

text \<open>What the signals must say: the last reports all failed, the latest recently, and the users' path does not work.\<close>

definition probe_failing :: "time \<Rightarrow> uuid \<Rightarrow> string option \<Rightarrow> int \<Rightarrow> int \<Rightarrow> db \<Rightarrow> bool" where
  "probe_failing now i src max_age k s \<longleftrightarrow>
     (let recent = take (nat k) (backend_signals i src s) in
      length recent = nat k \<and> (\<forall>p \<in> set recent. \<not> ps_is_reachable p) \<and>
      now - ps_checked_at (hd recent) \<le> usec max_age \<and> \<not> user_path_healthy now i s)"

lemma validate_probe_failure_iff:
  assumes "1 \<le> k"
  shows "(\<exists>l. validate_probe_failure_for_node now i src True max_age k s = Inr l) \<longleftrightarrow> probe_failing now i src max_age k s"
proof (cases "backend_signals i src s")
  case Nil
  then show ?thesis
    using assms by (simp add: validate_probe_failure_for_node_def get_latest_for_backend_node_def first_row_def probe_failing_def)
next
  case (Cons l ls)
  let ?xs = "backend_signals i src s"
  define m where "m = nat (max 20 (k * 3))"
  have le: "nat k \<le> m" unfolding m_def using assms by (intro nat_mono) auto
  have "k \<le> int (count_leading (\<lambda>p. \<not> ps_is_reachable p) (take m ?xs)) \<longleftrightarrow>
      nat k \<le> count_leading (\<lambda>p. \<not> ps_is_reachable p) (take m ?xs)" by linarith
  also have "\<dots> \<longleftrightarrow> nat k \<le> length ?xs \<and> (\<forall>p \<in> set (take (nat k) ?xs). \<not> ps_is_reachable p)"
    unfolding count_leading_ge_iff using le by (simp add: min_def)
  finally have run: "\<not> int (count_leading (\<lambda>p. \<not> ps_is_reachable p) (take m ?xs)) < k \<longleftrightarrow>
      nat k \<le> length ?xs \<and> (\<forall>p \<in> set (take (nat k) ?xs). \<not> ps_is_reachable p)" by linarith
  have first: "k = 1 \<Longrightarrow> take (nat k) ?xs = [l]" by (simp add: Cons)
  have hd: "hd (take (nat k) ?xs) = l" "l \<in> set (take (nat k) ?xs)"
    using assms Cons by (cases "nat k"; simp)+
  show ?thesis
  proof (cases "k = 1")
    case True
    then show ?thesis
      using Cons first by (simp add: validate_probe_failure_for_node_def get_latest_for_backend_node_def first_row_def probe_failing_def)
  next
    case False
    with assms have "1 < k" by simp
    then show ?thesis
      using run hd Cons unfolding m_def
      by (auto simp: validate_probe_failure_for_node_def get_latest_for_backend_node_def list_recent_for_backend_node_def
          first_row_def probe_failing_def Let_def)
  qed
qed

text \<open>The operation reads the signals and routes and never writes them.\<close>

definition same_evidence :: "db \<Rightarrow> db \<Rightarrow> bool" where
  "same_evidence s s' \<longleftrightarrow> signals s' = signals s \<and> routes s' = routes s"

lemma same_evidence_refl [simp]: "same_evidence s s"
  by (simp add: same_evidence_def)

lemma same_evidence_trans: "same_evidence s s1 \<Longrightarrow> same_evidence s1 s2 \<Longrightarrow> same_evidence s s2"
  by (simp add: same_evidence_def)

lemma validate_cong:
  "same_evidence s s' \<Longrightarrow>
   validate_probe_failure_for_node now i src req age k s' = validate_probe_failure_for_node now i src req age k s"
proof -
  assume "same_evidence s s'"
  then have "backend_signals i src s' = backend_signals i src s" "user_path_healthy now i s' = user_path_healthy now i s"
    by (simp_all add: same_evidence_def backend_signals_def user_path_healthy_def get_latest_mesh_for_backend_def)
  then show ?thesis
    by (simp only: validate_probe_failure_for_node_def get_latest_for_backend_node_def list_recent_for_backend_node_def)
qed

lemma same_evidence_notify:
  assumes "notify_backend_health_changed port now i s = Inr (k, s')"
  shows "same_evidence s s'"
  using only_outboxD [OF only_outbox_notify [OF assms]] by (simp add: same_evidence_def)

lemma same_evidence_start: "start_drain port now pl s = Inr s' \<Longrightarrow> same_evidence s s'"
  by (auto simp: start_drain_def Let_def same_evidence_def set_probe_drain_reason_def record_drain_reason_def
      update_by_node_id_def mark_draining_def split: sum.splits option.splits dest!: same_evidence_notify)

lemma same_evidence_undo: "undo_drain port now i s = Inr s' \<Longrightarrow> same_evidence s s'"
  by (auto simp: undo_drain_def Let_def same_evidence_def clear_probe_drain_reason_def clear_drain_reason_def
      update_by_node_id_def mark_draining_def split: sum.splits option.splits if_splits dest!: same_evidence_notify)

lemma same_evidence_bulk: "bulk_migrate_backend ids t r now s = Inr (out, s') \<Longrightarrow> same_evidence s s'"
  by (auto simp: same_evidence_def bulk_migrate_backend_def Let_def move_placements_def store_placements_def
      merge_placements_def split: if_splits sum.splits)

lemma same_evidence_enqueue: "same_evidence s (enqueue_for_placement_ids now ids s)"
  using only_outboxD [OF only_outbox_enqueue_many [of s now "concat (map (placement_items s) (list_transport_rows_by_placement_ids ids s))"]]
  by (simp add: same_evidence_def enqueue_for_placement_ids_eq)

lemma same_evidence_migrate: "migrate_backend now pl s = Inr (out, s') \<Longrightarrow> same_evidence s s'"
  by (auto simp: migrate_backend_eq Let_def split: if_splits option.splits sum.splits
      intro: same_evidence_trans [OF same_evidence_bulk same_evidence_enqueue])

lemma same_evidence_drain:
  assumes "drain_and_migrate_backend port now pl s = Inr (res, s')"
  shows "same_evidence s s'"
  using assms
  by (auto simp: drain_and_migrate_backend_def migrate_or_undo_def Let_def
      split: option.splits sum.splits if_splits api_error.splits
      dest!: same_evidence_start same_evidence_undo same_evidence_migrate intro: same_evidence_trans)

definition drained_for_cause :: "time \<Rightarrow> auto_drain_in \<Rightarrow> db \<Rightarrow> db \<Rightarrow> bool" where
  "drained_for_cause now pl s s' \<longleftrightarrow>
     same_evidence s s' \<and> draining_set s \<subseteq> draining_set s' \<and>
     (\<forall>i \<in> draining_set s' - draining_set s. \<not> ad_dry_run pl \<and>
        (\<exists>l. validate_probe_failure_for_node now i (ad_source pl) (ad_require_recent_failure pl)
           (ad_max_probe_age_sec pl) (ad_min_consecutive_failures pl) s = Inr l) \<and> active_on i s' = [])"

lemma auto_drain_node_cause:
  assumes "auto_drain_node port now pl n s = Inr (act, s')" "get_by_id i (nodes s) = Some n" "sys_inv port s"
    "drained_for_cause now pl s0 s"
  shows "sys_inv port s' \<and> drained_for_cause now pl s0 s'"
proof (cases "s' = s")
  case True
  with assms show ?thesis by simp
next
  case False
  have i: "row_id n = i" using assms(2) by (simp add: get_by_id_Some)
  from False assms(1) i obtain l res where
    l: "validate_probe_failure_for_node now i (ad_source pl) (ad_require_recent_failure pl)
          (ad_max_probe_age_sec pl) (ad_min_consecutive_failures pl) s = Inr l" and dry: "\<not> ad_dry_run pl"
    and d: "drain_and_migrate_backend port now (drain_request pl i) s = Inr (res, s')"
    by (auto simp: auto_drain_node_def split: if_splits sum.splits)
  have src: "pd_source_backend_id (drain_request pl i) = i" by (simp add: drain_request_def)
  note c = drain_and_migrate_cases [OF assms(3) d, unfolded src]
  have ev: "same_evidence s0 s" "same_evidence s s'"
    using assms(4) same_evidence_drain [OF d] by (simp_all add: drained_for_cause_def)
  have grow: "draining_set s \<subseteq> draining_set s' \<and> draining_set s' \<subseteq> insert i (draining_set s) \<and>
      (i \<in> draining_set s' - draining_set s \<longrightarrow> active_on i s' = [])"
    using c by (cases res) auto
  have keep: "active_on j s' = []" if "j \<in> draining_set s'" "active_on j s = []" for j using c that by blast
  have "drained_for_cause now pl s0 s'"
    unfolding drained_for_cause_def
  proof (intro conjI ballI)
    show "same_evidence s0 s'" using ev by (rule same_evidence_trans)
    show "draining_set s0 \<subseteq> draining_set s'" using assms(4) grow by (auto simp: drained_for_cause_def)
  next
    fix j assume j: "j \<in> draining_set s' - draining_set s0"
    show "\<not> ad_dry_run pl" by (rule dry)
    show "\<exists>l. validate_probe_failure_for_node now j (ad_source pl) (ad_require_recent_failure pl)
           (ad_max_probe_age_sec pl) (ad_min_consecutive_failures pl) s0 = Inr l"
    proof (cases "j \<in> draining_set s")
      case True
      with assms(4) j show ?thesis by (simp add: drained_for_cause_def)
    next
      case False
      with j grow have "j = i" by auto
      with l show ?thesis using validate_cong [OF ev(1)] by auto
    qed
    show "active_on j s' = []"
    proof (cases "j \<in> draining_set s")
      case True
      with assms(4) j keep show ?thesis by (simp add: drained_for_cause_def)
    next
      case False
      with j grow show ?thesis by auto
    qed
  qed
  with c show ?thesis by blast
qed

lemma auto_drain_nodes_cause:
  "auto_drain_nodes port now pl is (out, s) = Inr (out', s') \<Longrightarrow> sys_inv port s \<Longrightarrow> drained_for_cause now pl s0 s \<Longrightarrow>
   sys_inv port s' \<and> drained_for_cause now pl s0 s'"
proof (induction "is" arbitrary: out s)
  case (Cons i "is")
  show ?case
  proof (cases "int (ado_processed out) \<ge> ad_max_nodes pl \<or> get_by_id i (nodes s) = None")
    case True
    then show ?thesis using Cons by (auto split: if_splits)
  next
    case False
    then obtain n where n: "get_by_id i (nodes s) = Some n" by auto
    with False Cons.prems(1) obtain act s1 out1 where
      1: "auto_drain_node port now pl n s = Inr (act, s1)" "auto_drain_nodes port now pl is (out1, s1) = Inr (out', s')"
      by (auto split: sum.splits)
    from auto_drain_node_cause [OF 1(1) n Cons.prems(2,3)] have "sys_inv port s1" "drained_for_cause now pl s0 s1"
      by blast+
    then show ?thesis by (rule Cons.IH [OF 1(2)])
  qed
qed simp

lemma auto_drain_cause:
  assumes "auto_drain_and_migrate_backends port now pl s = Inr (out, s')" "sys_inv port s"
  shows "sys_inv port s' \<and> drained_for_cause now pl s s'"
proof -
  have "drained_for_cause now pl s s" by (simp add: drained_for_cause_def)
  from auto_drain_nodes_cause [OF assms(1) [unfolded auto_drain_and_migrate_backends_def] assms(2) this] show ?thesis .
qed

lemma probe_auto_drain_sys_inv [sys_ok]:
  "probe_auto_drain_tick port now s = Inr (out, s') \<Longrightarrow> sys_inv port s \<Longrightarrow> sys_inv port s'"
  using auto_drain_cause [THEN conjunct1] by (auto simp: probe_auto_drain_tick_def split: sum.splits)

lemma drain_and_migrate_sys_inv [sys_ok]:
  "drain_and_migrate_endpoint port now pl s = Inr (out, s') \<Longrightarrow> sys_inv port s \<Longrightarrow> sys_inv port s'"
proof -
  assume "drain_and_migrate_endpoint port now pl s = Inr (out, s')" "sys_inv port s"
  then have "drain_and_migrate_backend port now pl s = Inr (Inr out, s')"
    by (auto simp: drain_and_migrate_endpoint_def split: sum.splits)
  from drain_and_migrate_cases [OF \<open>sys_inv port s\<close> this] show "sys_inv port s'" by (rule conjunct1)
qed


text \<open>The only user of backend 2 moves to backend 3 after a failed probe.\<close>

definition failed_signal :: probe_signal where
  "failed_signal =
     \<lparr>row_id = 60, created_at = 4, updated_at = 4, is_active = True, ps_node_id = 2, ps_route_id = None,
      ps_transport_profile_id = None, ps_transport_kind = None, ps_probe_kind = ''tcp'', ps_target_host = None,
      ps_target_port = None, ps_error_phase = None, ps_source = ''eu'', ps_is_reachable = False, ps_latency_ms = None,
      ps_error = None, ps_checked_at = 4, ps_details = []\<rparr>"

definition failing_db :: db where
  "failing_db = backend_db\<lparr>signals := [failed_signal]\<rparr>"

definition sample_auto_drain :: auto_drain_in where
  "sample_auto_drain =
     \<lparr>ad_backend_node_ids = Some [2], ad_target_backend_id = Some 3, ad_source = None, ad_require_recent_failure = True,
      ad_max_probe_age_sec = 600, ad_min_consecutive_failures = 1, ad_include_already_draining = False,
      ad_dry_run = False, ad_max_nodes = 20, ad_last_migration_reason = ''probe_auto_failure''\<rparr>"

lemma failing_db_inv: "sys_inv 443 failing_db"
proof -
  have "transport_inv failing_db"
    by (rule transport_inv_elsewhere [OF backend_db_inv]) (simp_all add: failing_db_def)
  moreover have as: "assignments failing_db = []" by (simp add: failing_db_def backend_db_def announced_db_def)
  moreover have "ids_ok (nodes failing_db)" by (simp add: failing_db_def backend_db_def ids_ok_def sample_node_def)
  moreover have ob: "outbox failing_db = outbox announced_db" by (simp add: failing_db_def backend_db_def)
  then have "pools_sent e (outbox failing_db) = []" for e
    by (simp add: announced_db_sel pools_sent_def command_item_def List.map_filter_simps)
  moreover have "pool_ids_drawn failing_db" by (simp add: pool_ids_drawn_def ob announced_db_sel command_item_def)
  ultimately show ?thesis
    by (simp add: sys_inv_def pools_ok_def pools_inv_def backends_typed_def informed_def announced_pool_def)
qed

lemma failing_db_run:
  "\<exists>out s'. auto_drain_and_migrate_backends 443 5 sample_auto_drain failing_db = Inr (out, s') \<and> ado_migrated out = 1"
proof -
  let ?n = "sample_node 2 ''backend''"
  let ?req = "drain_request sample_auto_drain 2"
  have as: "assignments failing_db = []" by (simp add: failing_db_def backend_db_def announced_db_def)
  have n: "get_by_id 2 (nodes failing_db) = Some ?n" "row_id ?n = 2" "is_active ?n" "is_enabled ?n" "\<not> is_draining ?n"
    by (simp_all add: failing_db_def backend_db_def get_by_id_def sample_node_def)
  have v: "\<exists>l. validate_probe_failure_for_node 5 2 None True 600 1 failing_db = Inr l"
    by (simp add: validate_probe_failure_for_node_def get_latest_for_backend_node_def backend_signals_def newest_first_def
        first_row_def failing_db_def failed_signal_def from_source_def user_path_healthy_def get_latest_mesh_for_backend_def usec_def)
  have notify: "notify_backend_health_changed 443 5 2 x = Inr (0, x)" if "assignments x = []" for x
    using that by (intro notify_without_assignments) simp
  obtain s1 where s1: "start_drain 443 5 ?req failing_db = Inr s1"
    by (simp add: start_drain_def Let_def notify set_probe_drain_reason_def as drain_request_def)
  have e1: "sys_inv 443 s1" "placements s1 = placements failing_db"
    "nodes s1 = update_by_id 2 (\<lambda>x. x\<lparr>is_draining := True, drain_source := Some ''auto_heal'', updated_at := 5\<rparr>) (nodes failing_db)"
    using start_drain_effect [OF failing_db_inv _ s1] n(1) by (simp_all add: drain_request_def)
  let ?m = "\<lparr>mi_source_backend_id = 2, mi_target_backend_id = Some 3, mi_last_migration_reason = ''probe_auto_failure''\<rparr>"
  have inv: "transport_inv s1" using e1(1) by (simp add: sys_inv_def)
  have t: "get_by_id 2 (nodes s1) = Some (?n\<lparr>is_draining := True, drain_source := Some ''auto_heal'', updated_at := 5\<rparr>)"
    "get_by_id 3 (nodes s1) = Some (sample_node 3 ''backend'')" "node_available (sample_node 3 ''backend'')"
    "row_id (sample_node 3 ''backend'') = 3"
    by (simp_all add: e1(3) failing_db_def backend_db_def get_by_id_def sample_node_def node_available_def
        update_by_id_def)
  have "\<exists>x. migrate_backend 5 ?m s1 = Inr x"
    using migrate_active_on [OF inv, of 2 3 "Some ''probe_auto_failure''" 5] t
    by (cases "active_on 2 s1 = []") (auto simp: migrate_backend_eq migrate_target_def Let_def)
  then obtain out s2 where s2: "migrate_backend 5 ?m s1 = Inr (out, s2)" by (metis surj_pair)
  have "drain_and_migrate_backend 443 5 ?req failing_db =
      Inr (Inr \<lparr>po_source_backend_id = mo_source_backend_id out, po_target_backend_id = mo_target_backend_id out,
        po_migrated_count = mo_migrated_count out,
        po_probe_report_id = map_option row_id (get_latest_for_backend_node 2 None failing_db)\<rparr>, s2)"
    using n s1 s2
    by (simp add: drain_and_migrate_backend_def migrate_or_undo_def validate_probe_failure_for_node_def drain_request_def
        sample_auto_drain_def Let_def)
  then show ?thesis
    using n v by (auto simp: auto_drain_and_migrate_backends_def resolve_auto_nodes_def sample_auto_drain_def
        auto_drain_node_def List.map_filter_simps)
qed


text \<open>
  A policy may ask for more failures or more nodes than the request accepts; the reconciler then
  fails on every tick.
\<close>

lemma policy_beyond_request:
  "10 < auto_drain_min_consecutive_failures (the_probe_policy s) \<or> 200 < auto_drain_max_nodes (the_probe_policy s) \<Longrightarrow>
   probe_auto_drain_tick port now s = Inl (ValidationError ''ProbeAutoDrainMigrateIn'')"
  by (auto simp: probe_auto_drain_tick_def build_payload_def auto_drain_in_valid_def Let_def)

end
