(* ===== verification/Probe_Ingestion.thy ===== *)
theory Probe_Ingestion
  imports Probe_Drain
begin

text \<open>
  \<open>services/probe/ingestion_service.py\<close>: the reports of the external probes.  A report is stored;
  if it is the latest of its source it may requeue the placements of a backend and drive the
  health of its route.  The second half lists the targets the probes are to check.

  Requests arrive validated by their pydantic model.  The dictionary \<open>xhttp_extra\<close> of a target is a
  constant and is left out, as are the percentages of \<open>get_stats\<close>, which are rounded floats.
\<close>

section \<open>Configuration and requests\<close>

record synthetic_client_ids =
  sci_reality :: "string option"
  sci_ws :: "string option"
  sci_xhttp :: "string option"

definition normalize_optional_client_id :: "string option \<Rightarrow> string option" where
  "normalize_optional_client_id v =
     (case v of None \<Rightarrow> None | Some x \<Rightarrow> if py_strip x = [] then None else Some (py_strip x))"

definition configured_transports :: "synthetic_client_ids \<Rightarrow> (string \<times> string) list" where
  "configured_transports c =
     List.map_filter (\<lambda>(k, v). map_option (Pair k) v)
       [(''reality'', sci_reality c), (''ws'', sci_ws c), (''xhttp'', sci_xhttp c)]"

record probe_config =
  pc_target_port :: int
  pc_edge_public_domain :: string
  pc_client_ids :: synthetic_client_ids

record probe_report_in =
  pr_node_id :: uuid
  pr_route_id :: "uuid option"
  pr_transport_profile_id :: "uuid option"
  pr_transport_kind :: "string option"
  pr_probe_kind :: string
  pr_target_host :: "string option"
  pr_target_port :: "int option"
  pr_error_phase :: "string option"
  pr_source :: string
  pr_is_reachable :: bool
  pr_latency_ms :: "int option"
  pr_error :: "string option"
  pr_checked_at :: "time option"
  pr_details :: "(string \<times> probe_value) list"

record probe_target =
  pt_node_id :: uuid
  pt_route_id :: "uuid option"
  pt_route_name :: "string option"
  pt_transport_profile_id :: "uuid option"
  pt_transport_profile_name :: "string option"
  pt_transport_kind :: "string option"
  pt_probe_kind :: string
  pt_node_name :: string
  pt_region :: string
  pt_probe_client_id :: "string option"
  pt_target_host :: string
  pt_target_port :: int
  pt_tls_sni :: "string option"
  pt_tls_fingerprint :: "string option"
  pt_ws_host :: "string option"
  pt_ws_path :: "string option"
  pt_xhttp_host :: "string option"
  pt_xhttp_path :: "string option"
  pt_xhttp_mode :: "string option"
  pt_xhttp_alpn :: "string option"
  pt_reality_public_key :: "string option"
  pt_reality_short_id :: "string option"
  pt_reality_server_name :: "string option"
  pt_flow :: "string option"

datatype route_event =
    RouteBlockedEvent uuid string uuid nat
  | RouteRecoveredEvent uuid string

definition SYNTHETIC_REPAIR_REASON :: string where
  "SYNTHETIC_REPAIR_REASON = ''probe_synthetic_self_heal''"

definition SYNTHETIC_REPAIR_COOLDOWN_SEC :: int where
  "SYNTHETIC_REPAIR_COOLDOWN_SEC = 300"

section \<open>Targets\<close>

definition transport_kind_for_profile :: "transport_profile \<Rightarrow> string option" where
  "transport_kind_for_profile p =
     (if tp_security p = ''reality'' \<and> tp_network p = ''tcp'' then Some ''reality''
      else if tp_security p = ''tls'' \<and> tp_network p = ''ws'' then Some ''ws''
      else if tp_security p = ''tls'' \<and> tp_network p = ''xhttp'' then Some ''xhttp''
      else None)"

definition matches_target_role :: "vpn_node \<Rightarrow> string \<Rightarrow> bool" where
  "matches_target_role node r \<longleftrightarrow> r = ''all'' \<or> role node = r"

definition bare_target :: "vpn_node \<Rightarrow> string \<Rightarrow> int \<Rightarrow> probe_target" where
  "bare_target node host port =
     \<lparr>pt_node_id = row_id node, pt_route_id = None, pt_route_name = None, pt_transport_profile_id = None,
      pt_transport_profile_name = None, pt_transport_kind = None, pt_probe_kind = ''tcp_connect'',
      pt_node_name = node_name node, pt_region = region node, pt_probe_client_id = None, pt_target_host = host,
      pt_target_port = port, pt_tls_sni = None, pt_tls_fingerprint = None, pt_ws_host = None, pt_ws_path = None,
      pt_xhttp_host = None, pt_xhttp_path = None, pt_xhttp_mode = None, pt_xhttp_alpn = None,
      pt_reality_public_key = None, pt_reality_short_id = None, pt_reality_server_name = None, pt_flow = None\<rparr>"

definition or_chrome :: "string \<Rightarrow> string" where
  "or_chrome f = (if f = [] then ''chrome'' else f)"

definition build_probe_target ::
  "probe_config \<Rightarrow> route \<Rightarrow> vpn_node \<Rightarrow> transport_profile \<Rightarrow> bool \<Rightarrow> bool \<Rightarrow> string option \<Rightarrow> probe_target option" where
  "build_probe_target cfg r node tp include_disabled include_draining client =
     (if \<not> include_disabled \<and> \<not> is_enabled node then None
      else if \<not> include_draining \<and> is_draining node then None
      else if tp_security tp = ''reality'' \<and> tp_network tp = ''tcp''
      then if \<not> truthy (reality_ip node) \<or> \<not> truthy (reality_server_name tp) \<or> \<not> truthy (reality_public_key tp) \<or>
              \<not> truthy (reality_short_id tp)
           then None
           else Some ((bare_target node (the (reality_ip node)) (tp_port tp))\<lparr>
             pt_route_id := Some (row_id r), pt_route_name := Some (route_name r),
             pt_transport_profile_id := Some (row_id tp), pt_transport_profile_name := Some (tp_name tp),
             pt_transport_kind := Some ''reality'', pt_probe_kind := ''synthetic_vpn'', pt_probe_client_id := client,
             pt_tls_sni := reality_server_name tp, pt_tls_fingerprint := Some (or_chrome (tls_fingerprint tp)),
             pt_reality_public_key := reality_public_key tp, pt_reality_short_id := reality_short_id tp,
             pt_reality_server_name := reality_server_name tp, pt_flow := tp_flow tp\<rparr>)
      else if tp_security tp = ''tls'' \<and> tp_network tp = ''ws''
      then if pc_edge_public_domain cfg \<noteq> [] \<or> public_domain node = [] then None
           else Some ((bare_target node (public_domain node) (if tp_port tp = 0 then pc_target_port cfg else tp_port tp))\<lparr>
             pt_route_id := Some (row_id r), pt_route_name := Some (route_name r),
             pt_transport_profile_id := Some (row_id tp), pt_transport_profile_name := Some (tp_name tp),
             pt_transport_kind := Some ''ws'', pt_probe_kind := ''synthetic_vpn'', pt_probe_client_id := client,
             pt_tls_sni := Some (public_domain node), pt_tls_fingerprint := Some (or_chrome (tls_fingerprint tp)),
             pt_ws_host := Some (public_domain node), pt_ws_path := Some ''/api/v1/stream''\<rparr>)
      else None)"

definition entry_host :: "vpn_node \<Rightarrow> string" where
  "entry_host node =
     (if public_domain node \<noteq> [] then public_domain node else case reality_ip node of None \<Rightarrow> [] | Some h \<Rightarrow> h)"

definition build_node_probe_target :: "probe_config \<Rightarrow> vpn_node \<Rightarrow> bool \<Rightarrow> bool \<Rightarrow> probe_target option" where
  "build_node_probe_target cfg node include_disabled include_draining =
     (if \<not> include_disabled \<and> \<not> is_enabled node then None
      else if \<not> include_draining \<and> is_draining node then None
      else if entry_host node = [] then None
      else Some ((bare_target node (entry_host node) (pc_target_port cfg))\<lparr>pt_transport_kind := Some ''reality''\<rparr>))"

type_synonym detailed_route = "route \<times> vpn_node \<times> transport_profile \<times> node_agent_state option"

definition pool_target ::
  "probe_config \<Rightarrow> vpn_node \<Rightarrow> route \<Rightarrow> vpn_node \<Rightarrow> transport_profile \<Rightarrow> string \<Rightarrow> string \<Rightarrow> probe_target" where
  "pool_target cfg entry r backend tp kind client =
     (let base = (bare_target entry (entry_host entry) (pc_target_port cfg))\<lparr>
            pt_route_id := Some (row_id r),
            pt_route_name := Some (node_name entry @ [CHR 0xE2, CHR 0x86, CHR 0x92] @ node_name backend @
              [CHR 0xC2, CHR 0xB7] @ ''pool''),
            pt_transport_profile_name := Some (tp_name tp), pt_transport_kind := Some kind,
            pt_probe_kind := ''synthetic_vpn'', pt_probe_client_id := Some client\<rparr>
      in if kind = ''reality''
         then base\<lparr>pt_tls_sni := reality_server_name tp, pt_tls_fingerprint := Some (or_chrome (tls_fingerprint tp)),
                pt_reality_public_key := reality_public_key tp, pt_reality_short_id := reality_short_id tp,
                pt_reality_server_name := reality_server_name tp, pt_flow := tp_flow tp\<rparr>
         else base\<lparr>pt_tls_sni := Some (entry_host entry), pt_tls_fingerprint := Some ''chrome'',
                pt_xhttp_host := Some (entry_host entry), pt_xhttp_path := Some ''/'',
                pt_xhttp_mode := Some ''packet-up'', pt_xhttp_alpn := Some ''h2,http/1.1''\<rparr>)"

text \<open>The loop over the routes of an entry: the transport a row is probed with, if any, and the set of backends and transports seen.\<close>

definition synthetic_kind ::
  "bool \<Rightarrow> (uuid \<times> string \<Rightarrow> string option) \<Rightarrow> (uuid \<times> string) list \<Rightarrow> vpn_node \<Rightarrow> transport_profile \<Rightarrow> string option" where
  "synthetic_kind include_draining ids seen backend tp =
     (case transport_kind_for_profile tp of
        None \<Rightarrow> None
      | Some kind \<Rightarrow>
          if kind \<noteq> ''reality'' \<and> kind \<noteq> ''xhttp'' then None
          else if \<not> is_active backend \<or> \<not> is_enabled backend then None
          else if \<not> include_draining \<and> is_draining backend then None
          else if (row_id backend, kind) \<in> set seen then None
          else if \<not> truthy (ids (row_id backend, kind)) then None
          else if kind = ''reality'' \<and> \<not> (truthy (reality_public_key tp) \<and> truthy (reality_short_id tp) \<and>
                    truthy (reality_server_name tp)) then None
          else Some kind)"

fun entry_targets_loop ::
  "probe_config \<Rightarrow> vpn_node \<Rightarrow> bool \<Rightarrow> (uuid \<times> string \<Rightarrow> string option) \<Rightarrow> (uuid \<times> string) list \<Rightarrow> detailed_route list
   \<Rightarrow> probe_target list" where
  "entry_targets_loop cfg entry include_draining ids seen [] = []"
| "entry_targets_loop cfg entry include_draining ids seen ((r, backend, tp, st) # rows) =
     (case synthetic_kind include_draining ids seen backend tp of
        None \<Rightarrow> entry_targets_loop cfg entry include_draining ids seen rows
      | Some kind \<Rightarrow>
          pool_target cfg entry r backend tp kind (the (ids (row_id backend, kind))) #
          entry_targets_loop cfg entry include_draining ids ((row_id backend, kind) # seen) rows)"

definition build_entry_synthetic_targets ::
  "probe_config \<Rightarrow> vpn_node \<Rightarrow> detailed_route list \<Rightarrow> (uuid \<times> string \<Rightarrow> string option) \<Rightarrow> bool \<Rightarrow> bool \<Rightarrow> probe_target list" where
  "build_entry_synthetic_targets cfg entry rows ids include_disabled include_draining =
     (if \<not> include_disabled \<and> \<not> is_enabled entry then []
      else if \<not> include_draining \<and> is_draining entry then []
      else if entry_host entry = [] then []
      else entry_targets_loop cfg entry include_draining ids [] rows)"

definition list_node_probe_targets ::
  "probe_config \<Rightarrow> bool \<Rightarrow> bool \<Rightarrow> string option \<Rightarrow> detailed_route list \<Rightarrow> (uuid \<times> string \<Rightarrow> string option) \<Rightarrow> db
   \<Rightarrow> probe_target list" where
  "list_node_probe_targets cfg include_draining include_disabled rl rows ids s =
     (if rl \<notin> {None, Some ''all'', Some ''whitelist_entry'', Some ''entry''} then []
      else concat (map (\<lambda>node.
             (case build_node_probe_target cfg node include_disabled include_draining of None \<Rightarrow> [] | Some t \<Rightarrow> [t]) @
             build_entry_synthetic_targets cfg node (filter (\<lambda>(r, _). entry_node_id r = Some (row_id node)) rows) ids
               include_disabled include_draining)
           (filter (\<lambda>node. is_active node \<and> role node \<in> {''whitelist_entry'', ''entry''} \<and>
              (case rl of None \<Rightarrow> True | Some x \<Rightarrow> matches_target_role node x)) (nodes s))))"

definition transport_value :: "VpnTransport \<Rightarrow> string" where
  "transport_value t = (case t of vt_ws \<Rightarrow> ''ws'' | vt_xhttp \<Rightarrow> ''xhttp'' | vt_tcp \<Rightarrow> ''tcp'' | vt_reality \<Rightarrow> ''reality'')"

text \<open>\<open>VpnKeyRepository.list_by_client_ids\<close> with \<open>active_only\<close>.\<close>

definition list_by_client_ids :: "time \<Rightarrow> string list \<Rightarrow> db \<Rightarrow> vpn_key list" where
  "list_by_client_ids now ids s =
     filter (\<lambda>k. client_id k \<in> set (filter (\<lambda>c. c \<noteq> []) ids) \<and> is_active k \<and> valid_until k > now \<and> \<not> is_revoked k)
       (vpn_keys s)"

text \<open>The dictionary from backend and transport to the client id the probes are to use there.\<close>

definition probe_client_ids_by_target ::
  "probe_config \<Rightarrow> time \<Rightarrow> detailed_route list \<Rightarrow> db \<Rightarrow> uuid \<times> string \<Rightarrow> string option" where
  "probe_client_ids_by_target cfg now rows s = (\<lambda>(b, kind).
     let configured = configured_transports (pc_client_ids cfg);
         expected = (\<lambda>kind. (\<lambda>(_, n, _). row_id n) ` set (filter (\<lambda>(_, _, tp, _). transport_kind_for_profile tp = Some kind) rows))
     in case map_of configured kind of
          None \<Rightarrow> None
        | Some c \<Rightarrow>
            (case find (\<lambda>k. client_id k = c) (rev (list_by_client_ids now (map snd configured) s)) of
               None \<Rightarrow> None
             | Some key \<Rightarrow>
                 if transport_value (key_transport key) = kind \<and> b \<in> expected kind \<and>
                    (\<exists>p \<in> set (list_by_key_id (row_id key) True (Some ds_active) s). backend_node_id p = b)
                 then Some c else None))"

definition list_targets ::
  "probe_config \<Rightarrow> time \<Rightarrow> bool \<Rightarrow> bool \<Rightarrow> string option \<Rightarrow> db \<Rightarrow> probe_target list" where
  "list_targets cfg now include_draining include_disabled rl s =
     (let rows = list_active_detailed None (Some 5000) s;
          ids = probe_client_ids_by_target cfg now rows s;
          direct = List.map_filter (\<lambda>(r, node, tp, _).
            if role node \<in> {''whitelist_entry'', ''entry''} then None
            else if (case rl of None \<Rightarrow> False | Some x \<Rightarrow> \<not> matches_target_role node x) then None
            else build_probe_target cfg r node tp include_disabled include_draining
                   (Option.bind (transport_kind_for_profile tp) (\<lambda>k. ids (row_id node, k)))) rows
      in sort_key (\<lambda>t. (pt_region t, pt_node_name t, case pt_route_name t of None \<Rightarrow> [] | Some n \<Rightarrow> n))
           (direct @ list_node_probe_targets cfg include_draining include_disabled rl rows ids s))"

section \<open>Reports\<close>

definition mesh_path_healthy_for_backend :: "time \<Rightarrow> uuid \<Rightarrow> db \<Rightarrow> bool" where
  "mesh_path_healthy_for_backend now backend s \<longleftrightarrow>
     (case get_latest_mesh_for_backend backend s of
        None \<Rightarrow> False
      | Some m \<Rightarrow> ps_is_reachable m \<and> now - ps_checked_at m \<le> usec MESH_HEALTHY_MAX_AGE_SEC)"

definition mesh_path_healthy_for_route :: "time \<Rightarrow> route \<Rightarrow> db \<Rightarrow> bool" where
  "mesh_path_healthy_for_route now r s \<longleftrightarrow> entry_node_id r \<noteq> None \<and> mesh_path_healthy_for_backend now (route_node_id r) s"

definition route_entry_is_unhealthy :: "route \<Rightarrow> db \<Rightarrow> bool" where
  "route_entry_is_unhealthy r s \<longleftrightarrow>
     (case Option.bind (entry_node_id r) (\<lambda>e. get_by_id e (nodes s)) of
        None \<Rightarrow> False
      | Some e \<Rightarrow> is_draining e \<or> \<not> is_enabled e \<or> \<not> is_active e)"

text \<open>
  \<open>find_active_by_dedup\<close> is called without an argument it requires; the error is caught and logged
  before anything is written.
\<close>

definition emit_route_blocked_alert :: "route \<Rightarrow> time \<Rightarrow> db \<Rightarrow> db" where
  "emit_route_blocked_alert r checked_at s = s"

definition write_route_state :: "time \<Rightarrow> uuid \<Rightarrow> route_state_resolution result \<Rightarrow> db \<Rightarrow> db result" where
  "write_route_state now i st s =
     (case st of
        Inl e \<Rightarrow> Inl e
      | Inr x \<Rightarrow> (case update_route_row i (apply_resolution now x) s of Inl e \<Rightarrow> Inl e | Inr (_, s1) \<Rightarrow> Inr s1))"

definition degraded_state :: "probe_policy \<Rightarrow> route \<Rightarrow> time \<Rightarrow> int \<Rightarrow> route_state_resolution result option" where
  "degraded_state pol r checked_at n =
     (if n \<ge> route_block_after_failures pol then Some (resolve_probe_block r checked_at (route_block_cooldown_hours pol))
      else if n \<ge> route_degraded_after_failures pol
      then if health_status r = degraded then None
           else Some (RouteStateResolution degraded (max 1 (base_weight r div 2)) None None None)
      else if n \<ge> route_suspected_after_failures pol
      then if health_status r = suspected then None
           else Some (RouteStateResolution suspected (max 1 (base_weight r div 3)) None None None)
      else None)"

definition degrade_route_after_probe ::
  "bool \<Rightarrow> time \<Rightarrow> route \<Rightarrow> time \<Rightarrow> db \<Rightarrow> (route_event list \<times> db) result" where
  "degrade_route_after_probe notify now r checked_at s =
     (if health_status r = blocked then Inr ([], s)
      else if mesh_path_healthy_for_route now r s then Inr ([], s)
      else
        let pol = the_probe_policy s;
            n = count_consecutive_route_failures (row_id r) (nat (route_block_after_failures pol + 2)) (Some ''synthetic_vpn'') s
        in case degraded_state pol r checked_at (int n) of
             None \<Rightarrow> Inr ([], s)
           | Some st \<Rightarrow>
               (case write_route_state now (row_id r) st s of
                  Inl e \<Rightarrow> Inl e
                | Inr s1 \<Rightarrow>
                    if (case st of Inr x \<Rightarrow> res_health_status x = blocked | _ \<Rightarrow> False)
                    then Inr (if notify then [RouteBlockedEvent (row_id r) (route_name r) (route_node_id r) n] else [],
                              emit_route_blocked_alert r checked_at s1)
                    else Inr ([], s1)))"

definition recover_route_after_probe ::
  "bool \<Rightarrow> time \<Rightarrow> route \<Rightarrow> time \<Rightarrow> db \<Rightarrow> (route_event list \<times> db) result" where
  "recover_route_after_probe notify now r checked_at s =
     (if health_status r = suspected \<or> health_status r = degraded
      then map_sum id (Pair []) (write_route_state now (row_id r) (healthy_state r) s)
      else if health_status r = blocked
      then if route_entry_is_unhealthy r s then Inr ([], s)
           else (case resolve_probe_recover r checked_at of
                   Inl e \<Rightarrow> Inl e
                 | Inr None \<Rightarrow> Inr ([], s)
                 | Inr (Some st) \<Rightarrow>
                     map_sum id (Pair (if notify then [RouteRecoveredEvent (row_id r) (route_name r)] else []))
                       (write_route_state now (row_id r) (Inr st) s))
      else Inr ([], s))"

definition apply_route_health_policy :: "bool \<Rightarrow> time \<Rightarrow> probe_signal \<Rightarrow> db \<Rightarrow> (route_event list \<times> db) result" where
  "apply_route_health_policy notify now sig s =
     (if \<not> auto_route_health_enabled (the_probe_policy s) \<or> ps_probe_kind sig \<noteq> ''synthetic_vpn'' then Inr ([], s)
      else case Option.bind (ps_route_id sig) (\<lambda>i. get_by_id i (routes s)) of
             None \<Rightarrow> Inr ([], s)
           | Some r \<Rightarrow>
               if \<not> is_active r then Inr ([], s)
               else if ps_is_reachable sig then recover_route_after_probe notify now r (ps_checked_at sig) s
               else degrade_route_after_probe notify now r (ps_checked_at sig) s)"

definition synthetic_placement :: "time \<Rightarrow> string \<Rightarrow> uuid \<Rightarrow> db \<Rightarrow> user_placement option" where
  "synthetic_placement now client node s =
     (case find (\<lambda>k. client_id k = client) (list_by_client_ids now [client] s) of
        None \<Rightarrow> None
      | Some key \<Rightarrow> find (\<lambda>p. backend_node_id p = node) (list_by_key_id (row_id key) True (Some ds_active) s))"

definition maybe_trigger_synthetic_self_heal :: "probe_config \<Rightarrow> time \<Rightarrow> uuid \<Rightarrow> probe_signal \<Rightarrow> db \<Rightarrow> db" where
  "maybe_trigger_synthetic_self_heal cfg now node sig s =
     (case ps_route_id sig of
        None \<Rightarrow> s
      | Some route \<Rightarrow>
          if ps_is_reachable sig \<or> ps_probe_kind sig \<noteq> ''synthetic_vpn'' then s
          else case Option.bind (ps_transport_kind sig) (map_of (configured_transports (pc_client_ids cfg))) of
            None \<Rightarrow> s
          | Some client \<Rightarrow>
              let pol = the_probe_policy s in
              if int (count_consecutive_route_failures route (nat (route_block_after_failures pol + 2)) (Some ''synthetic_vpn'') s)
                 < route_suspected_after_failures pol then s
              else if mesh_path_healthy_for_backend now node s then s
              else case synthetic_placement now client node s of
                None \<Rightarrow> s
              | Some p \<Rightarrow>
                  if last_migration_reason p = Some SYNTHETIC_REPAIR_REASON \<and>
                     now - updated_at p < usec SYNTHETIC_REPAIR_COOLDOWN_SEC then s
                  else let (ids, s1) = set_pending_for_backend node (Some SYNTHETIC_REPAIR_REASON) now s
                       in if ids = [] then s1 else enqueue_for_placement_ids now ids s1)"

definition report_target ::
  "probe_config \<Rightarrow> probe_report_in \<Rightarrow> db \<Rightarrow> (transport_profile option \<times> probe_target option) result" where
  "report_target cfg pl s =
     (case pr_route_id pl of
        None \<Rightarrow> Inr (None, None)
      | Some i \<Rightarrow>
          (case get_active_detailed_by_id i s of
             None \<Rightarrow> Inl (HTTPException 404 ''Route not found'')
           | Some (r, node, tp, _) \<Rightarrow>
               let backend_scope = (route_node_id r = pr_node_id pl);
                   entry_scope = (entry_node_id r = Some (pr_node_id pl))
               in if \<not> (backend_scope \<or> entry_scope) then Inl (conflict ''Route does not belong to node'')
                  else if entry_scope \<and> \<not> backend_scope
                  then if transport_kind_for_profile tp = None then Inl (conflict ''Route is not probeable'')
                       else Inr (Some tp, None)
                  else case build_probe_target cfg r node tp True True None of
                         None \<Rightarrow> Inl (conflict ''Route is not probeable'')
                       | Some t \<Rightarrow> Inr (Some tp, Some t)))"

definition or_else :: "'a option \<Rightarrow> 'a option \<Rightarrow> 'a option" where
  "or_else a b = (case a of None \<Rightarrow> b | Some _ \<Rightarrow> a)"

definition new_signal ::
  "time \<Rightarrow> uuid \<Rightarrow> probe_report_in \<Rightarrow> transport_profile option \<Rightarrow> probe_target option \<Rightarrow> probe_signal" where
  "new_signal now i pl tp t =
     \<lparr>row_id = i, created_at = now, updated_at = now, is_active = True, ps_node_id = pr_node_id pl,
      ps_route_id = pr_route_id pl, ps_transport_profile_id = or_else (pr_transport_profile_id pl) (map_option row_id tp),
      ps_transport_kind = or_else (pr_transport_kind pl) (Option.bind t pt_transport_kind),
      ps_probe_kind = pr_probe_kind pl, ps_target_host = or_else (pr_target_host pl) (map_option pt_target_host t),
      ps_target_port = or_else (pr_target_port pl) (map_option pt_target_port t), ps_error_phase = pr_error_phase pl,
      ps_source = pr_source pl, ps_is_reachable = pr_is_reachable pl, ps_latency_ms = pr_latency_ms pl,
      ps_error = pr_error pl, ps_checked_at = (case pr_checked_at pl of None \<Rightarrow> now | Some t \<Rightarrow> t),
      ps_details = pr_details pl\<rparr>"

text \<open>The fields of \<open>ProbeSignalInternalCreate\<close> that the request may leave open.\<close>

definition signal_valid :: "probe_signal \<Rightarrow> bool" where
  "signal_valid p \<longleftrightarrow>
     (case ps_target_host p of None \<Rightarrow> True | Some h \<Rightarrow> 1 \<le> length h \<and> length h \<le> 255) \<and>
     (case ps_target_port p of None \<Rightarrow> True | Some x \<Rightarrow> 1 \<le> x \<and> x \<le> 65535)"

definition get_previous_signal :: "probe_report_in \<Rightarrow> db \<Rightarrow> probe_signal option" where
  "get_previous_signal pl s =
     (case pr_route_id pl of
        Some i \<Rightarrow> get_latest_for_route i (Some (pr_source pl)) s
      | None \<Rightarrow> get_latest_for_node (pr_node_id pl) (Some (pr_source pl)) s)"

definition report ::
  "probe_config \<Rightarrow> bool \<Rightarrow> time \<Rightarrow> probe_report_in \<Rightarrow> db \<Rightarrow> (probe_signal \<times> route_event list \<times> db) result" where
  "report cfg notify now pl s =
     (case get_by_id (pr_node_id pl) (nodes s) of
        None \<Rightarrow> Inl (HTTPException 404 ''Node not found'')
      | Some node \<Rightarrow>
          (case report_target cfg pl s of
             Inl e \<Rightarrow> Inl e
           | Inr (tp, t) \<Rightarrow>
               let (i, s0) = uuid4 s; row = new_signal now i pl tp t in
               if \<not> signal_valid row then Inl (ValidationError ''ProbeSignalInternalCreate'')
               else let s1 = s0\<lparr>signals := create_row row (signals s0)\<rparr> in
                 if map_option row_id (get_previous_signal pl s1) = Some i
                 then (case apply_route_health_policy notify now row
                              (maybe_trigger_synthetic_self_heal cfg now (row_id node) row s1) of
                         Inl e \<Rightarrow> Inl e
                       | Inr (ev, s2) \<Rightarrow> Inr (row, ev, s2))
                 else Inr (row, [], s1)))"

definition cleanup_old_signals :: "time \<Rightarrow> db \<Rightarrow> nat \<times> db" where
  "cleanup_old_signals now s = delete_signals_older_than (now - days (max 1 (retention_days (the_probe_policy s)))) s"

section \<open>Streaks\<close>

lemma count_leading_streak:
  "n \<le> m \<Longrightarrow> n \<le> count_leading P (take m xs) \<longleftrightarrow> n \<le> length xs \<and> (\<forall>x \<in> set (take n xs). P x)"
proof (induction xs arbitrary: n m)
  case (Cons x xs)
  show ?case
  proof (cases n)
    case (Suc k)
    with Cons.prems obtain l where l: "m = Suc l" "k \<le> l" by (cases m) auto
    with Cons.IH [OF l(2)] Suc show ?thesis by auto
  qed simp
qed auto

definition failing_streak :: "nat \<Rightarrow> uuid \<Rightarrow> db \<Rightarrow> bool" where
  "failing_streak n i s \<longleftrightarrow>
     (let xs = newest_first (filter (\<lambda>p. is_active p \<and> ps_route_id p = Some i \<and> ps_probe_kind p = ''synthetic_vpn'') (signals s))
      in n \<le> length xs \<and> (\<forall>p \<in> set (take n xs). \<not> ps_is_reachable p))"

lemma streak_iff:
  "b \<le> int (count_consecutive_route_failures i (nat (b + 2)) (Some ''synthetic_vpn'') s) \<longleftrightarrow> failing_streak (nat b) i s"
proof -
  let ?xs = "newest_first (filter (\<lambda>p. is_active p \<and> ps_route_id p = Some i \<and> ps_probe_kind p = ''synthetic_vpn'') (signals s))"
  have "nat b \<le> nat (b + 2)" by simp
  from count_leading_streak [OF this, of "\<lambda>p. \<not> ps_is_reachable p" ?xs] show ?thesis
    by (simp add: count_consecutive_route_failures_def failing_streak_def Let_def nat_le_iff eq_commute)
qed

lemma map_sum_Inr: "map_sum id g x = Inr y \<longleftrightarrow> (\<exists>z. x = Inr z \<and> y = g z)"
  by (cases x) auto

section \<open>What a report does to the routes\<close>

definition only_placements_outbox :: "db \<Rightarrow> db \<Rightarrow> bool" where
  "only_placements_outbox s s' \<longleftrightarrow>
     routes s' = routes s \<and> signals s' = signals s \<and> nodes s' = nodes s \<and> the_probe_policy s' = the_probe_policy s"

lemma self_heal_frame: "only_placements_outbox s (maybe_trigger_synthetic_self_heal cfg now node sig s)"
proof -
  have "only_placements_outbox s (enqueue_for_placement_ids now ids (snd (set_pending_for_backend n r t s)))" for ids n r t
    by (simp add: only_placements_outbox_def set_pending_for_backend_def Let_def enqueue_for_placement_ids_eq
        only_outboxD [OF only_outbox_enqueue_many])
  moreover have "only_placements_outbox s (snd (set_pending_for_backend n r t s))" for n r t
    by (simp add: only_placements_outbox_def set_pending_for_backend_def Let_def)
  ultimately show ?thesis
    by (simp add: maybe_trigger_synthetic_self_heal_def Let_def split_def only_placements_outbox_def split: option.split)
qed

lemma self_heal_sys:
  assumes "sys_inv port s"
  shows "sys_inv port (maybe_trigger_synthetic_self_heal cfg now node sig s)"
proof -
  have "placements_inv s" using assms by (simp add: sys_inv_def transport_inv_def)
  then have "sys_inv port (snd (set_pending_for_backend n r t s))" for n r t
    by (intro sys_inv_placements [OF assms set_pending_for_backend_change]) (simp_all add: set_pending_for_backend_def Let_def)
  then show ?thesis
    using assms by (auto simp: maybe_trigger_synthetic_self_heal_def Let_def split_def split: option.split
        intro: sys_inv_enqueue_for_placement_ids)
qed

lemma write_route_state_Inr:
  "write_route_state now i st s = Inr s' \<Longrightarrow> get_by_id i (routes s) = Some r \<Longrightarrow>
   \<exists>x. st = Inr x \<and> s' = s\<lparr>routes := update_by_id i (apply_resolution now x) (routes s)\<rparr> \<and> route_ck (apply_resolution now x r)"
  by (auto simp: write_route_state_def update_route_row_def split: sum.splits if_splits)

text \<open>How the policy moves the route it is about.\<close>

definition driven :: "probe_signal \<Rightarrow> route \<Rightarrow> db \<Rightarrow> bool" where
  "driven sig r s \<longleftrightarrow>
     auto_route_health_enabled (the_probe_policy s) \<and> ps_probe_kind sig = ''synthetic_vpn'' \<and>
     ps_route_id sig = Some (row_id r) \<and> is_active r"

definition cooled :: "probe_signal \<Rightarrow> route \<Rightarrow> bool" where
  "cooled sig r \<longleftrightarrow> (case cooldown_until r of None \<Rightarrow> True | Some c \<Rightarrow> c \<le> ps_checked_at sig)"

definition health_moved :: "time \<Rightarrow> probe_signal \<Rightarrow> db \<Rightarrow> route \<Rightarrow> route \<Rightarrow> bool" where
  "health_moved now sig s r r' \<longleftrightarrow>
     (r' \<noteq> r \<longrightarrow> driven sig r s) \<and>
     (health_status r \<noteq> blocked \<longrightarrow>
        (health_status r' = blocked \<longleftrightarrow>
           driven sig r s \<and> \<not> ps_is_reachable sig \<and> \<not> mesh_path_healthy_for_route now r s \<and>
           failing_streak (nat (route_block_after_failures (the_probe_policy s))) (row_id r) s)) \<and>
     (health_status r = blocked \<longrightarrow>
        (health_status r' \<noteq> blocked \<longleftrightarrow>
           driven sig r s \<and> ps_is_reachable sig \<and> \<not> route_entry_is_unhealthy r s \<and> cooled sig r)) \<and>
     (route_coherent r \<longrightarrow> route_coherent r')"

lemma degrade_moves:
  assumes "degrade_route_after_probe notify now r (ps_checked_at sig) s = Inr (ev, s')" "get_by_id i (routes s) = Some r"
    "driven sig r s" "\<not> ps_is_reachable sig"
  shows "\<exists>f. (\<forall>x. row_id (f x) = row_id x) \<and> s' = s\<lparr>routes := update_by_id i f (routes s)\<rparr> \<and> health_moved now sig s r (f r)"
proof -
  have i: "row_id r = i" using assms(2) by (simp add: get_by_id_Some)
  let ?pol = "the_probe_policy s"
  define n where "n = count_consecutive_route_failures i (nat (route_block_after_failures ?pol + 2)) (Some ''synthetic_vpn'') s"
  have str: "route_block_after_failures ?pol \<le> int n \<longleftrightarrow> failing_streak (nat (route_block_after_failures ?pol)) i s"
    unfolding n_def by (rule streak_iff)
  have same: "s\<lparr>routes := update_by_id i (\<lambda>x. x) (routes s)\<rparr> = s"
    by (simp add: update_by_id_def update_where_def)
  show ?thesis
  proof (cases "health_status r = blocked \<or> mesh_path_healthy_for_route now r s \<or>
      degraded_state ?pol r (ps_checked_at sig) (int n) = None")
    case True
    then have "s' = s" using assms(1) i by (auto simp: degrade_route_after_probe_def Let_def n_def [symmetric] split: if_splits)
    moreover have "health_moved now sig s r r"
      using True assms(4) str i by (auto simp: health_moved_def degraded_state_def split: if_splits)
    ultimately show ?thesis using same by (intro exI [of _ "\<lambda>x. x"]) simp
  next
    case False
    then obtain st where st: "degraded_state ?pol r (ps_checked_at sig) (int n) = Some st" by auto
    then have "write_route_state now i st s = Inr s'"
      using False assms(1) i by (auto simp: degrade_route_after_probe_def Let_def n_def [symmetric] emit_route_blocked_alert_def
          split: if_splits sum.splits)
    from write_route_state_Inr [OF this assms(2)] obtain x where x: "st = Inr x"
      "s' = s\<lparr>routes := update_by_id i (apply_resolution now x) (routes s)\<rparr>" "route_ck (apply_resolution now x r)" by blast
    have "health_moved now sig s r (apply_resolution now x r)"
      using False assms(3,4) str i st x(1,3)
      by (auto simp: health_moved_def degraded_state_def resolve_probe_block_def RouteStateResolution_def route_coherent_def
          split: if_splits)
    with x(2) show ?thesis by (intro exI [of _ "apply_resolution now x"]) simp
  qed
qed

lemma recover_moves:
  assumes "recover_route_after_probe notify now r (ps_checked_at sig) s = Inr (ev, s')" "get_by_id i (routes s) = Some r"
    "driven sig r s" "ps_is_reachable sig"
  shows "\<exists>f. (\<forall>x. row_id (f x) = row_id x) \<and> s' = s\<lparr>routes := update_by_id i f (routes s)\<rparr> \<and> health_moved now sig s r (f r)"
proof -
  have i: "row_id r = i" using assms(2) by (simp add: get_by_id_Some)
  have same: "s\<lparr>routes := update_by_id i (\<lambda>x. x) (routes s)\<rparr> = s"
    by (simp add: update_by_id_def update_where_def)
  show ?thesis
  proof (cases "s' = s \<and> health_moved now sig s r r")
    case True
    with same show ?thesis by (intro exI [of _ "\<lambda>x. x"]) simp
  next
    case False
    have "\<exists>st. write_route_state now i st s = Inr s' \<and>
        ((health_status r = suspected \<or> health_status r = degraded) \<and> st = healthy_state r \<or>
         health_status r = blocked \<and> \<not> route_entry_is_unhealthy r s \<and> (\<exists>x. st = Inr x \<and> resolve_probe_recover r (ps_checked_at sig) = Inr (Some x)))"
      using assms False i
      by (auto simp: recover_route_after_probe_def health_moved_def resolve_probe_recover_def map_sum_Inr cooled_def
          split: if_splits sum.splits option.splits)
    then obtain st where st: "write_route_state now i st s = Inr s'" and why:
      "(health_status r = suspected \<or> health_status r = degraded) \<and> st = healthy_state r \<or>
         health_status r = blocked \<and> \<not> route_entry_is_unhealthy r s \<and> (\<exists>x. st = Inr x \<and> resolve_probe_recover r (ps_checked_at sig) = Inr (Some x))"
      by blast
    from write_route_state_Inr [OF st assms(2)] obtain x where x: "st = Inr x"
      "s' = s\<lparr>routes := update_by_id i (apply_resolution now x) (routes s)\<rparr>" "route_ck (apply_resolution now x r)" by blast
    have "health_moved now sig s r (apply_resolution now x r)"
      using why
    proof
      assume "(health_status r = suspected \<or> health_status r = degraded) \<and> st = healthy_state r"
      then show ?thesis
        using x(1,3) assms(3,4) by (auto simp: health_moved_def healthy_state_def RouteStateResolution_def route_coherent_def split: if_splits)
    next
      assume b: "health_status r = blocked \<and> \<not> route_entry_is_unhealthy r s \<and> (\<exists>x. st = Inr x \<and> resolve_probe_recover r (ps_checked_at sig) = Inr (Some x))"
      then have rec: "resolve_probe_recover r (ps_checked_at sig) = Inr (Some x)" using x(1) by auto
      then have "route_coherent r \<Longrightarrow> route_coherent (apply_resolution now x r)"
        using health_step_coherent [OF health_step.probe_recover] by blast
      moreover have "cooled sig r" "res_health_status x = warming_up"
        using rec by (auto simp: resolve_probe_recover_def cooled_def RouteStateResolution_def split: if_splits option.splits)
      ultimately show ?thesis using b assms(3,4) by (auto simp: health_moved_def)
    qed
    with x(2) show ?thesis by (intro exI [of _ "apply_resolution now x"]) simp
  qed
qed

lemma not_driven_moved: "\<not> driven sig r s \<Longrightarrow> health_moved now sig s r r"
  by (simp add: health_moved_def)

lemma policy_moves:
  assumes "apply_route_health_policy notify now sig s = Inr (ev, s')" "get_by_id i (routes s) = Some r"
  shows "\<exists>r'. get_by_id i (routes s') = Some r' \<and> health_moved now sig s r r'"
    and "\<exists>rs. s' = s\<lparr>routes := rs\<rparr>"
proof -
  have i: "row_id r = i" using assms(2) by (simp add: get_by_id_Some)
  let ?route = "Option.bind (ps_route_id sig) (\<lambda>j. get_by_id j (routes s))"
  have "(\<exists>r'. get_by_id i (routes s') = Some r' \<and> health_moved now sig s r r') \<and> (\<exists>rs. s' = s\<lparr>routes := rs\<rparr>)"
  proof (cases "\<exists>r0. ?route = Some r0 \<and> driven sig r0 s")
    case False
    then have "s' = s"
      using assms(1) by (auto simp: apply_route_health_policy_def driven_def bind_eq_Some_conv split: option.splits if_splits
          dest: get_by_id_Some)
    moreover have "\<not> driven sig r s"
      using False assms(2) i by (auto simp: driven_def bind_eq_Some_conv)
    ultimately show ?thesis using assms(2) not_driven_moved by (auto intro: exI [of _ "routes s"])
  next
    case True
    then obtain r0 where r0: "?route = Some r0" "driven sig r0 s" by blast
    then obtain j where j: "ps_route_id sig = Some j" "get_by_id j (routes s) = Some r0" by (auto simp: bind_eq_Some_conv)
    have run: "(if ps_is_reachable sig then recover_route_after_probe notify now r0 (ps_checked_at sig) s
       else degrade_route_after_probe notify now r0 (ps_checked_at sig) s) = Inr (ev, s')"
      using assms(1) r0 by (auto simp: apply_route_health_policy_def driven_def split: if_splits)
    have "\<exists>f. (\<forall>x. row_id (f x) = row_id x) \<and> s' = s\<lparr>routes := update_by_id j f (routes s)\<rparr> \<and> health_moved now sig s r0 (f r0)"
    proof (cases "ps_is_reachable sig")
      case True
      with run show ?thesis by (intro recover_moves [OF _ j(2) r0(2)]) simp_all
    next
      case False
      with run show ?thesis by (intro degrade_moves [OF _ j(2) r0(2)]) simp_all
    qed
    then obtain f where f: "\<forall>x. row_id (f x) = row_id x" "s' = s\<lparr>routes := update_by_id j f (routes s)\<rparr>"
      "health_moved now sig s r0 (f r0)" by blast
    show ?thesis
    proof (cases "i = j")
      case True
      with f j(2) assms(2) show ?thesis by (auto simp: tbl.get_upd)
    next
      case False
      then have "\<not> driven sig r s" using j(1) i by (auto simp: driven_def)
      with False f assms(2) not_driven_moved show ?thesis by (auto simp: tbl.get_upd)
    qed
  qed
  then show "\<exists>r'. get_by_id i (routes s') = Some r' \<and> health_moved now sig s r r'" "\<exists>rs. s' = s\<lparr>routes := rs\<rparr>" by blast+
qed

lemma health_moved_cong:
  assumes "only_placements_outbox s s'"
  shows "health_moved now sig s' r r' = health_moved now sig s r r'"
proof -
  have mesh: "mesh_path_healthy_for_route now x s' = mesh_path_healthy_for_route now x s" for x
    using assms by (simp add: only_placements_outbox_def mesh_path_healthy_for_route_def mesh_path_healthy_for_backend_def
        get_latest_mesh_for_backend_def)
  have "route_entry_is_unhealthy x s' = route_entry_is_unhealthy x s" for x
    using assms by (simp add: only_placements_outbox_def route_entry_is_unhealthy_def)
  moreover have "failing_streak n x s' = failing_streak n x s" for n x
    using assms by (simp add: only_placements_outbox_def failing_streak_def)
  moreover have "driven sig x s' = driven sig x s" for x
    using assms by (simp add: only_placements_outbox_def driven_def)
  moreover have "the_probe_policy s' = the_probe_policy s" using assms by (simp add: only_placements_outbox_def)
  ultimately show ?thesis by (simp add: health_moved_def mesh)
qed

text \<open>The parts of an accepted report.\<close>

lemma report_Inr:
  assumes "report cfg notify now pl s = Inr (row, ev, s')"
  defines "s1 \<equiv> s\<lparr>uuid_supply := Suc (uuid_supply s), signals := create_row row (signals s)\<rparr>"
  obtains tp t where "row = new_signal now (uuid_supply s) pl tp t" "report_target cfg pl s = Inr (tp, t)"
    "map_option row_id (get_previous_signal pl s1) \<noteq> Some (row_id row)" "s' = s1" "ev = []"
  | tp t where "row = new_signal now (uuid_supply s) pl tp t" "report_target cfg pl s = Inr (tp, t)"
    "map_option row_id (get_previous_signal pl s1) = Some (row_id row)"
    "apply_route_health_policy notify now row (maybe_trigger_synthetic_self_heal cfg now (pr_node_id pl) row s1) = Inr (ev, s')"
proof -
  obtain node where node: "get_by_id (pr_node_id pl) (nodes s) = Some node"
    using assms(1) by (auto simp: report_def split: option.splits)
  then have id: "row_id node = pr_node_id pl" by (simp add: get_by_id_Some)
  obtain tp t where t: "report_target cfg pl s = Inr (tp, t)"
    using assms(1) node by (auto simp: report_def split: sum.splits)
  have row: "row = new_signal now (uuid_supply s) pl tp t" "row_id row = uuid_supply s"
    using assms(1) node t by (auto simp: report_def uuid4_def Let_def new_signal_def split: if_splits sum.splits)
  show ?thesis
  proof (cases "map_option row_id (get_previous_signal pl s1) = Some (row_id row)")
    case True
    then have "apply_route_health_policy notify now row (maybe_trigger_synthetic_self_heal cfg now (pr_node_id pl) row s1) = Inr (ev, s')"
      using assms(1) node t row id unfolding s1_def by (auto simp: report_def uuid4_def Let_def split: if_splits sum.splits)
    with True row(1) t that(2) show ?thesis by blast
  next
    case False
    then have "s' = s1 \<and> ev = []"
      using assms(1) node t row id unfolding s1_def by (auto simp: report_def uuid4_def Let_def split: if_splits sum.splits)
    with False row(1) t that(1) show ?thesis by blast
  qed
qed

lemma report_sys [sys_ok]:
  assumes "report cfg notify now pl s = Inr (row, ev, s')" "sys_inv port s"
  shows "sys_inv port s'"
proof -
  let ?s1 = "s\<lparr>uuid_supply := Suc (uuid_supply s), signals := create_row row (signals s)\<rparr>"
  have inv: "sys_inv port ?s1" by (rule sys_inv_elsewhere [OF assms(2)]) simp_all
  have "sys_inv port s'" if "apply_route_health_policy notify now row s2 = Inr (ev, s')" "sys_inv port s2" for s2
  proof -
    have "\<exists>rs. s' = s2\<lparr>routes := rs\<rparr>"
    proof (cases "Option.bind (ps_route_id row) (\<lambda>i. get_by_id i (routes s2))")
      case None
      then have "s' = s2" using that(1) by (auto simp: apply_route_health_policy_def split: if_splits)
      then show ?thesis by (auto intro: exI [of _ "routes s2"])
    next
      case (Some r)
      then obtain i where "get_by_id i (routes s2) = Some r" by (auto simp: bind_eq_Some_conv)
      with policy_moves(2) [OF that(1)] show ?thesis by blast
    qed
    then show ?thesis by (elim exE) (rule sys_inv_elsewhere [OF that(2)]; simp)
  qed
  with report_Inr [OF assms(1)] inv self_heal_sys [OF inv] show ?thesis by metis
qed

text \<open>C12: A probe report that is accepted is stored, and it moves the health of a route only if it is
  the latest of its source, comes from a synthetic probe of that active route, and the policy is
  on.  A route gets blocked exactly when the report failed, the path through the entries is not
  known to be healthy, and the latest synthetic signals of the route, as many as the policy asks
  for, all failed.  A blocked route is released exactly by a successful report after its cooldown
  while its entry is in service.  A coherent route stays coherent.\<close>

theorem probe_report_drives_health:
  assumes "report cfg notify now pl s = Inr (row, ev, s')" "get_by_id i (routes s) = Some r"
  shows "signals s' = signals s @ [row] \<and>
    (\<exists>r'. get_by_id i (routes s') = Some r' \<and>
       (if map_option row_id (get_previous_signal pl s') = Some (row_id row)
        then health_moved now row (s\<lparr>signals := signals s'\<rparr>) r r'
        else r' = r))"
proof -
  let ?s1 = "s\<lparr>uuid_supply := Suc (uuid_supply s), signals := create_row row (signals s)\<rparr>"
  have prev: "get_previous_signal pl x = get_previous_signal pl ?s1" if "signals x = signals ?s1" for x
    using that by (simp add: get_previous_signal_def get_latest_for_route_def get_latest_for_node_def node_signals_def
        split: option.split)
  from assms(1) show ?thesis
  proof (cases rule: report_Inr)
    case (1 tp t)
    have sig: "signals s' = signals s @ [row]" using 1(4) by (simp add: create_row_def)
    have "map_option row_id (get_previous_signal pl s') \<noteq> Some (row_id row)" using 1(3,4) by metis
    moreover have "get_by_id i (routes s') = Some r" using 1(4) assms(2) by simp
    ultimately show ?thesis using sig by metis
  next
    case (2 tp t)
    let ?s2 = "maybe_trigger_synthetic_self_heal cfg now (pr_node_id pl) row ?s1"
    have f: "only_placements_outbox ?s1 ?s2" by (rule self_heal_frame)
    then have r: "get_by_id i (routes ?s2) = Some r" using assms(2) by (simp add: only_placements_outbox_def)
    obtain r' where r': "get_by_id i (routes s') = Some r'" "health_moved now row ?s2 r r'"
      using policy_moves(1) [OF 2(4) r] by blast
    obtain rs where rs: "s' = ?s2\<lparr>routes := rs\<rparr>" using policy_moves(2) [OF 2(4) r] by blast
    have sig: "signals s' = signals ?s1" using rs f by (simp add: only_placements_outbox_def)
    have "only_placements_outbox (s\<lparr>signals := signals s'\<rparr>) ?s2"
      using f sig by (simp add: only_placements_outbox_def)
    then have "health_moved now row (s\<lparr>signals := signals s'\<rparr>) r r'" using health_moved_cong r'(2) by blast
    with 2(3) prev [OF sig] sig r'(1) show ?thesis by (simp add: create_row_def)
  qed
qed

definition probed_db :: db where
  "probed_db = empty_db\<lparr>nodes := [(sample_node 2 ''backend'')\<lparr>reality_ip := Some ''10.0.0.9''\<rparr>],
     profiles := [sample_profile], routes := [sample_route 50],
     the_probe_policy := default_probe_policy\<lparr>auto_route_health_enabled := True, route_block_after_failures := 1\<rparr>\<rparr>"

definition probe_cfg :: probe_config where
  "probe_cfg = \<lparr>pc_target_port = 443, pc_edge_public_domain = [],
     pc_client_ids = \<lparr>sci_reality = None, sci_ws = None, sci_xhttp = None\<rparr>\<rparr>"

definition failed_report :: probe_report_in where
  "failed_report =
     \<lparr>pr_node_id = 2, pr_route_id = Some 1, pr_transport_profile_id = None, pr_transport_kind = None,
      pr_probe_kind = ''synthetic_vpn'', pr_target_host = None, pr_target_port = None, pr_error_phase = Some ''tcp'',
      pr_source = ''eu'', pr_is_reachable = False, pr_latency_ms = None, pr_error = None, pr_checked_at = None,
      pr_details = []\<rparr>"

lemma failed_report_sel [simp]:
  "pr_node_id failed_report = 2" "pr_route_id failed_report = Some 1" "pr_source failed_report = ''eu''"
  by (simp_all add: failed_report_def)

lemma probed_db_sel:
  "get_by_id 2 (nodes probed_db) = Some ((sample_node 2 ''backend'')\<lparr>reality_ip := Some ''10.0.0.9''\<rparr>)"
  "get_by_id 1 (routes probed_db) = Some (sample_route 50)" "uuid_supply probed_db = 1000" "signals probed_db = []"
  "routes probed_db = [sample_route 50]"
  "auto_route_health_enabled (the_probe_policy probed_db)" "route_block_after_failures (the_probe_policy probed_db) = 1"
  by (simp_all add: probed_db_def get_by_id_def sample_node_def)

lemma failed_report_target: "\<exists>t. report_target probe_cfg failed_report probed_db = Inr (Some sample_profile, Some t) \<and>
    pt_target_host t = ''10.0.0.9'' \<and> pt_target_port t = 443"
proof -
  have "get_active_detailed_by_id 1 probed_db = Some (sample_route 50,
      (sample_node 2 ''backend'')\<lparr>reality_ip := Some ''10.0.0.9''\<rparr>, sample_profile, None)"
    by (simp add: get_active_detailed_by_id_def probed_db_def get_by_id_def join_route_def node_of_def profile_of_def
        sample_route_def sample_node_def sample_profile_def agent_state_of_def get_one_by_def)
  moreover have "route_node_id (sample_route 50) = 2" "tp_security sample_profile = ''reality''"
    "tp_network sample_profile = ''tcp''" "tp_port sample_profile = 443" "truthy (reality_server_name sample_profile)"
    "truthy (reality_public_key sample_profile)" "truthy (reality_short_id sample_profile)"
    by (simp_all add: sample_route_def sample_profile_def)
  ultimately show ?thesis by (simp add: report_target_def build_probe_target_def bare_target_def)
qed

lemma failed_report_runs:
  "\<exists>row ev s'. report probe_cfg False 5 failed_report probed_db = Inr (row, ev, s') \<and>
     ps_probe_kind row = ''synthetic_vpn'' \<and> ps_route_id row = Some 1 \<and> \<not> ps_is_reachable row \<and> is_active row \<and> ps_source row = ''eu''"
proof -
  obtain t where t: "report_target probe_cfg failed_report probed_db = Inr (Some sample_profile, Some t)"
    "pt_target_host t = ''10.0.0.9''" "pt_target_port t = 443" using failed_report_target by blast
  define row where "row = new_signal 5 1000 failed_report (Some sample_profile) (Some t)"
  have row: "ps_probe_kind row = ''synthetic_vpn''" "ps_route_id row = Some 1" "\<not> ps_is_reachable row" "is_active row"
    "ps_source row = ''eu''" "row_id row = 1000" "signal_valid row"
    by (simp_all add: row_def new_signal_def failed_report_def signal_valid_def or_else_def t(2,3))
  let ?s1 = "probed_db\<lparr>uuid_supply := 1001, signals := [row]\<rparr>"
  have prev: "get_previous_signal failed_report ?s1 = Some row"
    by (simp add: get_previous_signal_def get_latest_for_route_def row newest_first_def first_row_def from_source_def)
  have heal: "maybe_trigger_synthetic_self_heal probe_cfg 5 2 row ?s1 = ?s1"
    by (simp add: maybe_trigger_synthetic_self_heal_def configured_transports_def probe_cfg_def List.map_filter_simps
        split: option.split bind_split)
  have "count_consecutive_route_failures 1 3 (Some ''synthetic_vpn'') ?s1 = 1"
    by (simp add: count_consecutive_route_failures_def row newest_first_def)
  then have "\<exists>ev s'. degrade_route_after_probe False 5 (sample_route 50) (ps_checked_at row) ?s1 = Inr (ev, s')"
    by (simp add: degrade_route_after_probe_def mesh_path_healthy_for_route_def probed_db_sel degraded_state_def
        resolve_probe_block_def RouteStateResolution_def write_route_state_def update_route_row_def get_by_id_def
        route_ck_def route_name_taken_def apply_resolution_def sample_route_def Let_def)
  then obtain ev s' where "degrade_route_after_probe False 5 (sample_route 50) (ps_checked_at row) ?s1 = Inr (ev, s')" by blast
  then have "apply_route_health_policy False 5 row ?s1 = Inr (ev, s')"
    by (simp add: apply_route_health_policy_def row probed_db_sel get_by_id_def)
  with t(1) prev heal row have "report probe_cfg False 5 failed_report probed_db = Inr (row, ev, s')"
    by (simp add: report_def probed_db_sel uuid4_def row_def [symmetric] create_row_def Let_def sample_node_def)
  with row show ?thesis by blast
qed

theorem probe_report_drives_health_witness:
  "\<exists>row ev s' r'. report probe_cfg False 5 failed_report probed_db = Inr (row, ev, s') \<and>
     get_by_id 1 (routes s') = Some r' \<and> health_status r' = blocked"
proof -
  obtain row ev s' where run: "report probe_cfg False 5 failed_report probed_db = Inr (row, ev, s')"
    and row: "ps_probe_kind row = ''synthetic_vpn''" "ps_route_id row = Some 1" "\<not> ps_is_reachable row" "is_active row"
      "ps_source row = ''eu''"
    using failed_report_runs by blast
  note h = probe_report_drives_health [OF run probed_db_sel(2)]
  then have sig: "signals s' = [row]" by (simp add: probed_db_sel)
  then have "get_previous_signal failed_report s' = Some row"
    by (simp add: get_previous_signal_def get_latest_for_route_def row newest_first_def first_row_def from_source_def)
  with h obtain r' where r': "get_by_id 1 (routes s') = Some r'"
    "health_moved 5 row (probed_db\<lparr>signals := signals s'\<rparr>) (sample_route 50) r'" by auto
  have "driven row (sample_route 50) (probed_db\<lparr>signals := signals s'\<rparr>)" by (simp add: driven_def row probed_db_sel)
  moreover have "failing_streak 1 1 (probed_db\<lparr>signals := signals s'\<rparr>)"
    by (simp add: failing_streak_def sig row newest_first_def)
  moreover have "\<not> mesh_path_healthy_for_route 5 (sample_route 50) (probed_db\<lparr>signals := signals s'\<rparr>)"
    by (simp add: mesh_path_healthy_for_route_def sample_route_def)
  ultimately have "health_status r' = blocked" using r'(2) row(3) by (simp add: health_moved_def probed_db_sel)
  with run r'(1) show ?thesis by blast
qed

section \<open>Credentials of the targets\<close>

text \<open>A client id is usable for a transport on a backend: its key is valid there and placed there.\<close>

definition usable_client :: "probe_config \<Rightarrow> time \<Rightarrow> string \<Rightarrow> string \<Rightarrow> uuid \<Rightarrow> db \<Rightarrow> bool" where
  "usable_client cfg now c kind b s \<longleftrightarrow>
     map_of (configured_transports (pc_client_ids cfg)) kind = Some c \<and>
     (\<exists>k \<in> set (vpn_keys s). client_id k = c \<and> is_active k \<and> valid_until k > now \<and> \<not> is_revoked k \<and>
        transport_value (key_transport k) = kind \<and>
        (\<exists>p \<in> set (placements s). key_id p = row_id k \<and> is_active p \<and> desired_state p = ds_active \<and> backend_node_id p = b))"

lemma client_ids_usable:
  assumes "probe_client_ids_by_target cfg now rows s (b, kind) = Some c"
  shows "usable_client cfg now c kind b s"
proof -
  let ?keys = "list_by_client_ids now (map snd (configured_transports (pc_client_ids cfg))) s"
  obtain key where c: "map_of (configured_transports (pc_client_ids cfg)) kind = Some c"
    and key: "find (\<lambda>k. client_id k = c) (rev ?keys) = Some key" "transport_value (key_transport key) = kind"
    and p: "\<exists>p \<in> set (list_by_key_id (row_id key) True (Some ds_active) s). backend_node_id p = b"
    using assms by (auto simp: probe_client_ids_by_target_def Let_def split: option.splits if_splits)
  have "key \<in> set ?keys" "client_id key = c" using find_Some_mem [OF key(1)] by simp_all
  then have k: "key \<in> set (vpn_keys s)" "client_id key = c" "is_active key" "valid_until key > now" "\<not> is_revoked key"
    by (simp_all add: list_by_client_ids_def)
  have "\<exists>p \<in> set (placements s). key_id p = row_id key \<and> is_active p \<and> desired_state p = ds_active \<and> backend_node_id p = b"
    using p by (auto simp: list_by_key_id_def)
  with k key(2) c show ?thesis unfolding usable_client_def by blast
qed

lemma list_active_detailed_mem:
  "(r, n, tp, st) \<in> set (list_active_detailed None k s) \<Longrightarrow>
   r \<in> set (routes s) \<and> is_active r \<and> node_of s (route_node_id r) = Some n \<and> profile_of s (transport_profile_id r) = Some tp"
  by (auto simp: list_active_detailed_def limit_rows_def List.map_filter_def join_route_def split: option.splits dest!: in_set_takeD)

lemma entry_targets_from:
  assumes "t \<in> set (entry_targets_loop cfg entry incl ids seen rows)" "pt_probe_client_id t = Some c"
  shows "\<exists>r backend tp st kind. (r, backend, tp, st) \<in> set rows \<and> pt_route_id t = Some (row_id r) \<and> pt_node_id t = row_id entry \<and>
    transport_kind_for_profile tp = Some kind \<and> pt_transport_kind t = Some kind \<and> ids (row_id backend, kind) = Some c \<and>
    is_active backend \<and> is_enabled backend"
  using assms
proof (induction rows arbitrary: seen)
  case (Cons row rows)
  obtain r backend tp st where row: "row = (r, backend, tp, st)" by (cases row)
  show ?case
  proof (cases "synthetic_kind incl ids seen backend tp")
    case None
    with Cons row show ?thesis by fastforce
  next
    case (Some kind)
    then have k: "transport_kind_for_profile tp = Some kind" "truthy (ids (row_id backend, kind))"
      "is_active backend" "is_enabled backend"
      by (auto simp: synthetic_kind_def split: option.splits if_splits)
    then obtain x where x: "ids (row_id backend, kind) = Some x" by (cases "ids (row_id backend, kind)") auto
    show ?thesis
    proof (cases "t = pool_target cfg entry r backend tp kind x")
      case True
      then have "pt_route_id t = Some (row_id r)" "pt_node_id t = row_id entry" "pt_transport_kind t = Some kind"
        "pt_probe_client_id t = Some x"
        by (simp_all add: pool_target_def Let_def bare_target_def)
      with Cons.prems(2) k x row show ?thesis by auto
    next
      case False
      then have "t \<in> set (entry_targets_loop cfg entry incl ids ((row_id backend, kind) # seen) rows)"
        using Cons.prems(1) row Some x by simp
      from Cons.IH [OF this Cons.prems(2)] row show ?thesis by (metis list.set_intros(2))
    qed
  qed
qed simp

lemma build_probe_target_from:
  assumes "build_probe_target cfg r node tp x y client = Some t"
  shows "pt_route_id t = Some (row_id r) \<and> pt_node_id t = row_id node \<and> pt_probe_client_id t = client \<and>
    pt_transport_kind t = transport_kind_for_profile tp"
  using assms by (auto simp: build_probe_target_def transport_kind_for_profile_def bare_target_def split: if_splits)

lemma node_targets_from:
  assumes "t \<in> set (list_node_probe_targets cfg incl incx rl rows ids s)" "pt_probe_client_id t = Some c"
  shows "\<exists>r backend tp st kind. (r, backend, tp, st) \<in> set rows \<and> pt_route_id t = Some (row_id r) \<and>
    entry_node_id r = Some (pt_node_id t) \<and> pt_transport_kind t = Some kind \<and> ids (row_id backend, kind) = Some c"
proof -
  have "pt_probe_client_id x = None" if "build_node_probe_target cfg node incx incl = Some x" for x node
    using that by (auto simp: build_node_probe_target_def bare_target_def split: if_splits)
  with assms obtain node where "t \<in> set (build_entry_synthetic_targets cfg node
      (filter (\<lambda>(r, _). entry_node_id r = Some (row_id node)) rows) ids incx incl)"
    by (auto simp: list_node_probe_targets_def split: if_splits option.splits)
  then have "t \<in> set (entry_targets_loop cfg node incl ids [] (filter (\<lambda>(r, _). entry_node_id r = Some (row_id node)) rows))"
    by (auto simp: build_entry_synthetic_targets_def split: if_splits)
  from entry_targets_from [OF this assms(2)] show ?thesis by clarsimp blast
qed

text \<open>C13: The probes get credentials only where they work: a listed target that carries a client id
  belongs to an active route, is sent to the backend of that route or to its entry, and the client
  id is the one configured for the transport, of a key that is active, not revoked, not expired and
  of that transport, with an active placement on the backend.\<close>

theorem probe_targets_usable:
  assumes "t \<in> set (list_targets cfg now incl incx rl s)" "pt_probe_client_id t = Some c"
  shows "\<exists>r kind b. r \<in> set (routes s) \<and> is_active r \<and> pt_route_id t = Some (row_id r) \<and> pt_transport_kind t = Some kind \<and>
    node_of s (route_node_id r) = Some b \<and> (pt_node_id t = row_id b \<or> entry_node_id r = Some (pt_node_id t)) \<and>
    usable_client cfg now c kind (row_id b) s"
proof -
  let ?rows = "list_active_detailed None (Some 5000) s"
  let ?ids = "probe_client_ids_by_target cfg now ?rows s"
  have "(\<exists>r n tp st x y. (r, n, tp, st) \<in> set ?rows \<and>
      build_probe_target cfg r n tp x y (Option.bind (transport_kind_for_profile tp) (\<lambda>k. ?ids (row_id n, k))) = Some t) \<or>
    t \<in> set (list_node_probe_targets cfg incl incx rl ?rows ?ids s)"
    using assms(1) by (fastforce simp: list_targets_def Let_def List.map_filter_def split: if_splits)
  then show ?thesis
  proof (elim disjE exE conjE)
    fix r n tp st x y
    assume h: "(r, n, tp, st) \<in> set ?rows"
      "build_probe_target cfg r n tp x y (Option.bind (transport_kind_for_profile tp) (\<lambda>k. ?ids (row_id n, k))) = Some t"
    note f = build_probe_target_from [OF h(2)]
    then obtain kind where "transport_kind_for_profile tp = Some kind" "?ids (row_id n, kind) = Some c"
      using assms(2) by (cases "transport_kind_for_profile tp") simp_all
    with f list_active_detailed_mem [OF h(1)] client_ids_usable show ?thesis by metis
  next
    assume "t \<in> set (list_node_probe_targets cfg incl incx rl ?rows ?ids s)"
    from node_targets_from [OF this assms(2)] obtain r b tp st kind where
      h: "(r, b, tp, st) \<in> set ?rows" "pt_route_id t = Some (row_id r)" "entry_node_id r = Some (pt_node_id t)"
        "pt_transport_kind t = Some kind" "?ids (row_id b, kind) = Some c" by blast
    with list_active_detailed_mem [OF h(1)] client_ids_usable [OF h(5)] show ?thesis by blast
  qed
qed

definition target_db :: db where
  "target_db = probed_db\<lparr>vpn_keys := [sample_key 7], placements := [sample_placement 20 7 2]\<rparr>"

definition target_cfg :: probe_config where
  "target_cfg = probe_cfg\<lparr>pc_client_ids := \<lparr>sci_reality = Some ''c'', sci_ws = None, sci_xhttp = None\<rparr>\<rparr>"

lemma target_listed: "\<exists>t \<in> set (list_targets target_cfg 5 True False (Some ''backend'') target_db). pt_probe_client_id t = Some ''c''"
proof -
  let ?n = "(sample_node 2 ''backend'')\<lparr>reality_ip := Some ''10.0.0.9''\<rparr>"
  have rows: "list_active_detailed None (Some 5000) target_db = [(sample_route 50, ?n, sample_profile, None)]"
    by (simp add: list_active_detailed_def limit_rows_def target_db_def probed_db_def List.map_filter_simps join_route_def node_of_def
        profile_of_def get_by_id_def sample_node_def sample_profile_def sample_route_def agent_state_of_def get_one_by_def)
  have key: "key_transport (sample_key 7) = vt_reality" "client_id (sample_key 7) = ''c''" "is_active (sample_key 7)"
    "valid_until (sample_key 7) > 5" "\<not> is_revoked (sample_key 7)" "row_id (sample_key 7) = 7"
    by (simp_all add: sample_key_def)
  have keys: "list_by_client_ids 5 [''c''] target_db = [sample_key 7]"
    by (simp add: list_by_client_ids_def target_db_def key)
  have pl: "\<exists>p \<in> set (list_by_key_id 7 True (Some ds_active) target_db). backend_node_id p = 2"
    by (simp add: list_by_key_id_def target_db_def sample_placement_def new_placement_def)
  have prof: "transport_kind_for_profile sample_profile = Some ''reality''" "tp_security sample_profile = ''reality''"
    "tp_network sample_profile = ''tcp''" "truthy (reality_server_name sample_profile)"
    "truthy (reality_public_key sample_profile)" "truthy (reality_short_id sample_profile)"
    by (simp_all add: transport_kind_for_profile_def sample_profile_def)
  have ids: "probe_client_ids_by_target target_cfg 5 [(sample_route 50, ?n, sample_profile, None)] target_db (2, ''reality'') = Some ''c''"
    using pl by (simp add: probe_client_ids_by_target_def configured_transports_def target_cfg_def List.map_filter_simps keys key
        prof transport_value_def sample_node_def)
  have "row_id ?n = 2" "role ?n = ''backend''" "is_enabled ?n" "truthy (reality_ip ?n)" by (simp_all add: sample_node_def)
  then have "\<exists>t. build_probe_target target_cfg (sample_route 50) ?n sample_profile False True (Some ''c'') = Some t"
    by (simp add: build_probe_target_def prof del: vpn_node.simps base.simps)
  then obtain t where t: "build_probe_target target_cfg (sample_route 50) ?n sample_profile False True (Some ''c'') = Some t" by blast
  with build_probe_target_from [OF t] \<open>row_id ?n = 2\<close> \<open>role ?n = ''backend''\<close> ids prof(1) show ?thesis
    by (auto simp: list_targets_def Let_def rows List.map_filter_simps matches_target_role_def set_insort_key intro!: bexI [of _ t])
qed

theorem probe_targets_usable_witness:
  "\<exists>t \<in> set (list_targets target_cfg 5 True False (Some ''backend'') target_db). \<exists>kind b.
     pt_transport_kind t = Some kind \<and> usable_client target_cfg 5 ''c'' kind b target_db"
proof -
  obtain t where t: "t \<in> set (list_targets target_cfg 5 True False (Some ''backend'') target_db)"
    "pt_probe_client_id t = Some ''c''" using target_listed by blast
  from probe_targets_usable [OF this] t(1) show ?thesis by blast
qed

text \<open>For a route of weight zero the degraded weight exceeds the base weight: the report fails and is not stored.\<close>

lemma zero_weight_degrade_fails:
  assumes "get_by_id i (routes s) = Some r" "base_weight r = 0" "health_status r \<noteq> degraded"
    "route_degraded_after_failures pol \<le> n" "n < route_block_after_failures pol"
  shows "\<exists>st. degraded_state pol r t n = Some st \<and> write_route_state now i st s = Inl (IntegrityError ''ck_route'')"
  using assms by (simp add: degraded_state_def RouteStateResolution_def write_route_state_def update_route_row_def route_ck_def
      apply_resolution_def)

end
