(* ===== verification/Entry_Drain.thy ===== *)
theory Entry_Drain
  imports Auto_Heal
begin

text \<open>
  \<open>services/entry/drain_service.py\<close> and its reconciler: an entry whose agent reports trouble, or
  which the probes cannot reach, is drained and its routes are blocked; when it has been healthy for
  long enough it is put back and its routes warm up.

  As in the other loops the objects a query returned follow the updates of their rows, so the loop
  reads the current row.  The ids of the backends of an entry form a Python set; they are taken in
  the order of the assignments.
\<close>

section \<open>Configuration and result\<close>

record entry_drain_config =
  ed_port :: int
  ed_probe_failures :: int
  ed_max_nodes :: int
  ed_auto_undrain :: bool
  ed_healthy_ticks :: int

definition entry_drain_config_of :: "int \<Rightarrow> node_policy \<Rightarrow> entry_drain_config" where
  "entry_drain_config_of port pol =
     \<lparr>ed_port = port, ed_probe_failures = max 1 (entry_auto_drain_probe_failures pol),
      ed_max_nodes = max 1 (entry_auto_drain_max_nodes pol), ed_auto_undrain = entry_auto_undrain_enabled pol,
      ed_healthy_ticks = max 1 (max 1 (entry_auto_undrain_healthy_ticks pol))\<rparr>"

record entry_drain_out =
  eo_processed :: nat
  eo_drained :: nat
  eo_routes_blocked :: nat
  eo_snapshots :: nat
  eo_skipped :: nat
  eo_undrained :: nat
  eo_routes_unblocked :: nat

section \<open>Which entries, and whether they are healthy\<close>

definition list_entry_candidates :: "db \<Rightarrow> vpn_node list" where
  "list_entry_candidates s =
     sort_key node_name (filter (\<lambda>n. is_active n \<and> is_enabled n \<and> \<not> is_virtual n \<and> role n \<in> set ENTRY_ROLES) (nodes s))"

definition unhealthy_reason :: "entry_drain_config \<Rightarrow> uuid \<Rightarrow> db \<Rightarrow> string option" where
  "unhealthy_reason cfg i s =
     (if (case agent_state_of s i of None \<Rightarrow> False | Some a \<Rightarrow> \<not> is_healthy a) then Some ''agent_unhealthy''
      else if ed_probe_failures cfg > 0 \<and>
              int (count_consecutive_node_failures i (nat (max (ed_probe_failures cfg * 3) 10)) s) \<ge> ed_probe_failures cfg
      then Some ''probe_failures'' else None)"

section \<open>Draining and restoring\<close>

definition DRAIN_REASON_ENTRY_AUTO_DRAIN :: string where
  "DRAIN_REASON_ENTRY_AUTO_DRAIN = ''entry_auto_drain''"

definition mark_drain_meta :: "time \<Rightarrow> node_agent_state option \<Rightarrow> string option \<Rightarrow> time option \<Rightarrow> db \<Rightarrow> db" where
  "mark_drain_meta now st reason since s =
     (case st of
        None \<Rightarrow> s
      | Some a \<Rightarrow>
          let m = (case reason of
                     None \<Rightarrow> (stored_meta a)\<lparr>drain_reason := None, drained_at := None\<rparr>
                   | Some r \<Rightarrow> (stored_meta a)\<lparr>drain_reason := Some r,
                       drained_at := (case since of None \<Rightarrow> drained_at (stored_meta a) | Some t \<Rightarrow> Some t)\<rparr>)
          in s\<lparr>agent_states := update_by_id (row_id a)
                  (\<lambda>x. x\<lparr>details := (details a)\<lparr>d_heartbeat := Some m\<rparr>, updated_at := now\<rparr>) (agent_states s)\<rparr>)"

definition set_draining :: "time \<Rightarrow> uuid \<Rightarrow> bool \<Rightarrow> db \<Rightarrow> db" where
  "set_draining now i b s =
     s\<lparr>nodes := update_by_id i (\<lambda>x. x\<lparr>is_draining := b, updated_at := now\<rparr>) (nodes s)\<rparr>"

definition drain_entry :: "time \<Rightarrow> vpn_node \<Rightarrow> db \<Rightarrow> bool \<times> db" where
  "drain_entry now n s =
     (if is_draining n then (False, s)
      else (True, mark_drain_meta now (agent_state_of s (row_id n)) (Some DRAIN_REASON_ENTRY_AUTO_DRAIN) (Some now)
                    (set_draining now (row_id n) True s)))"

definition may_undrain :: "entry_drain_config \<Rightarrow> node_agent_state option \<Rightarrow> bool" where
  "may_undrain cfg st =
     (case st of
        None \<Rightarrow> False
      | Some a \<Rightarrow> drain_reason (stored_meta a) = Some DRAIN_REASON_ENTRY_AUTO_DRAIN \<and>
                  \<not> consecutive_healthy (stored_meta a) < ed_healthy_ticks cfg)"

definition try_undrain_entry :: "entry_drain_config \<Rightarrow> time \<Rightarrow> vpn_node \<Rightarrow> db \<Rightarrow> bool \<times> db" where
  "try_undrain_entry cfg now n s =
     (if \<not> may_undrain cfg (agent_state_of s (row_id n)) then (False, s)
      else (True, mark_drain_meta now (agent_state_of s (row_id n)) None None (set_draining now (row_id n) False s)))"

section \<open>Routes\<close>

definition routes_through :: "uuid \<Rightarrow> (RouteHealthStatus \<Rightarrow> bool) \<Rightarrow> db \<Rightarrow> route list" where
  "routes_through i P s = filter (\<lambda>r. entry_node_id r = Some i \<and> is_active r \<and> P (health_status r)) (routes s)"

fun update_routes :: "(route \<Rightarrow> route) \<Rightarrow> uuid list \<Rightarrow> db \<Rightarrow> db result" where
  "update_routes f [] s = Inr s"
| "update_routes f (i # is) s =
     (case update_route_row i f s of Inl e \<Rightarrow> Inl e | Inr (_, s1) \<Rightarrow> update_routes f is s1)"

definition unblocked :: "time \<Rightarrow> route \<Rightarrow> route" where
  "unblocked now r =
     r\<lparr>health_status := warming_up, effective_weight := max 1 (base_weight r div 2), warmup_stage := Some 1,
       warmup_started_at := Some now, updated_at := now\<rparr>"

definition blocked_row :: "time \<Rightarrow> route \<Rightarrow> route" where
  "blocked_row now r = r\<lparr>health_status := blocked, effective_weight := 0, updated_at := now\<rparr>"

definition unblock_routes_for_entry :: "time \<Rightarrow> uuid \<Rightarrow> db \<Rightarrow> (nat \<times> db) result" where
  "unblock_routes_for_entry now i s =
     (let rs = routes_through i (\<lambda>h. h = blocked) s in
      case update_routes (unblocked now) (map row_id rs) s of Inl e \<Rightarrow> Inl e | Inr s1 \<Rightarrow> Inr (length rs, s1))"

definition block_routes_for_entry :: "time \<Rightarrow> uuid \<Rightarrow> db \<Rightarrow> (nat \<times> db) result" where
  "block_routes_for_entry now i s =
     (let rs = routes_through i (\<lambda>h. h \<noteq> blocked) s in
      case update_routes (blocked_row now) (map row_id rs) s of Inl e \<Rightarrow> Inl e | Inr s1 \<Rightarrow> Inr (length rs, s1))"

section \<open>Announcements\<close>

text \<open>
  The announcement for a backend may fail for one of its entries; the error is logged, and what was
  enqueued before stays in the session.
\<close>

fun snapshots_until_error :: "int \<Rightarrow> time \<Rightarrow> uuid list \<Rightarrow> db \<Rightarrow> bool \<times> db" where
  "snapshots_until_error port now [] s = (True, s)"
| "snapshots_until_error port now (e # es) s =
     (case enqueue_pool_snapshot port now e s of
        Inl _ \<Rightarrow> (False, s)
      | Inr s1 \<Rightarrow> snapshots_until_error port now es s1)"

definition notify_backend :: "int \<Rightarrow> time \<Rightarrow> uuid \<Rightarrow> nat \<times> db \<Rightarrow> nat \<times> db" where
  "notify_backend port now b = (\<lambda>(k, s).
     let es = list_entry_ids_for_backend b s; (ok, s1) = snapshots_until_error port now es s
     in (k + (if ok then length es else 0), s1))"

definition notify_alternative_entries :: "int \<Rightarrow> time \<Rightarrow> uuid \<Rightarrow> db \<Rightarrow> nat \<times> db" where
  "notify_alternative_entries port now i s =
     fold (notify_backend port now) (remdups (map eba_backend_node_id (list_by_entry i s))) (0, s)"

section \<open>The loop\<close>

definition process_entry ::
  "entry_drain_config \<Rightarrow> time \<Rightarrow> vpn_node \<Rightarrow> entry_drain_out \<times> db \<Rightarrow> (entry_drain_out \<times> db) result" where
  "process_entry cfg now n = (\<lambda>(out, s).
     let i = row_id n in
     if unhealthy_reason cfg i s = None then
       (let (undrained, s1) = (if ed_auto_undrain cfg \<and> is_draining n then try_undrain_entry cfg now n s else (False, s)) in
        if undrained
        then case unblock_routes_for_entry now i s1 of
               Inl e \<Rightarrow> Inl e
             | Inr (k, s2) \<Rightarrow>
                 let (m, s3) = notify_alternative_entries (ed_port cfg) now i s2
                 in Inr (out\<lparr>eo_undrained := Suc (eo_undrained out), eo_routes_unblocked := eo_routes_unblocked out + k,
                             eo_snapshots := eo_snapshots out + m\<rparr>, s3)
        else Inr (out\<lparr>eo_skipped := Suc (eo_skipped out)\<rparr>, s1))
     else
       (let (d, s1) = drain_entry now n s in
        case block_routes_for_entry now i s1 of
          Inl e \<Rightarrow> Inl e
        | Inr (k, s2) \<Rightarrow>
            let (m, s3) = notify_alternative_entries (ed_port cfg) now i s2
            in Inr (out\<lparr>eo_drained := eo_drained out + (if d then 1 else 0), eo_routes_blocked := eo_routes_blocked out + k,
                        eo_snapshots := eo_snapshots out + m\<rparr>, s3)))"

fun process_entries ::
  "entry_drain_config \<Rightarrow> time \<Rightarrow> uuid list \<Rightarrow> entry_drain_out \<times> db \<Rightarrow> (entry_drain_out \<times> db) result" where
  "process_entries cfg now [] (out, s) = Inr (out, s)"
| "process_entries cfg now (i # is) (out, s) =
     (if int (eo_processed out) \<ge> ed_max_nodes cfg then Inr (out, s)
      else case get_by_id i (nodes s) of
        None \<Rightarrow> process_entries cfg now is (out, s)
      | Some n \<Rightarrow>
          (case process_entry cfg now n (out\<lparr>eo_processed := Suc (eo_processed out)\<rparr>, s) of
             Inl e \<Rightarrow> Inl e
           | Inr acc \<Rightarrow> process_entries cfg now is acc))"

definition entry_drain_run :: "entry_drain_config \<Rightarrow> time \<Rightarrow> db \<Rightarrow> (entry_drain_out \<times> db) result" where
  "entry_drain_run cfg now s =
     process_entries cfg now (map row_id (list_entry_candidates s))
       (\<lparr>eo_processed = 0, eo_drained = 0, eo_routes_blocked = 0, eo_snapshots = 0, eo_skipped = 0, eo_undrained = 0,
         eo_routes_unblocked = 0\<rparr>, s)"

definition entry_auto_drain_tick :: "int \<Rightarrow> time \<Rightarrow> db \<Rightarrow> (entry_drain_out \<times> db) result" where
  "entry_auto_drain_tick port now s = entry_drain_run (entry_drain_config_of port (the_node_policy s)) now s"

section \<open>What the parts do\<close>

lemma only_outbox_snapshots_until: "only_outbox s (snd (snapshots_until_error port now es s))"
  by (induction es arbitrary: s) (auto split: sum.split intro: only_outbox_trans only_outbox_pool_snapshot)

lemma only_outbox_notify_backend: "only_outbox s (snd (notify_backend port now b (k, s)))"
  using only_outbox_snapshots_until [of s port now "list_entry_ids_for_backend b s"]
  by (auto simp: notify_backend_def Let_def split: prod.split)

lemma only_outbox_notify_backends: "only_outbox s (snd (fold (notify_backend port now) bs (k, s)))"
proof (induction bs arbitrary: k s)
  case (Cons b bs)
  obtain k1 s1 where "notify_backend port now b (k, s) = (k1, s1)" by (cases "notify_backend port now b (k, s)")
  with only_outbox_notify_backend [of s port now b k] Cons.IH [of s1 k1] show ?case
    by (auto intro: only_outbox_trans)
qed simp

lemma only_outbox_alternatives: "notify_alternative_entries port now i s = (m, s') \<Longrightarrow> only_outbox s s'"
  using only_outbox_notify_backends [of s port now "remdups (map eba_backend_node_id (list_by_entry i s))" 0]
  by (simp add: notify_alternative_entries_def)

lemma update_routes_eq:
  assumes "update_routes f ids s = Inr s'" "distinct ids" "\<And>r. row_id (f r) = row_id r"
  shows "s' = s\<lparr>routes := update_where (\<lambda>r. row_id r \<in> set ids) f (routes s)\<rparr>"
  using assms
proof (induction ids arbitrary: s)
  case (Cons i ids)
  then obtain x s1 where s1: "update_route_row i f s = Inr (x, s1)" "update_routes f ids s1 = Inr s'"
    by (auto split: sum.splits)
  have "update_by_id i f (routes s) = update_where (\<lambda>r. row_id r = i) f (routes s)" by (simp add: update_by_id_def)
  moreover have "s1 = s\<lparr>routes := update_by_id i f (routes s)\<rparr>"
  proof (cases "get_by_id i (routes s)")
    case None
    then have "update_where (\<lambda>r. row_id r = i) f (routes s) = routes s"
      by (intro update_where_none) (auto simp: get_by_id_None ids_of_def)
    with s1(1) None show ?thesis by (simp add: update_route_row_def update_by_id_def)
  next
    case (Some r)
    with s1(1) show ?thesis by (auto simp: update_route_row_def split: if_splits)
  qed
  ultimately have "s1 = s\<lparr>routes := update_where (\<lambda>r. row_id r = i) f (routes s)\<rparr>" by simp
  moreover have "update_where (\<lambda>r. row_id r \<in> set ids) f (update_where (\<lambda>r. row_id r = i) f t) =
      update_where (\<lambda>r. row_id r \<in> set (i # ids)) f t" for t
    using Cons.prems(2,3) by (induction t) auto
  ultimately show ?case using Cons.IH [OF s1(2)] Cons.prems(2,3) by simp
qed (simp add: update_where_none)

text \<open>The statement for one entry: the routes selected by their health, as one update of the table.\<close>

lemma update_routes_through:
  assumes "update_routes f (map row_id (routes_through i P s)) s = Inr s'" "ids_ok (routes s)" "\<And>r. row_id (f r) = row_id r"
  shows "s' = s\<lparr>routes := update_where (\<lambda>r. entry_node_id r = Some i \<and> is_active r \<and> P (health_status r)) f (routes s)\<rparr>"
proof -
  let ?rs = "routes_through i P s"
  have "distinct (map row_id ?rs)"
    using assms(2) by (simp add: routes_through_def ids_ok_def distinct_map_filter)
  from update_routes_eq [OF assms(1) this assms(3)]
  have "s' = s\<lparr>routes := update_where (\<lambda>r. row_id r \<in> row_id ` set ?rs) f (routes s)\<rparr>" by simp
  moreover have "update_where (\<lambda>r. row_id r \<in> row_id ` set ?rs) f (routes s) =
      update_where (\<lambda>r. entry_node_id r = Some i \<and> is_active r \<and> P (health_status r)) f (routes s)"
    using ids_ok_unique [OF assms(2)] by (intro update_where_cong) (auto simp: routes_through_def)
  ultimately show ?thesis by simp
qed

text \<open>What the loop looks at for one entry.\<close>

definition entry_same :: "uuid \<Rightarrow> db \<Rightarrow> db \<Rightarrow> bool" where
  "entry_same i s s' \<longleftrightarrow>
     get_by_id i (nodes s') = get_by_id i (nodes s) \<and> agent_state_of s' i = agent_state_of s i \<and>
     filter (\<lambda>r. entry_node_id r = Some i) (routes s') = filter (\<lambda>r. entry_node_id r = Some i) (routes s) \<and>
     signals s' = signals s"

lemma entry_same_refl [simp]: "entry_same i s s"
  by (simp add: entry_same_def)

lemma entry_same_trans: "entry_same i s s1 \<Longrightarrow> entry_same i s1 s2 \<Longrightarrow> entry_same i s s2"
  by (simp add: entry_same_def)

lemma entry_same_only_outbox: "only_outbox s s' \<Longrightarrow> entry_same i s s'"
  using only_outboxD [of s s'] by (simp add: entry_same_def agent_state_of_def)

definition tables_ok :: "db \<Rightarrow> bool" where
  "tables_ok s \<longleftrightarrow> ids_ok (routes s) \<and> ids_ok (agent_states s)"

lemma mark_drain_meta_frame:
  "nodes (mark_drain_meta now st r t s) = nodes s" "routes (mark_drain_meta now st r t s) = routes s"
  "signals (mark_drain_meta now st r t s) = signals s"
  "tables_ok s \<Longrightarrow> tables_ok (mark_drain_meta now st r t s)"
  by (simp_all add: mark_drain_meta_def Let_def tables_ok_def split: option.split)

lemma mark_drain_meta_other:
  assumes "tables_ok s" "j \<noteq> i"
  shows "agent_state_of (mark_drain_meta now (agent_state_of s i) r t s) j = agent_state_of s j"
proof (cases "agent_state_of s i")
  case (Some a)
  then have a: "a \<in> set (agent_states s)" "nas_node_id a = i"
    by (auto simp: agent_state_of_def get_one_by_def dest: find_Some_mem)
  have "find (\<lambda>st. nas_node_id st = j) (update_where (\<lambda>x. row_id x = row_id a) f xs) = find (\<lambda>st. nas_node_id st = j) xs"
    if "\<forall>x \<in> set xs. row_id x = row_id a \<longrightarrow> nas_node_id x = i" "\<And>x. nas_node_id (f x) = nas_node_id x" for f and xs :: "node_agent_state list"
    using that assms(2) by (induction xs) auto
  moreover have "\<forall>x \<in> set (agent_states s). row_id x = row_id a \<longrightarrow> nas_node_id x = i"
    using assms(1) a ids_ok_unique by (auto simp: tables_ok_def)
  ultimately show ?thesis
    unfolding Some mark_drain_meta_def
    by (simp add: Let_def agent_state_of_def get_one_by_def update_by_id_def)
qed (simp add: mark_drain_meta_def)

lemma tables_ok_routes:
  "tables_ok s \<Longrightarrow> (\<And>r. row_id (f r) = row_id r) \<Longrightarrow> tables_ok (s\<lparr>routes := update_where P f (routes s)\<rparr>)"
  by (simp add: tables_ok_def ids_ok_update_where)

lemma tables_ok_only_outbox: "only_outbox s s' \<Longrightarrow> tables_ok s \<Longrightarrow> tables_ok s'"
  using only_outboxD [of s s'] by (simp add: tables_ok_def)

text \<open>
  The three things that can happen to an entry: it is taken out of service, it is put back, or
  nothing.  In every case the other entries are not touched.
\<close>

definition out_of_service :: "uuid \<Rightarrow> db \<Rightarrow> bool" where
  "out_of_service i s \<longleftrightarrow>
     (\<exists>n. get_by_id i (nodes s) = Some n \<and> is_draining n) \<and>
     (\<forall>r \<in> set (routes s). entry_node_id r = Some i \<and> is_active r \<longrightarrow> health_status r = blocked)"

definition back_in_service :: "uuid \<Rightarrow> db \<Rightarrow> bool" where
  "back_in_service i s \<longleftrightarrow>
     (\<exists>n. get_by_id i (nodes s) = Some n \<and> \<not> is_draining n) \<and>
     (\<forall>r \<in> set (routes s). entry_node_id r = Some i \<and> is_active r \<longrightarrow> health_status r \<noteq> blocked)"

lemma update_where_health:
  assumes "r \<in> set (update_where (\<lambda>r. entry_node_id r = Some i \<and> is_active r \<and> P (health_status r)) f t)"
    "entry_node_id r = Some i" "is_active r"
    "\<And>x. entry_node_id (f x) = entry_node_id x" "\<And>x. is_active (f x) = is_active x"
  shows "(\<exists>x. health_status r = health_status (f x)) \<or> \<not> P (health_status r)"
  using assms by (auto simp: set_update_where)

lemma filter_routes_other:
  "j \<noteq> i \<Longrightarrow> (\<And>x. entry_node_id (f x) = entry_node_id x) \<Longrightarrow>
   filter (\<lambda>r. entry_node_id r = Some j) (update_where (\<lambda>r. entry_node_id r = Some i \<and> is_active r \<and> P r) f t) =
   filter (\<lambda>r. entry_node_id r = Some j) t"
  by (rule filter_update_where_other) auto

lemma sys_inv_snapshots_until: "sys_inv port s \<Longrightarrow> sys_inv port (snd (snapshots_until_error port now es s))"
  by (induction es arbitrary: s) (auto split: sum.split dest: sys_inv_pool_snapshot)

lemma sys_inv_alternatives:
  assumes "sys_inv port s" "notify_alternative_entries port now i s = (m, s')"
  shows "sys_inv port s'"
proof -
  have "sys_inv port (snd (fold (notify_backend port now) bs (k, s)))" if "sys_inv port s" for bs k s
    using that
  proof (induction bs arbitrary: k s)
    case (Cons b bs)
    obtain k1 s1 where s1: "notify_backend port now b (k, s) = (k1, s1)" by (cases "notify_backend port now b (k, s)")
    then have "s1 = snd (snapshots_until_error port now (list_entry_ids_for_backend b s) s)"
      by (auto simp: notify_backend_def Let_def split: prod.splits)
    with Cons.prems have "sys_inv port s1" by (simp add: sys_inv_snapshots_until)
    with Cons.IH s1 show ?case by simp
  qed simp
  from this [OF assms(1)] assms(2) show ?thesis unfolding notify_alternative_entries_def by (metis snd_conv)
qed

section \<open>One entry\<close>

text \<open>What the writes of one turn keep: the invariants, the roles, and all the other entries.\<close>

definition turn_ok :: "int \<Rightarrow> uuid \<Rightarrow> db \<Rightarrow> db \<Rightarrow> bool" where
  "turn_ok port i s s' \<longleftrightarrow>
     sys_inv port s' \<and> tables_ok s' \<and> (\<forall>j. map_option role (get_by_id j (nodes s')) = map_option role (get_by_id j (nodes s))) \<and>
     (\<forall>j. j \<noteq> i \<longrightarrow> entry_same j s s')"

lemma turn_ok_trans: "turn_ok port i s s1 \<Longrightarrow> turn_ok port i s1 s2 \<Longrightarrow> turn_ok port i s s2"
  unfolding turn_ok_def by (metis entry_same_trans)

lemma turn_ok_alternatives:
  "sys_inv port s \<Longrightarrow> tables_ok s \<Longrightarrow> notify_alternative_entries port now i s = (m, s') \<Longrightarrow> turn_ok port i s s'"
  using sys_inv_alternatives only_outbox_alternatives only_outboxD(1) tables_ok_only_outbox entry_same_only_outbox
  unfolding turn_ok_def by metis

lemma turn_ok_routes:
  assumes "sys_inv port s" "tables_ok s"
    "\<And>r. row_id (f r) = row_id r" "\<And>r. entry_node_id (f r) = entry_node_id r"
  shows "turn_ok port i s (s\<lparr>routes := update_where (\<lambda>r. entry_node_id r = Some i \<and> is_active r \<and> P r) f (routes s)\<rparr>)"
proof -
  let ?s' = "s\<lparr>routes := update_where (\<lambda>r. entry_node_id r = Some i \<and> is_active r \<and> P r) f (routes s)\<rparr>"
  have "sys_inv port ?s'" by (rule sys_inv_elsewhere [OF assms(1)]) simp_all
  moreover have "tables_ok ?s'" using assms(2,3) by (rule tables_ok_routes)
  moreover have "entry_same j s ?s'" if "j \<noteq> i" for j
    using filter_routes_other [OF that assms(4)] by (simp add: entry_same_def agent_state_of_def)
  ultimately show ?thesis by (simp add: turn_ok_def)
qed

text \<open>Changing the flag of an entry, with the note in its agent state.\<close>

definition same_roles :: "db \<Rightarrow> db \<Rightarrow> bool" where
  "same_roles s s' \<longleftrightarrow> (\<forall>j. map_option role (get_by_id j (nodes s')) = map_option role (get_by_id j (nodes s)))"

lemma switch_nodes:
  "nodes (mark_drain_meta now (agent_state_of s i) r t (set_draining now i b s)) =
     update_by_id i (\<lambda>x. x\<lparr>is_draining := b, updated_at := now\<rparr>) (nodes s)"
  by (simp add: mark_drain_meta_frame set_draining_def)

lemma switch_sys:
  fixes now :: time and r :: "string option" and t :: "time option" and b :: bool
  assumes "sys_inv port s" "get_by_id i (nodes s) = Some n" "role n \<noteq> ''backend''"
  defines "s1 \<equiv> mark_drain_meta now (agent_state_of s i) r t (set_draining now i b s)"
  shows "sys_inv port s1 \<and> same_roles s s1"
proof -
  have nodes: "nodes s1 = update_by_id i (\<lambda>x. x\<lparr>is_draining := b, updated_at := now\<rparr>) (nodes s)"
    by (simp add: s1_def switch_nodes)
  have frame: "assignments s1 = assignments s" "placements s1 = placements s" "outbox s1 = outbox s"
    "uuid_supply s1 = uuid_supply s"
    by (simp_all add: s1_def mark_drain_meta_def set_draining_def Let_def split: option.split)
  have "sys_inv port s1"
    using assms(3)
    by (intro sys_inv_announce_backend [OF assms(1,2) _ _ _ nodes frame, of now]) (simp_all add: announce_backend_def)
  moreover have "map_option role (get_by_id j (nodes s1)) = map_option role (get_by_id j (nodes s))" for j
    using assms(2) by (cases "j = i") (simp_all add: nodes tbl.get_upd)
  ultimately show ?thesis by (simp add: same_roles_def)
qed

lemma turn_ok_switch:
  fixes now :: time and r :: "string option" and t :: "time option" and b :: bool
  assumes "sys_inv port s" "tables_ok s" "get_by_id i (nodes s) = Some n" "role n \<noteq> ''backend''"
  defines "s1 \<equiv> mark_drain_meta now (agent_state_of s i) r t (set_draining now i b s)"
  shows "turn_ok port i s s1" "routes s1 = routes s" "\<exists>n'. get_by_id i (nodes s1) = Some n' \<and> is_draining n' = b"
proof -
  let ?s0 = "set_draining now i b s"
  have ok0: "tables_ok ?s0" using assms(2) by (simp add: tables_ok_def set_draining_def)
  then have "tables_ok s1" by (simp add: s1_def mark_drain_meta_frame)
  moreover have "entry_same j s s1" if "j \<noteq> i" for j
  proof -
    have "agent_state_of ?s0 k = agent_state_of s k" for k by (simp add: set_draining_def agent_state_of_def)
    with mark_drain_meta_other [OF ok0 that, of now r t] have "agent_state_of s1 j = agent_state_of s j"
      by (simp add: s1_def)
    moreover have "signals s1 = signals s" "routes s1 = routes s"
      by (simp_all add: s1_def mark_drain_meta_frame set_draining_def)
    ultimately show ?thesis using that by (simp add: entry_same_def s1_def switch_nodes tbl.get_upd)
  qed
  ultimately show "turn_ok port i s s1"
    using switch_sys [OF assms(1,3,4), of now r t b] by (simp add: turn_ok_def same_roles_def s1_def)
  show "routes s1 = routes s" by (simp add: s1_def mark_drain_meta_frame set_draining_def)
  show "\<exists>n'. get_by_id i (nodes s1) = Some n' \<and> is_draining n' = b"
    using assms(3) by (simp add: s1_def switch_nodes tbl.get_upd)
qed

text \<open>
  The end of a turn that changes something: the routes of the entry are rewritten, the other
  entries of its backends hear of it.
\<close>

lemma turn_end:
  assumes "sys_inv port s" "tables_ok s" "update_routes f (map row_id (routes_through i P s)) s = Inr s2"
    "notify_alternative_entries port now i s2 = (m, s3)"
    and f: "\<And>r. row_id (f r) = row_id r" "\<And>r. entry_node_id (f r) = entry_node_id r" "\<And>r. is_active (f r) = is_active r"
      "\<And>r. \<not> P (health_status (f r))"
  shows "turn_ok port i s s3" "nodes s3 = nodes s"
    "\<forall>r \<in> set (routes s3). entry_node_id r = Some i \<and> is_active r \<longrightarrow> \<not> P (health_status r)"
proof -
  have s2: "s2 = s\<lparr>routes := update_where (\<lambda>r. entry_node_id r = Some i \<and> is_active r \<and> P (health_status r)) f (routes s)\<rparr>"
    using assms(2) by (intro update_routes_through [OF assms(3) _ f(1)]) (simp add: tables_ok_def)
  have ok: "turn_ok port i s s2" unfolding s2 by (rule turn_ok_routes [OF assms(1,2) f(1,2)])
  then have "turn_ok port i s2 s3" using assms(4) by (intro turn_ok_alternatives) (simp_all add: turn_ok_def)
  with ok show "turn_ok port i s s3" by (rule turn_ok_trans)
  note o = only_outboxD [OF only_outbox_alternatives [OF assms(4)]]
  show "nodes s3 = nodes s" using o by (simp add: s2)
  show "\<forall>r \<in> set (routes s3). entry_node_id r = Some i \<and> is_active r \<longrightarrow> \<not> P (health_status r)"
    using update_where_health [of _ i P f "routes s"] f(2-4) o by (fastforce simp: s2)
qed

text \<open>The decision for an entry.\<close>

definition restorable :: "entry_drain_config \<Rightarrow> uuid \<Rightarrow> db \<Rightarrow> bool" where
  "restorable cfg i s \<longleftrightarrow>
     ed_auto_undrain cfg \<and> (\<exists>n. get_by_id i (nodes s) = Some n \<and> is_draining n) \<and> may_undrain cfg (agent_state_of s i)"

definition entry_outcome :: "entry_drain_config \<Rightarrow> uuid \<Rightarrow> db \<Rightarrow> db \<Rightarrow> bool" where
  "entry_outcome cfg i s s' \<longleftrightarrow>
     (if unhealthy_reason cfg i s \<noteq> None then out_of_service i s'
      else if restorable cfg i s then back_in_service i s'
      else entry_same i s s')"

lemma process_entry_effect:
  assumes "sys_inv (ed_port cfg) s" "tables_ok s" "get_by_id i (nodes s) = Some n" "role n \<noteq> ''backend''"
    "process_entry cfg now n (out, s) = Inr (out', s')"
  shows "turn_ok (ed_port cfg) i s s'" "entry_outcome cfg i s s'" "eo_processed out' = eo_processed out"
proof -
  have i: "row_id n = i" using assms(3) by (simp add: get_by_id_Some)
  have same: "turn_ok (ed_port cfg) i s s" using assms(1,2) by (simp add: turn_ok_def)
  have "turn_ok (ed_port cfg) i s s' \<and> entry_outcome cfg i s s' \<and> eo_processed out' = eo_processed out"
  proof (cases "unhealthy_reason cfg i s = None")
    case True
    show ?thesis
    proof (cases "restorable cfg i s")
      case False
      with True same assms(3,5) i show ?thesis
        by (auto simp: process_entry_def Let_def try_undrain_entry_def restorable_def entry_outcome_def split: if_splits)
    next
      case r: True
      define s1 where "s1 = mark_drain_meta now (agent_state_of s i) None None (set_draining now i False s)"
      note sw = turn_ok_switch [OF assms(1-4), of now None None False, folded s1_def]
      from True r assms(3,5) i obtain k s2 m where e:
        "unblock_routes_for_entry now i s1 = Inr (k, s2)" "notify_alternative_entries (ed_port cfg) now i s2 = (m, s')"
        "eo_processed out' = eo_processed out"
        by (auto simp: process_entry_def Let_def try_undrain_entry_def restorable_def s1_def split: sum.splits prod.splits)
      have "sys_inv (ed_port cfg) s1" "tables_ok s1" using sw(1) by (simp_all add: turn_ok_def)
      moreover have "update_routes (unblocked now) (map row_id (routes_through i (\<lambda>h. h = blocked) s1)) s1 = Inr s2"
        using e(1) by (auto simp: unblock_routes_for_entry_def Let_def split: sum.splits)
      ultimately have t: "turn_ok (ed_port cfg) i s1 s'" "nodes s' = nodes s1"
        "\<forall>r \<in> set (routes s'). entry_node_id r = Some i \<and> is_active r \<longrightarrow> \<not> health_status r = blocked"
        using turn_end [of "ed_port cfg" s1 "unblocked now" i "\<lambda>h. h = blocked", OF _ _ _ e(2)] by (simp_all add: unblocked_def)
      with sw True r e(3) show ?thesis
        by (auto simp: entry_outcome_def back_in_service_def intro: turn_ok_trans)
    qed
  next
    case False
    define s1 where "s1 = snd (drain_entry now n s)"
    have sw: "turn_ok (ed_port cfg) i s s1" "\<exists>n'. get_by_id i (nodes s1) = Some n' \<and> is_draining n'"
      using turn_ok_switch(1,3) [OF assms(1-4), of now "Some DRAIN_REASON_ENTRY_AUTO_DRAIN" "Some now" True] same assms(3) i
      by (auto simp: s1_def drain_entry_def)
    from False assms(5) i obtain k s2 m where e:
      "block_routes_for_entry now i s1 = Inr (k, s2)" "notify_alternative_entries (ed_port cfg) now i s2 = (m, s')"
      "eo_processed out' = eo_processed out"
      by (auto simp: process_entry_def Let_def s1_def split: sum.splits prod.splits)
    have "sys_inv (ed_port cfg) s1" "tables_ok s1" using sw(1) by (simp_all add: turn_ok_def)
    moreover have "update_routes (blocked_row now) (map row_id (routes_through i (\<lambda>h. h \<noteq> blocked) s1)) s1 = Inr s2"
      using e(1) by (auto simp: block_routes_for_entry_def Let_def split: sum.splits)
    ultimately have t: "turn_ok (ed_port cfg) i s1 s'" "nodes s' = nodes s1"
      "\<forall>r \<in> set (routes s'). entry_node_id r = Some i \<and> is_active r \<longrightarrow> \<not> health_status r \<noteq> blocked"
      using turn_end [of "ed_port cfg" s1 "blocked_row now" i "\<lambda>h. h \<noteq> blocked", OF _ _ _ e(2)] by (simp_all add: blocked_row_def)
    with sw False e(3) show ?thesis by (auto simp: entry_outcome_def out_of_service_def intro: turn_ok_trans)
  qed
  then show "turn_ok (ed_port cfg) i s s'" "entry_outcome cfg i s s'" "eo_processed out' = eo_processed out" by simp_all
qed

section \<open>The tick\<close>

lemma unhealthy_reason_same: "entry_same i s s' \<Longrightarrow> unhealthy_reason cfg i s' = unhealthy_reason cfg i s"
  by (simp add: entry_same_def unhealthy_reason_def count_consecutive_node_failures_def node_signals_def
      list_recent_for_node_def)

lemma filter_same_ball:
  assumes "filter P xs = filter P ys"
  shows "(\<forall>x \<in> set xs. P x \<and> Q x \<longrightarrow> R x) = (\<forall>x \<in> set ys. P x \<and> Q x \<longrightarrow> R x)"
proof -
  have "set (filter P xs) = set (filter P ys)" using assms by simp
  then show ?thesis by (auto simp: set_eq_iff)
qed

lemma entry_outcome_before: "entry_same i s s1 \<Longrightarrow> entry_outcome cfg i s1 s' \<Longrightarrow> entry_outcome cfg i s s'"
  using unhealthy_reason_same [of i s s1 cfg] by (auto simp: entry_outcome_def restorable_def entry_same_def split: if_splits)

lemma entry_outcome_after: "entry_outcome cfg i s s1 \<Longrightarrow> entry_same i s1 s' \<Longrightarrow> entry_outcome cfg i s s'"
  using filter_same_ball [of "\<lambda>r. entry_node_id r = Some i" "routes s'" "routes s1" is_active]
  by (auto simp: entry_outcome_def out_of_service_def back_in_service_def entry_same_def split: if_splits)

lemma process_entries_effect:
  assumes "process_entries cfg now ids (out, s) = Inr (out', s')" "sys_inv (ed_port cfg) s" "tables_ok s" "distinct ids"
    "\<forall>i \<in> set ids. \<exists>n. get_by_id i (nodes s) = Some n \<and> role n \<noteq> ''backend''"
  defines "turns \<equiv> take (nat (ed_max_nodes cfg - int (eo_processed out))) ids"
  shows "sys_inv (ed_port cfg) s' \<and> tables_ok s' \<and> (\<forall>i \<in> set turns. entry_outcome cfg i s s') \<and>
    (\<forall>i. i \<notin> set turns \<longrightarrow> entry_same i s s')"
  using assms(1-5) unfolding turns_def
proof (induction ids arbitrary: out s)
  case (Cons i ids)
  show ?case
  proof (cases "int (eo_processed out) \<ge> ed_max_nodes cfg")
    case True
    with Cons.prems show ?thesis by simp
  next
    case False
    obtain n where n: "get_by_id i (nodes s) = Some n" "role n \<noteq> ''backend''" using Cons.prems(5) by auto
    let ?out = "out\<lparr>eo_processed := Suc (eo_processed out)\<rparr>"
    obtain out1 s1 where s1: "process_entry cfg now n (?out, s) = Inr (out1, s1)"
      "process_entries cfg now ids (out1, s1) = Inr (out', s')"
      using Cons.prems(1) False n(1) by (auto split: sum.splits)
    note e = process_entry_effect [OF Cons.prems(2,3) n s1(1)]
    let ?k = "nat (ed_max_nodes cfg - int (eo_processed out1))"
    have k: "nat (ed_max_nodes cfg - int (eo_processed out)) = Suc ?k" using False e(3) by simp
    have "\<exists>n. get_by_id j (nodes s1) = Some n \<and> role n \<noteq> ''backend''" if "j \<in> set ids" for j
    proof -
      have "map_option role (get_by_id j (nodes s1)) = map_option role (get_by_id j (nodes s))"
        using e(1) by (simp add: turn_ok_def)
      moreover have "\<exists>m. get_by_id j (nodes s) = Some m \<and> role m \<noteq> ''backend''" using Cons.prems(5) that by simp
      ultimately show ?thesis by auto
    qed
    with Cons.IH [OF s1(2)] e(1) Cons.prems(4)
    have ih: "sys_inv (ed_port cfg) s'" "tables_ok s'" "\<forall>j \<in> set (take ?k ids). entry_outcome cfg j s1 s'"
      "\<forall>j. j \<notin> set (take ?k ids) \<longrightarrow> entry_same j s1 s'"
      by (simp_all add: turn_ok_def)
    have out: "i \<notin> set (take ?k ids)" using Cons.prems(4) by (auto dest: in_set_takeD)
    have first: "entry_outcome cfg i s s'" using entry_outcome_after [OF e(2)] ih(4) out by simp
    have rest: "entry_outcome cfg j s s'" if "j \<in> set (take ?k ids)" for j
    proof (rule entry_outcome_before)
      show "entry_same j s s1" using e(1) that out by (metis turn_ok_def)
    qed (use that ih(3) in simp)
    have "entry_same j s s'" if "j \<noteq> i" "j \<notin> set (take ?k ids)" for j
      using that ih(4) e(1) entry_same_trans [of j s s1] by (simp add: turn_ok_def)
    with ih(1,2) first rest show ?thesis by (auto simp: k)
  qed
qed simp

lemma entry_candidates_ok:
  assumes "sys_inv port s"
  shows "distinct (map row_id (list_entry_candidates s))"
    "\<forall>i \<in> set (map row_id (list_entry_candidates s)). \<exists>n. get_by_id i (nodes s) = Some n \<and> role n \<noteq> ''backend''"
proof -
  have ok: "ids_ok (nodes s)" using assms by (simp add: sys_inv_def pools_ok_def pools_inv_def)
  then show "distinct (map row_id (list_entry_candidates s))"
    by (simp add: list_entry_candidates_def ids_ok_def distinct_map distinct_sort inj_on_def)
  show "\<forall>i \<in> set (map row_id (list_entry_candidates s)). \<exists>n. get_by_id i (nodes s) = Some n \<and> role n \<noteq> ''backend''"
    using ok by (auto simp: list_entry_candidates_def ENTRY_ROLES_def dest: ids_ok_get)
qed

text \<open>The entries that get a turn in one tick.\<close>

definition entry_turns :: "int \<Rightarrow> db \<Rightarrow> uuid list" where
  "entry_turns port s =
     take (nat (ed_max_nodes (entry_drain_config_of port (the_node_policy s)))) (map row_id (list_entry_candidates s))"

lemma entry_tick_effect:
  assumes "entry_auto_drain_tick port now s = Inr (out, s')" "sys_inv port s" "tables_ok s"
  defines "cfg \<equiv> entry_drain_config_of port (the_node_policy s)"
  shows "sys_inv port s' \<and> tables_ok s' \<and> (\<forall>i \<in> set (entry_turns port s). entry_outcome cfg i s s') \<and>
    (\<forall>i. i \<notin> set (entry_turns port s) \<longrightarrow> entry_same i s s')"
proof -
  have "ed_port cfg = port" by (simp add: cfg_def entry_drain_config_of_def)
  with process_entries_effect [OF assms(1) [unfolded entry_auto_drain_tick_def entry_drain_run_def], folded cfg_def]
    assms(2,3) entry_candidates_ok [OF assms(2)]
  show ?thesis by (simp add: entry_turns_def cfg_def [symmetric])
qed

text \<open>Pools and placements need nothing of the other tables.\<close>

lemma update_routes_only: "update_routes f ids s = Inr s' \<Longrightarrow> \<exists>rs. s' = s\<lparr>routes := rs\<rparr>"
proof (induction ids arbitrary: s)
  case Nil
  then show ?case by (auto intro: exI [of _ "routes s"])
next
  case (Cons i ids)
  then obtain x s1 where s1: "update_route_row i f s = Inr (x, s1)" "update_routes f ids s1 = Inr s'"
    by (auto split: sum.splits)
  then have "\<exists>rs. s1 = s\<lparr>routes := rs\<rparr>"
    by (auto simp: update_route_row_def split: option.splits if_splits intro: exI [of _ "routes s"])
  with Cons.IH [OF s1(2)] show ?case by auto
qed

lemma turn_end_sys:
  assumes "sys_inv port s" "update_routes f ids s = Inr s2" "notify_alternative_entries port now i s2 = (m, s3)"
  shows "sys_inv port s3 \<and> same_roles s s3"
proof -
  obtain rs where s2: "s2 = s\<lparr>routes := rs\<rparr>" using update_routes_only [OF assms(2)] by blast
  then have "sys_inv port s2" by (intro sys_inv_elsewhere [OF assms(1)]) simp_all
  moreover have "nodes s3 = nodes s" using only_outboxD [OF only_outbox_alternatives [OF assms(3)]] s2 by simp
  ultimately show ?thesis using sys_inv_alternatives assms(3) by (auto simp: same_roles_def)
qed

lemma process_entry_sys:
  assumes "sys_inv (ed_port cfg) s" "get_by_id i (nodes s) = Some n" "role n \<noteq> ''backend''"
    "process_entry cfg now n (out, s) = Inr (out', s')"
  shows "sys_inv (ed_port cfg) s' \<and> same_roles s s'"
proof -
  have i: "row_id n = i" using assms(2) by (simp add: get_by_id_Some)
  have same: "same_roles s s" by (simp add: same_roles_def)
  have rest: "sys_inv (ed_port cfg) s3" "same_roles s s3"
    if "update_routes f ids s1 = Inr s2" "notify_alternative_entries (ed_port cfg) now (row_id n) s2 = (m, s3)"
      "sys_inv (ed_port cfg) s1" "same_roles s s1" for s1 f ids s2 m s3
    using turn_end_sys [OF that(3,1,2)] that(4) by (simp_all add: same_roles_def)
  note on = switch_sys [OF assms(1-3), of now "Some DRAIN_REASON_ENTRY_AUTO_DRAIN" "Some now" True]
    and off = switch_sys [OF assms(1-3), of now None None False]
  show ?thesis
    using assms(1,4) same on off i
    by (auto simp: process_entry_def Let_def try_undrain_entry_def drain_entry_def unblock_routes_for_entry_def
        block_routes_for_entry_def split: if_splits sum.splits prod.splits intro: rest)
qed

lemma process_entries_sys:
  "process_entries cfg now ids (out, s) = Inr (out', s') \<Longrightarrow> sys_inv (ed_port cfg) s \<Longrightarrow>
   \<forall>i \<in> set ids. \<forall>n. get_by_id i (nodes s) = Some n \<longrightarrow> role n \<noteq> ''backend'' \<Longrightarrow> sys_inv (ed_port cfg) s'"
proof (induction ids arbitrary: out s)
  case (Cons i ids)
  show ?case
  proof (cases "ed_max_nodes cfg \<le> int (eo_processed out) \<or> get_by_id i (nodes s) = None")
    case True
    with Cons show ?thesis by (cases "ed_max_nodes cfg \<le> int (eo_processed out)") auto
  next
    case False
    then obtain n where n: "get_by_id i (nodes s) = Some n" "role n \<noteq> ''backend''" using Cons.prems(3) by auto
    obtain out1 s1 where s1: "process_entry cfg now n (out\<lparr>eo_processed := Suc (eo_processed out)\<rparr>, s) = Inr (out1, s1)"
      "process_entries cfg now ids (out1, s1) = Inr (out', s')"
      using Cons.prems(1) False n(1) by (auto split: sum.splits)
    have e: "sys_inv (ed_port cfg) s1" "same_roles s s1" using process_entry_sys [OF Cons.prems(2) n s1(1)] by simp_all
    have "role m \<noteq> ''backend''" if "j \<in> set ids" "get_by_id j (nodes s1) = Some m" for j m
      using e(2) [unfolded same_roles_def, rule_format, of j] that Cons.prems(3) by (cases "get_by_id j (nodes s)") auto
    with Cons.IH [OF s1(2) e(1)] show ?thesis by blast
  qed
qed simp

lemma entry_auto_drain_sys_inv [sys_ok]:
  assumes "entry_auto_drain_tick port now s = Inr (out, s')" "sys_inv port s"
  shows "sys_inv port s'"
proof -
  let ?cfg = "entry_drain_config_of port (the_node_policy s)"
  have "ed_port ?cfg = port" by (simp add: entry_drain_config_of_def)
  with process_entries_sys [OF assms(1) [unfolded entry_auto_drain_tick_def entry_drain_run_def]] assms(2)
    entry_candidates_ok(2) [OF assms(2)]
  show ?thesis by fastforce
qed


definition sick_entry_db :: db where
  "sick_entry_db = empty_db\<lparr>nodes := [sample_node 4 ''entry''],
     agent_states := [(sample_agent_state 4 0)\<lparr>is_healthy := False\<rparr>],
     routes := [(sample_route 50)\<lparr>entry_node_id := Some 4\<rparr>]\<rparr>"

lemma sick_entry_sel:
  "agent_state_of sick_entry_db 4 = Some ((sample_agent_state 4 0)\<lparr>is_healthy := False\<rparr>)"
  "map row_id (list_entry_candidates sick_entry_db) = [4]"
  "get_by_id 4 (nodes sick_entry_db) = Some (sample_node 4 ''entry'')"
  "row_id (sample_node 4 ''entry'') = 4" "\<not> is_draining (sample_node 4 ''entry'')"
  by (simp_all add: sick_entry_db_def agent_state_of_def get_one_by_def sample_agent_state_def list_entry_candidates_def
      sample_node_def ENTRY_ROLES_def get_by_id_def)

lemma sick_entry_ok: "sys_inv 443 sick_entry_db" "tables_ok sick_entry_db"
proof -
  have "transport_inv (empty_db :: db)"
    by (simp add: transport_inv_def placements_inv_def commands_agree_def)
  then have "transport_inv sick_entry_db" by (rule transport_inv_elsewhere) (simp_all add: sick_entry_db_def)
  then show "sys_inv 443 sick_entry_db"
    by (simp add: sys_inv_def pools_ok_def pools_inv_def backends_typed_def informed_def announced_pool_def pools_sent_def
        pool_ids_drawn_def sick_entry_db_def ids_ok_def sample_node_def List.map_filter_simps)
  show "tables_ok sick_entry_db" by (simp add: tables_ok_def sick_entry_db_def ids_ok_def)
qed

lemma sick_entry_tick: "\<exists>out s'. entry_auto_drain_tick 443 9 sick_entry_db = Inr (out, s')"
proof -
  let ?cfg = "entry_drain_config_of 443 (the_node_policy sick_entry_db)"
  have cfg: "ed_max_nodes ?cfg > 0" by (simp add: entry_drain_config_of_def)
  have sick: "unhealthy_reason ?cfg 4 sick_entry_db = Some ''agent_unhealthy''"
    by (simp add: unhealthy_reason_def sick_entry_sel)
  define s1 where "s1 = snd (drain_entry 9 (sample_node 4 ''entry'') sick_entry_db)"
  have s1: "drain_entry 9 (sample_node 4 ''entry'') sick_entry_db = (True, s1)"
    by (simp add: s1_def drain_entry_def sick_entry_sel)
  have frame: "routes s1 = [(sample_route 50)\<lparr>entry_node_id := Some 4\<rparr>]"
    by (simp add: s1_def drain_entry_def sick_entry_sel mark_drain_meta_frame set_draining_def)
      (simp add: sick_entry_db_def)
  have "\<exists>s2. update_routes (blocked_row 9) (map row_id (routes_through 4 (\<lambda>h. h \<noteq> blocked) s1)) s1 = Inr s2"
    by (simp add: routes_through_def frame update_route_row_def get_by_id_def blocked_row_def sample_route_def
        route_ck_def route_name_taken_def)
  then obtain k s2 where s2: "block_routes_for_entry 9 4 s1 = Inr (k, s2)"
    by (auto simp: block_routes_for_entry_def Let_def)
  obtain m s3 where s3: "notify_alternative_entries (ed_port ?cfg) 9 4 s2 = (m, s3)"
    by (cases "notify_alternative_entries (ed_port ?cfg) 9 4 s2")
  have "\<exists>out. process_entry ?cfg 9 (sample_node 4 ''entry'') (o1, sick_entry_db) = Inr (out, s3)" for o1
    using sick s1 s2 s3 by (simp add: process_entry_def Let_def sick_entry_sel)
  then show ?thesis
    using cfg by (auto simp: entry_auto_drain_tick_def entry_drain_run_def sick_entry_sel split: sum.split)
      (metis sum.distinct(1))
qed


text \<open>
  The routes of a restored entry all warm up, whoever blocked them; a blocked route of weight zero
  ends the tick with a violated constraint instead.
\<close>

lemma zero_weight_unblock_fails:
  assumes "get_by_id i (routes s) = Some r" "base_weight r = 0"
  shows "update_route_row i (unblocked now) s = Inl (IntegrityError ''ck_route'')"
  using assms by (simp add: update_route_row_def unblocked_def route_ck_def route_name_taken_def)

text \<open>
  Both writes bypass the health machine and leave a route it never produces: blocking keeps the
  warm-up stage, and warming up keeps the cooldown.
\<close>

lemma entry_block_incoherent: "health_status r = warming_up \<Longrightarrow> route_coherent r \<Longrightarrow> \<not> route_coherent (blocked_row now r)"
  by (simp add: route_coherent_def blocked_row_def)

lemma entry_unblock_incoherent: "cooldown_until r \<noteq> None \<Longrightarrow> \<not> route_coherent (unblocked now r)"
  by (simp add: route_coherent_def unblocked_def)

end
