(* ===== verification/Wg_Mesh.thy ===== *)
theory Wg_Mesh
  imports Repository
begin

text \<open>
  \<open>services/wg\<close>: the WireGuard mesh.  The allocator hands out the addresses of the mesh network,
  \<open>WgMeshService\<close> builds the peers of a node, and the publisher takes the public keys of the
  agents from one key-value bucket and puts the peers of every node into another.

  The part of Python's \<open>ipaddress\<close> they use is modelled here: addresses are numbers, written as
  dotted decimals.  The configured CIDR is given as its address and prefix length.  The bucket of
  public keys (a payload, or \<open>None\<close> where it does not validate), the digest of the signatures
  and the outcome of a write to the bucket of peers are parameters.
\<close>

section \<open>ipaddress\<close>

definition digit_char :: "nat \<Rightarrow> char" where
  "digit_char d = ''0123456789'' ! d"

fun decimal :: "nat \<Rightarrow> string" where
  "decimal n = (if n < 10 then [digit_char n] else decimal (n div 10) @ [digit_char (n mod 10)])"

declare decimal.simps [simp del]

definition octet :: "nat \<Rightarrow> nat \<Rightarrow> nat" where
  "octet k a = a div 256 ^ k mod 256"

definition ip_str :: "nat \<Rightarrow> string" where
  "ip_str a = decimal (octet 3 a) @ ''.'' @ decimal (octet 2 a) @ ''.'' @ decimal (octet 1 a) @ ''.'' @ decimal (octet 0 a)"

fun split_dots :: "string \<Rightarrow> string list" where
  "split_dots [] = [[]]"
| "split_dots (c # cs) =
     (if c = CHR ''.'' then [] # split_dots cs
      else case split_dots cs of [] \<Rightarrow> [[c]] | p # ps \<Rightarrow> (c # p) # ps)"

definition is_digit :: "char \<Rightarrow> bool" where
  "is_digit c \<longleftrightarrow> 48 \<le> (of_char c :: nat) \<and> (of_char c :: nat) \<le> 57"

definition octet_value :: "string \<Rightarrow> nat" where
  "octet_value s = foldl (\<lambda>v c. 10 * v + (of_char c - 48)) 0 s"

definition parse_octet :: "string \<Rightarrow> nat option" where
  "parse_octet s =
     (if s = [] \<or> \<not> list_all is_digit s \<or> length s > 3 \<or> s \<noteq> ''0'' \<and> hd s = CHR ''0'' \<or> octet_value s > 255 then None
      else Some (octet_value s))"

definition ipv4_address :: "string \<Rightarrow> nat option" where
  "ipv4_address s =
     (case map parse_octet (split_dots s) of
        [Some a, Some b, Some c, Some d] \<Rightarrow> Some (((a * 256 + b) * 256 + c) * 256 + d)
      | _ \<Rightarrow> None)"

record ipv4_network =
  net_address :: nat
  net_prefixlen :: nat

text \<open>With \<open>strict=False\<close> the host bits of the address are cleared.\<close>

definition net_size :: "ipv4_network \<Rightarrow> nat" where
  "net_size net = 2 ^ (32 - net_prefixlen net)"

definition net_first :: "ipv4_network \<Rightarrow> nat" where
  "net_first net = net_address net - net_address net mod net_size net"

definition in_network :: "nat \<Rightarrow> ipv4_network \<Rightarrow> bool" where
  "in_network a net \<longleftrightarrow> net_first net \<le> a \<and> a < net_first net + net_size net"

definition net_hosts :: "ipv4_network \<Rightarrow> nat list" where
  "net_hosts net =
     (if net_prefixlen net \<ge> 31 then [net_first net ..< net_first net + net_size net]
      else [net_first net + 1 ..< net_first net + net_size net - 1])"

section \<open>The allocator\<close>

definition allocate_next_ip :: "ipv4_network \<Rightarrow> string list \<Rightarrow> nat \<Rightarrow> string result" where
  "allocate_next_ip net used reserved =
     (let used_set = map py_strip (filter (\<lambda>a. a \<noteq> []) used) in
      case find (\<lambda>ip. ip \<notin> set used_set) (map ip_str (drop reserved (net_hosts net))) of
        Some ip \<Rightarrow> Inr ip
      | None \<Rightarrow> Inl (RuntimeError ''no free addresses left''))"

section \<open>WgMeshService\<close>

record wg_config =
  mesh_net :: ipv4_network
  listen_port :: int

record wg_peer =
  wp_node_id :: uuid
  wp_name :: string
  wp_public_key :: string
  wp_endpoint :: string
  wp_listen_port :: int
  wp_address :: string

definition mesh_ip_or_none :: "wg_config \<Rightarrow> vpn_node \<Rightarrow> string option" where
  "mesh_ip_or_none cfg n =
     (let ip = py_strip (internal_wg_ip n) in
      if ip = [] then None
      else case ipv4_address ip of
             None \<Rightarrow> None
           | Some a \<Rightarrow> if in_network a (mesh_net cfg) then Some ip else None)"

definition PEER_ROLES :: "string \<Rightarrow> string list option" where
  "PEER_ROLES r =
     (if r = ''backend'' then Some [''entry'', ''whitelist_entry'']
      else if r = ''entry'' \<or> r = ''whitelist_entry'' then Some [''backend'']
      else None)"

definition port_or :: "int \<Rightarrow> int option \<Rightarrow> int" where
  "port_or d p = (case p of None \<Rightarrow> d | Some v \<Rightarrow> if v = 0 then d else v)"

definition node_endpoint :: "vpn_node \<Rightarrow> string" where
  "node_endpoint n = py_strip (if truthy (reality_ip n) then the (reality_ip n) else public_domain n)"

definition peer_of :: "wg_config \<Rightarrow> vpn_node \<Rightarrow> wg_peer option" where
  "peer_of cfg n =
     (if \<not> truthy (wg_public_key n) then None
      else case mesh_ip_or_none cfg n of
             None \<Rightarrow> None
           | Some ip \<Rightarrow>
               if node_endpoint n = [] then None
               else Some \<lparr>wp_node_id = row_id n, wp_name = node_name n, wp_public_key = the (wg_public_key n),
                          wp_endpoint = node_endpoint n, wp_listen_port = port_or (listen_port cfg) (wg_listen_port n),
                          wp_address = ip\<rparr>)"

definition may_peer :: "string \<Rightarrow> string \<Rightarrow> bool" where
  "may_peer self_role r = (case if self_role = [] then None else PEER_ROLES self_role of None \<Rightarrow> True | Some rs \<Rightarrow> r \<in> set rs)"

definition build_peers :: "wg_config \<Rightarrow> vpn_node list \<Rightarrow> vpn_node \<Rightarrow> wg_peer list" where
  "build_peers cfg all_nodes self =
     sort_key wp_name (List.map_filter (peer_of cfg)
       (filter (\<lambda>n. row_id n \<noteq> row_id self \<and> may_peer (role self) (role n)) all_nodes))"

section \<open>WgMeshPeerPublisher\<close>

record wg_pubkey =
  pk_node_id :: uuid
  pk_public_key :: string
  pk_listen_port :: int

definition current_used :: "uuid \<Rightarrow> vpn_node list \<Rightarrow> string list" where
  "current_used i ns = map internal_wg_ip (filter (\<lambda>n. row_id n \<noteq> i \<and> py_strip (internal_wg_ip n) \<noteq> []) ns)"

definition sync_pubkey :: "wg_config \<Rightarrow> time \<Rightarrow> wg_pubkey option \<Rightarrow> db \<Rightarrow> db result" where
  "sync_pubkey cfg now entry s =
     (case entry of
        None \<Rightarrow> Inr s
      | Some p \<Rightarrow>
          (case get_by_id (pk_node_id p) (nodes s) of
             None \<Rightarrow> Inr s
           | Some n \<Rightarrow>
               (case (if py_strip (internal_wg_ip n) \<noteq> [] then Inr (py_strip (internal_wg_ip n))
                      else allocate_next_ip (mesh_net cfg) (current_used (row_id n) (nodes s)) 1) of
                  Inl e \<Rightarrow> Inl e
                | Inr address \<Rightarrow>
                    if wg_public_key n = Some (pk_public_key p) \<and> wg_listen_port n = Some (pk_listen_port p) \<and>
                       internal_wg_ip n = address
                    then Inr s
                    else Inr (s\<lparr>nodes := update_by_id (row_id n)
                           (\<lambda>n. n\<lparr>wg_public_key := Some (pk_public_key p), wg_listen_port := Some (pk_listen_port p),
                                  internal_wg_ip := address, updated_at := now\<rparr>) (nodes s)\<rparr>))))"

fun sync_pubkeys_from_kv :: "wg_config \<Rightarrow> time \<Rightarrow> wg_pubkey option list \<Rightarrow> db \<Rightarrow> db result" where
  "sync_pubkeys_from_kv cfg now [] s = Inr s"
| "sync_pubkeys_from_kv cfg now (e # es) s =
     (case sync_pubkey cfg now e s of Inl err \<Rightarrow> Inl err | Inr s1 \<Rightarrow> sync_pubkeys_from_kv cfg now es s1)"

record mesh_payload =
  mp_node_id :: uuid
  mp_address :: string
  mp_listen_port :: int
  mp_peers :: "wg_peer list"

definition payload_for :: "wg_config \<Rightarrow> vpn_node list \<Rightarrow> vpn_node \<Rightarrow> mesh_payload" where
  "payload_for cfg ns n =
     \<lparr>mp_node_id = row_id n, mp_address = internal_wg_ip n, mp_listen_port = port_or (listen_port cfg) (wg_listen_port n),
      mp_peers = build_peers cfg ns n\<rparr>"

text \<open>What the signature covers: of a peer its key and its address.\<close>

type_synonym normalized = "string \<times> int \<times> (string \<times> string) list"

definition normalize_payload :: "mesh_payload \<Rightarrow> normalized" where
  "normalize_payload p =
     (mp_address p, mp_listen_port p, sort (map (\<lambda>q. (wp_public_key q, wp_address q)) (mp_peers p)))"

text \<open>The bucket of peers and the signatures the publisher remembers.\<close>

record publisher =
  pub_kv :: "uuid \<rightharpoonup> mesh_payload"
  pub_signatures :: "uuid \<rightharpoonup> string"

fun publish_nodes ::
  "(normalized \<Rightarrow> string) \<Rightarrow> (uuid \<Rightarrow> bool) \<Rightarrow> wg_config \<Rightarrow> vpn_node list \<Rightarrow> vpn_node list \<Rightarrow> publisher \<Rightarrow> api_error option \<times> publisher" where
  "publish_nodes sha kv_ok cfg all_nodes [] p = (None, p)"
| "publish_nodes sha kv_ok cfg all_nodes (n # ns) p =
     (if \<not> truthy (wg_public_key n) \<or> py_strip (internal_wg_ip n) = [] then publish_nodes sha kv_ok cfg all_nodes ns p
      else let payload = payload_for cfg all_nodes n;
               signature = sha (normalize_payload payload)
           in if pub_signatures p (row_id n) = Some signature then publish_nodes sha kv_ok cfg all_nodes ns p
              else if \<not> kv_ok (row_id n) then (Some (RuntimeError ''kv_put''), p)
              else publish_nodes sha kv_ok cfg all_nodes ns
                     \<lparr>pub_kv = (pub_kv p)(row_id n \<mapsto> payload),
                      pub_signatures = (pub_signatures p)(row_id n \<mapsto> signature)\<rparr>)"

text \<open>
  A tick: the database after it, and the publisher.  An error while the keys are taken over rolls
  the session back; an error of the bucket leaves what was committed and published before it.
\<close>

definition wg_tick ::
  "(normalized \<Rightarrow> string) \<Rightarrow> (uuid \<Rightarrow> bool) \<Rightarrow> wg_config \<Rightarrow> time \<Rightarrow> wg_pubkey option list \<Rightarrow> db \<times> publisher
   \<Rightarrow> api_error option \<times> db \<times> publisher" where
  "wg_tick sha kv_ok cfg now entries = (\<lambda>(s, p).
     case sync_pubkeys_from_kv cfg now entries s of
       Inl e \<Rightarrow> (Some e, s, p)
     | Inr s1 \<Rightarrow>
         let ns = list_rows None (nodes s1); (err, p1) = publish_nodes sha kv_ok cfg ns ns p in (err, s1, p1))"

section \<open>Addresses\<close>

lemma digit_code: "d < 10 \<Longrightarrow> (of_char (digit_char d) :: nat) = 48 + d"
proof -
  assume "d < 10"
  then have "d \<in> {0, 1, 2, 3, 4, 5, 6, 7, 8, 9}" by auto
  then show ?thesis by (auto simp: digit_char_def)
qed

lemma decimal_digits: "c \<in> set (decimal n) \<Longrightarrow> is_digit c"
proof (induction n rule: decimal.induct)
  case (1 n)
  then show ?case
    by (subst (asm) (2) decimal.simps) (auto simp: is_digit_def digit_code split: if_splits)
qed

lemma digit_plain: "is_digit c \<Longrightarrow> \<not> is_space c \<and> c \<noteq> CHR ''.''"
  by (auto simp: is_digit_def is_space_def)

lemma decimal_value: "octet_value (decimal n) = n"
proof (induction n rule: decimal.induct)
  case (1 n)
  then show ?case
    by (subst decimal.simps) (auto simp: octet_value_def digit_code)
qed

lemma decimal_nonempty: "decimal n \<noteq> []"
  by (subst decimal.simps) simp

lemma decimal_hd: "0 < n \<Longrightarrow> hd (decimal n) \<noteq> digit_char 0"
proof (induction n rule: decimal.induct)
  case (1 n)
  have "digit_char n \<noteq> digit_char 0" if "n < 10" using that 1(2) digit_code [of n] digit_code [of 0] by auto
  with 1 show ?case by (subst decimal.simps) (auto simp: decimal_nonempty)
qed

lemma decimal_length: "n < 1000 \<Longrightarrow> length (decimal n) \<le> 3"
  by (subst decimal.simps, subst decimal.simps, subst decimal.simps) simp

lemma octet_text:
  assumes "n < 256"
  shows "parse_octet (decimal n) = Some n" "CHR ''.'' \<notin> set (decimal n)" "c \<in> set (decimal n) \<Longrightarrow> \<not> is_space c"
proof -
  have zero: "digit_char 0 = CHR ''0''" by (simp add: digit_char_def)
  have "decimal n = ''0'' \<or> hd (decimal n) \<noteq> CHR ''0''"
    using decimal_hd [of n] zero by (cases "n = 0") (auto simp: decimal.simps [of 0])
  then show "parse_octet (decimal n) = Some n"
    using assms decimal_digits decimal_length [of n]
    by (auto simp: parse_octet_def decimal_value decimal_nonempty list_all_iff)
  show "CHR ''.'' \<notin> set (decimal n)" "c \<in> set (decimal n) \<Longrightarrow> \<not> is_space c"
    using decimal_digits digit_plain by blast+
qed

lemma octet_less [simp]: "octet k a < 256"
  by (simp add: octet_def)

lemma split_dots_plain: "CHR ''.'' \<notin> set xs \<Longrightarrow> split_dots xs = [xs]"
  by (induction xs) auto

lemma split_dots_append: "CHR ''.'' \<notin> set xs \<Longrightarrow> split_dots (xs @ CHR ''.'' # ys) = xs # split_dots ys"
  by (induction xs) auto

lemma octets_sum:
  assumes "a < 2 ^ 32"
  shows "((octet 3 a * 256 + octet 2 a) * 256 + octet 1 a) * 256 + octet 0 a = a"
proof -
  have "a div 256 div 256 div 256 < 256" using assms by (simp add: div_mult2_eq [symmetric] less_mult_imp_div_less)
  then have "octet 3 a = a div 256 div 256 div 256"
    by (simp add: octet_def div_mult2_eq [symmetric])
  moreover have "octet 2 a = a div 256 div 256 mod 256" by (simp add: octet_def div_mult2_eq [symmetric])
  moreover have "octet 1 a = a div 256 mod 256" "octet 0 a = a mod 256" by (simp_all add: octet_def)
  ultimately show ?thesis by (simp only: div_mult_mod_eq)
qed

lemma ipv4_address_ip_str: "a < 2 ^ 32 \<Longrightarrow> ipv4_address (ip_str a) = Some a"
  unfolding ipv4_address_def ip_str_def
  by (simp add: split_dots_append split_dots_plain octet_text octets_sum [unfolded One_nat_def, simplified])

lemma ip_str_inj: "ip_str a = ip_str b \<Longrightarrow> a < 2 ^ 32 \<Longrightarrow> b < 2 ^ 32 \<Longrightarrow> a = b"
  by (metis ipv4_address_ip_str option.inject)

lemma py_strip_plain:
  assumes "\<And>c. c \<in> set xs \<Longrightarrow> \<not> is_space c"
  shows "py_strip xs = xs"
proof -
  have "dropWhile is_space ys = ys" if "set ys = set xs" for ys
    using assms that by (cases ys) auto
  then show ?thesis by (simp add: py_strip_def)
qed

lemma ip_str_plain: "py_strip (ip_str a) = ip_str a" "ip_str a \<noteq> []"
proof -
  have "\<not> is_space (CHR ''.'')" by (simp add: is_space_def)
  then show "py_strip (ip_str a) = ip_str a" by (intro py_strip_plain) (auto simp: ip_str_def dest: decimal_digits digit_plain)
qed (simp add: ip_str_def)

lemma py_strip_idem: "py_strip (py_strip xs) = py_strip xs"
proof -
  let ?ys = "dropWhile is_space xs"
  have last: "py_strip xs = [] \<or> \<not> is_space (last (py_strip xs))"
    unfolding py_strip_def using hd_dropWhile [of is_space "rev ?ys"] by (metis last_rev rev_is_Nil_conv)
  have "\<exists>zs. ?ys = py_strip xs @ zs"
    unfolding py_strip_def by (metis rev_append rev_rev_ident takeWhile_dropWhile_id)
  then have "py_strip xs = [] \<or> hd (py_strip xs) = hd ?ys" by (metis hd_append2)
  then have hd: "py_strip xs = [] \<or> \<not> is_space (hd (py_strip xs))"
    using hd_dropWhile [of is_space xs] by (metis dropWhile.simps(1) py_strip_def rev.simps(1))
  show ?thesis
  proof (cases "py_strip xs = []")
    case True
    then show ?thesis unfolding True by (simp add: py_strip_def)
  next
    case False
    with hd have "dropWhile is_space (py_strip xs) = py_strip xs" by (cases "py_strip xs") auto
    moreover have "dropWhile is_space (rev (py_strip xs)) = rev (py_strip xs)"
      using False last by (cases "rev (py_strip xs)") (auto simp: hd_rev)
    ultimately show ?thesis unfolding py_strip_def [of "py_strip xs"] by simp
  qed
qed

section \<open>The allocator gives the first free address\<close>

lemma net_hosts_in: "a \<in> set (net_hosts net) \<Longrightarrow> in_network a net"
  by (auto simp: net_hosts_def in_network_def split: if_splits)

lemma allocate_next_ip_Inr:
  assumes "allocate_next_ip net used r = Inr ip"
  shows "\<exists>k < length (net_hosts net). r \<le> k \<and> ip = ip_str (net_hosts net ! k) \<and> ip \<notin> py_strip ` set used \<and>
    (\<forall>j. r \<le> j \<and> j < k \<longrightarrow> ip_str (net_hosts net ! j) \<in> py_strip ` set used)"
proof -
  let ?hosts = "net_hosts net"
  let ?used = "py_strip ` (set used - {[]})"
  have "find (\<lambda>ip. ip \<notin> ?used) (map ip_str (drop r ?hosts)) = Some ip"
    using assms by (auto simp: allocate_next_ip_def Let_def set_diff_eq split: option.splits)
  then obtain i where i: "i < length ?hosts - r" "ip_str (?hosts ! (r + i)) \<notin> ?used" "ip = ip_str (?hosts ! (r + i))"
    "\<forall>j < i. ip_str (?hosts ! (r + j)) \<in> ?used"
    by (auto simp: find_Some_iff)
  have "ip \<notin> py_strip ` set used" using i(2,3) ip_str_plain(2) by (auto simp: py_strip_def)
  moreover have "ip_str (?hosts ! j) \<in> py_strip ` set used" if "r \<le> j" "j < r + i" for j
  proof -
    have "j - r < i" using that by arith
    with i(4) that have "ip_str (?hosts ! (r + (j - r))) \<in> ?used" by blast
    then show ?thesis using that(1) by auto
  qed
  ultimately show ?thesis using i(1,3) by (intro exI [of _ "r + i"]) auto
qed

section \<open>No two nodes share an address\<close>

definition addresses_ok :: "db \<Rightarrow> bool" where
  "addresses_ok s \<longleftrightarrow> ids_ok (nodes s) \<and>
     (\<forall>m \<in> set (nodes s). \<forall>n \<in> set (nodes s). row_id m \<noteq> row_id n \<longrightarrow>
        py_strip (internal_wg_ip m) = py_strip (internal_wg_ip n) \<longrightarrow> py_strip (internal_wg_ip m) = [])"

lemma addresses_ok_update:
  assumes "addresses_ok s" "\<And>n. row_id (f n) = row_id n"
    and "\<And>m. m \<in> set (nodes s) \<Longrightarrow> row_id m \<noteq> i \<Longrightarrow> py_strip (internal_wg_ip m) = py_strip x \<Longrightarrow> py_strip x = []"
    and "\<And>n. n \<in> set (nodes s) \<Longrightarrow> row_id n = i \<Longrightarrow> py_strip (internal_wg_ip (f n)) = py_strip x"
  shows "addresses_ok (s\<lparr>nodes := update_by_id i f (nodes s)\<rparr>)"
proof -
  have "py_strip (internal_wg_ip m) = []"
    if mem: "m \<in> set (update_by_id i f (nodes s))" "n \<in> set (update_by_id i f (nodes s))"
      and "row_id m \<noteq> row_id n" "py_strip (internal_wg_ip m) = py_strip (internal_wg_ip n)" for m n
  proof -
    obtain m0 where m0: "m0 \<in> set (nodes s)" "m = (if row_id m0 = i then f m0 else m0)"
      using mem(1) unfolding update_by_id_def update_where_def set_map by blast
    obtain n0 where n0: "n0 \<in> set (nodes s)" "n = (if row_id n0 = i then f n0 else n0)"
      using mem(2) unfolding update_by_id_def update_where_def set_map by blast
    have "row_id m0 \<noteq> row_id n0" using that(3) m0(2) n0(2) assms(2) by (auto split: if_splits)
    with m0 n0 that(4) assms show ?thesis unfolding addresses_ok_def by (metis (no_types, lifting))
  qed
  moreover have "ids_ok (nodes s)" using assms(1) by (simp add: addresses_ok_def)
  ultimately show ?thesis unfolding addresses_ok_def using assms(2) by simp
qed

lemma sync_pubkey_addresses:
  assumes "sync_pubkey cfg now e s = Inr s'" "addresses_ok s"
  shows "addresses_ok s'"
proof (cases "\<exists>p n. e = Some p \<and> get_by_id (pk_node_id p) (nodes s) = Some n")
  case False
  with assms show ?thesis by (auto simp: sync_pubkey_def split: option.splits)
next
  case True
  then obtain p n where p: "e = Some p" "get_by_id (pk_node_id p) (nodes s) = Some n" by blast
  note n = get_by_id_Some [OF p(2)]
  have ids: "ids_ok (nodes s)" using assms(2) by (simp add: addresses_ok_def)
  obtain address where a: "(if py_strip (internal_wg_ip n) \<noteq> [] then Inr (py_strip (internal_wg_ip n))
      else allocate_next_ip (mesh_net cfg) (current_used (row_id n) (nodes s)) 1) = Inr address"
    and s': "s' = s \<or> s' = s\<lparr>nodes := update_by_id (row_id n)
         (\<lambda>n. n\<lparr>wg_public_key := Some (pk_public_key p), wg_listen_port := Some (pk_listen_port p),
                internal_wg_ip := address, updated_at := now\<rparr>) (nodes s)\<rparr>"
    using assms(1) p by (auto simp: sync_pubkey_def split: sum.splits if_splits)
  have free: "py_strip address = []"
    if "m \<in> set (nodes s)" "row_id m \<noteq> row_id n" "py_strip (internal_wg_ip m) = py_strip address" for m
  proof (cases "py_strip (internal_wg_ip n) = []")
    case False
    with a have "address = py_strip (internal_wg_ip n)" by simp
    then show ?thesis using assms(2) that n by (metis addresses_ok_def py_strip_idem)
  next
    case True
    with a have "allocate_next_ip (mesh_net cfg) (current_used (row_id n) (nodes s)) 1 = Inr address" by simp
    from allocate_next_ip_Inr [OF this] obtain k where
      k: "address = ip_str k" "address \<notin> py_strip ` set (current_used (row_id n) (nodes s))" by blast
    then have "py_strip address = address" "address \<noteq> []" by (simp_all add: ip_str_plain)
    with that k(2) show ?thesis by (auto simp: current_used_def)
  qed
  show ?thesis
    using s'
  proof
    assume "s' = s"
    with assms(2) show ?thesis by simp
  next
    assume s': "s' = s\<lparr>nodes := update_by_id (row_id n)
         (\<lambda>n. n\<lparr>wg_public_key := Some (pk_public_key p), wg_listen_port := Some (pk_listen_port p),
                internal_wg_ip := address, updated_at := now\<rparr>) (nodes s)\<rparr>"
    show ?thesis unfolding s'
      by (rule addresses_ok_update [OF assms(2), where x = address]) (use free in auto)
  qed
qed

lemma sync_pubkeys_addresses:
  "sync_pubkeys_from_kv cfg now es s = Inr s' \<Longrightarrow> addresses_ok s \<Longrightarrow> addresses_ok s'"
  by (induction es arbitrary: s) (auto split: sum.splits dest: sync_pubkey_addresses)

section \<open>What the publisher publishes\<close>

text \<open>A remembered signature is that of what the bucket holds.\<close>

definition pub_ok :: "(normalized \<Rightarrow> string) \<Rightarrow> publisher \<Rightarrow> bool" where
  "pub_ok sha p \<longleftrightarrow>
     (\<forall>i sig. pub_signatures p i = Some sig \<longrightarrow> (\<exists>q. pub_kv p i = Some q \<and> sha (normalize_payload q) = sig))"

definition in_mesh :: "vpn_node \<Rightarrow> bool" where
  "in_mesh n \<longleftrightarrow> truthy (wg_public_key n) \<and> py_strip (internal_wg_ip n) \<noteq> []"

definition published_current :: "(normalized \<Rightarrow> string) \<Rightarrow> wg_config \<Rightarrow> vpn_node list \<Rightarrow> publisher \<Rightarrow> vpn_node \<Rightarrow> bool" where
  "published_current sha cfg ns p n \<longleftrightarrow>
     (\<exists>q. pub_kv p (row_id n) = Some q \<and> sha (normalize_payload q) = sha (normalize_payload (payload_for cfg ns n)))"

lemma publish_nodes_current:
  assumes "publish_nodes sha kv_ok cfg all_nodes ns p = (None, p')" "pub_ok sha p" "distinct (map row_id ns)"
  shows "pub_ok sha p' \<and> (\<forall>n \<in> set ns. in_mesh n \<longrightarrow> published_current sha cfg all_nodes p' n) \<and>
    (\<forall>i. i \<notin> row_id ` set ns \<longrightarrow> pub_kv p' i = pub_kv p i)"
  using assms
proof (induction ns arbitrary: p)
  case (Cons n ns)
  let ?q = "payload_for cfg all_nodes n"
  let ?sig = "sha (normalize_payload ?q)"
  let ?p1 = "\<lparr>pub_kv = (pub_kv p)(row_id n \<mapsto> ?q), pub_signatures = (pub_signatures p)(row_id n \<mapsto> ?sig)\<rparr>"
  have keep: "published_current sha cfg all_nodes p' n"
    if "pub_kv p' (row_id n) = pub_kv p1 (row_id n)" "published_current sha cfg all_nodes p1 n" for p1
    using that by (simp add: published_current_def)
  consider (out) "\<not> in_mesh n" | (same) "in_mesh n" "pub_signatures p (row_id n) = Some ?sig"
    | (put) "in_mesh n" "pub_signatures p (row_id n) \<noteq> Some ?sig" by blast
  then show ?case
  proof cases
    case out
    with Cons.prems(1) have "publish_nodes sha kv_ok cfg all_nodes ns p = (None, p')"
      by (auto simp: in_mesh_def Let_def split: if_splits)
    from Cons.IH [OF this Cons.prems(2)] Cons.prems(3) out show ?thesis by auto
  next
    case same
    with Cons.prems(1) have run: "publish_nodes sha kv_ok cfg all_nodes ns p = (None, p')"
      by (simp add: in_mesh_def Let_def)
    have "published_current sha cfg all_nodes p n"
      using same(2) Cons.prems(2) by (auto simp: pub_ok_def published_current_def)
    with Cons.IH [OF run Cons.prems(2)] Cons.prems(3) keep [of p] show ?thesis by auto
  next
    case put
    with Cons.prems(1) have run: "publish_nodes sha kv_ok cfg all_nodes ns ?p1 = (None, p')"
      by (auto simp: in_mesh_def Let_def split: if_splits)
    have "pub_ok sha ?p1" using Cons.prems(2) by (auto simp: pub_ok_def)
    moreover have "published_current sha cfg all_nodes ?p1 n" by (simp add: published_current_def)
    ultimately show ?thesis using Cons.IH [OF run] Cons.prems(3) keep [of ?p1] by auto
  qed
qed simp


definition mesh_config :: wg_config where
  "mesh_config = \<lparr>mesh_net = \<lparr>net_address = 168427520, net_prefixlen = 29\<rparr>, listen_port = 51820\<rparr>"

definition mesh_node :: "uuid \<Rightarrow> string \<Rightarrow> string \<Rightarrow> string \<Rightarrow> string \<Rightarrow> string option \<Rightarrow> vpn_node" where
  "mesh_node i name r ip public key =
     \<lparr>row_id = i, created_at = 0, updated_at = 0, is_active = True, node_name = name, role = r, region = ''nl'',
      public_domain = '''', reality_ip = Some public, internal_wg_ip = ip, node_key = None, xray_api_port = 10085,
      auth_token_hash = '''', agent_port = 9000, is_enabled = True, is_draining = False, is_virtual = False,
      drain_source = None, capacity = 100, zone = None, upstream_node_id = None, bootstrap_token_expires_at = None,
      bootstrapped_at = None, wg_public_key = key, wg_listen_port = None\<rparr>"

definition mesh_db :: db where
  "mesh_db = empty_db\<lparr>nodes := [mesh_node 1 ''b1'' ''backend'' ''10.10.0.2'' ''1.1.1.1'' (Some ''kb''),
     mesh_node 2 ''e1'' ''entry'' '''' ''2.2.2.2'' None]\<rparr>"

definition mesh_digest :: "normalized \<Rightarrow> string" where
  "mesh_digest = (\<lambda>(a, _, ps). a @ concat (map fst ps))"

lemma mesh_sync:
  "sync_pubkeys_from_kv mesh_config 5 [Some \<lparr>pk_node_id = 2, pk_public_key = ''ke'', pk_listen_port = 51820\<rparr>] mesh_db =
     Inr (mesh_db\<lparr>nodes := [mesh_node 1 ''b1'' ''backend'' ''10.10.0.2'' ''1.1.1.1'' (Some ''kb''),
       (mesh_node 2 ''e1'' ''entry'' ''10.10.0.3'' ''2.2.2.2'' (Some ''ke''))\<lparr>wg_listen_port := Some 51820, updated_at := 5\<rparr>]\<rparr>)"
  by (simp add: sync_pubkey_def mesh_db_def mesh_node_def get_by_id_def py_strip_def is_space_def current_used_def
      allocate_next_ip_def mesh_config_def net_hosts_def net_first_def net_size_def ip_str_def octet_def decimal.simps
      digit_char_def update_by_id_def)


text \<open>
  The signature leaves out where a peer listens: when a node moves from one public address to
  another, every other node's signature stays, and what the bucket holds for them keeps the old
  address.
\<close>

lemma sort_key_map_same: "(\<And>x. k (g x) = k x) \<Longrightarrow> sort_key k (map g xs) = map g (sort_key k xs)"
proof (induction xs)
  case (Cons x xs)
  have "insort_key k (g x) (map g ys) = map g (insort_key k x ys)" for ys
    by (induction ys) (simp_all add: Cons.prems)
  with Cons show ?case by simp
qed simp

definition move_node :: "uuid \<Rightarrow> string \<Rightarrow> vpn_node \<Rightarrow> vpn_node" where
  "move_node i addr n = (if row_id n = i then n\<lparr>reality_ip := Some addr\<rparr> else n)"

definition move_peer :: "uuid \<Rightarrow> string \<Rightarrow> wg_peer \<Rightarrow> wg_peer" where
  "move_peer i addr q = (if wp_node_id q = i then q\<lparr>wp_endpoint := py_strip addr\<rparr> else q)"

lemma peer_of_move:
  assumes "py_strip addr \<noteq> []" "row_id n = i \<Longrightarrow> node_endpoint n \<noteq> []"
  shows "peer_of cfg (move_node i addr n) = map_option (move_peer i addr) (peer_of cfg n)"
proof -
  have "addr \<noteq> []" using assms(1) by (auto simp: py_strip_def)
  then show ?thesis using assms
    by (simp add: move_node_def peer_of_def mesh_ip_or_none_def node_endpoint_def move_peer_def Let_def split: option.split)
qed

lemma endpoint_change_not_published:
  assumes "py_strip addr \<noteq> []" "\<And>n. n \<in> set ns \<Longrightarrow> row_id n = i \<Longrightarrow> node_endpoint n \<noteq> []" "row_id n \<noteq> i"
  shows "mp_peers (payload_for cfg (map (move_node i addr) ns) n) = map (move_peer i addr) (mp_peers (payload_for cfg ns n))"
    and "normalize_payload (payload_for cfg (map (move_node i addr) ns) n) = normalize_payload (payload_for cfg ns n)"
proof -
  have same: "row_id (move_node i addr m) = row_id m" "role (move_node i addr m) = role m" for m
    by (simp_all add: move_node_def)
  let ?ok = "\<lambda>m. row_id m \<noteq> row_id n \<and> may_peer (role n) (role m)"
  have "List.map_filter (peer_of cfg) (filter ?ok (map (move_node i addr) ns)) =
      map (move_peer i addr) (List.map_filter (peer_of cfg) (filter ?ok ns))"
    using assms(2)
  proof (induction ns)
    case (Cons m ns)
    then show ?case
      using peer_of_move [OF assms(1), of m i cfg] by (simp add: List.map_filter_simps same split: option.split)
  qed (simp add: List.map_filter_simps)
  then have peers: "build_peers cfg (map (move_node i addr) ns) n = map (move_peer i addr) (build_peers cfg ns n)"
    by (simp add: build_peers_def sort_key_map_same move_peer_def)
  then show "mp_peers (payload_for cfg (map (move_node i addr) ns) n) = map (move_peer i addr) (mp_peers (payload_for cfg ns n))"
    by (simp add: payload_for_def)
  have "(\<lambda>q. (wp_public_key q, wp_address q)) \<circ> move_peer i addr = (\<lambda>q. (wp_public_key q, wp_address q))"
    by (auto simp: move_peer_def)
  with peers show "normalize_payload (payload_for cfg (map (move_node i addr) ns) n) = normalize_payload (payload_for cfg ns n)"
    by (simp add: normalize_payload_def payload_for_def)
qed

end
