(* ===== verification/Node_Admin.thy ===== *)
theory Node_Admin
  imports Node_Heartbeat Wg_Mesh Node_Display
begin

text \<open>
  The life of a node in the registry: bootstrap of an agent (\<open>initial\<close>) and the administrator's
  operations of \<open>services/nodes/service.py\<close>, the repositories of \<open>services/nodes/repository.py\<close> they
  use, the node endpoints of \<open>services/nodes/router.py\<close>, and the authentication of agents and
  installers (\<open>services/auth/dependencies.py\<close>, \<open>services/nodes/auth_utils.py\<close>).

  The raw tokens drawn by \<open>secrets\<close> and the digest of a token are parameters.
\<close>

section \<open>VpnNodeRepository and NodeAgentIdentityRepository\<close>

definition list_by_internal_ip :: "string \<Rightarrow> db \<Rightarrow> vpn_node list" where
  "list_by_internal_ip ip s = sort_key (\<lambda>n. - updated_at n) (filter (\<lambda>n. internal_wg_ip n = ip) (nodes s))"

definition get_by_node_key :: "string \<Rightarrow> db \<Rightarrow> vpn_node option" where
  "get_by_node_key k s = get_one_by (\<lambda>n. node_key n = Some k) (nodes s)"

definition list_used_wg_ips :: "db \<Rightarrow> string list" where
  "list_used_wg_ips s = filter (\<lambda>a. a \<noteq> []) (map (\<lambda>n. py_strip (internal_wg_ip n)) (nodes s))"

definition get_by_node_and_instance :: "uuid \<Rightarrow> uuid \<Rightarrow> db \<Rightarrow> node_agent_identity option" where
  "get_by_node_and_instance node inst s =
     get_one_by (\<lambda>i. nai_node_id i = node \<and> agent_instance_id i = inst) (identities s)"

definition new_identity :: "time \<Rightarrow> uuid \<Rightarrow> uuid \<Rightarrow> uuid \<Rightarrow> string \<Rightarrow> bool \<Rightarrow> node_agent_identity" where
  "new_identity now i node inst token_hash resync =
     \<lparr>row_id = i, created_at = now, updated_at = now, is_active = True, nai_node_id = node, agent_instance_id = inst,
      nai_auth_token_hash = token_hash, prev_auth_token_hash = None, prev_auth_token_valid_until = None,
      full_resync_required = resync, last_bootstrap_at = Some now\<rparr>"

definition upsert_token :: "time \<Rightarrow> uuid \<Rightarrow> uuid \<Rightarrow> string \<Rightarrow> time \<Rightarrow> bool \<Rightarrow> db \<Rightarrow> db" where
  "upsert_token now node inst token_hash prev_valid_until resync s =
     (if get_by_node_and_instance node inst s = None
      then let (i, s1) = uuid4 s in
           s1\<lparr>identities := create_row (new_identity now i node inst token_hash resync) (identities s1)\<rparr>
      else s\<lparr>identities := update_where (\<lambda>i. nai_node_id i = node \<and> agent_instance_id i = inst)
               (\<lambda>i. i\<lparr>prev_auth_token_hash := Some (nai_auth_token_hash i), prev_auth_token_valid_until := Some prev_valid_until,
                      nai_auth_token_hash := token_hash, full_resync_required := resync, last_bootstrap_at := Some now,
                      updated_at := now\<rparr>) (identities s)\<rparr>)"

definition get_by_instance_and_token_hash :: "uuid \<Rightarrow> string \<Rightarrow> db \<Rightarrow> node_agent_identity option" where
  "get_by_instance_and_token_hash inst token_hash s =
     (case filter (\<lambda>i. agent_instance_id i = inst \<and>
                    (nai_auth_token_hash i = token_hash \<or> prev_auth_token_hash i = Some token_hash)) (identities s) of
        [i] \<Rightarrow> Some i
      | _ \<Rightarrow> None)"

text \<open>\<open>scalar_one_or_none\<close> on a column that is not unique raises when two rows match.\<close>

definition get_by_auth_token_hash :: "string \<Rightarrow> db \<Rightarrow> vpn_node option result" where
  "get_by_auth_token_hash h s =
     (case filter (\<lambda>n. auth_token_hash n = h) (nodes s) of
        [] \<Rightarrow> Inr None
      | [n] \<Rightarrow> Inr (Some n)
      | _ \<Rightarrow> Inl (RuntimeError ''MultipleResultsFound''))"

text \<open>Insert and update of nodes with the unique columns \<open>name\<close> and \<open>node_key\<close>.\<close>

definition node_unique_ok :: "vpn_node list \<Rightarrow> bool" where
  "node_unique_ok t \<longleftrightarrow>
     distinct (map node_name t) \<and> distinct (map node_key (filter (\<lambda>n. node_key n \<noteq> None) t))"

definition update_node :: "uuid \<Rightarrow> (vpn_node \<Rightarrow> vpn_node) \<Rightarrow> db \<Rightarrow> db result" where
  "update_node i f s =
     (let t = update_by_id i f (nodes s) in
      if node_unique_ok t then Inr (s\<lparr>nodes := t\<rparr>) else Inl (IntegrityError ''vpn_node''))"

definition insert_node :: "vpn_node \<Rightarrow> db \<Rightarrow> db result" where
  "insert_node n s =
     (let t = create_row n (nodes s) in
      if node_unique_ok t then Inr (s\<lparr>nodes := t\<rparr>) else Inl (IntegrityError ''vpn_node''))"

section \<open>Bootstrap of an agent\<close>

definition ALLOWED_NODE_ROLES :: "string list" where
  "ALLOWED_NODE_ROLES = [''backend'', ''entry'', ''whitelist_entry'']"

definition normalize_bootstrap_node_role :: "string option \<Rightarrow> string" where
  "normalize_bootstrap_node_role r =
     (case r of None \<Rightarrow> ''backend'' | Some x \<Rightarrow> if x \<in> set ALLOWED_NODE_ROLES then x else ''backend'')"

definition allocate_wg_ip :: "ipv4_network \<Rightarrow> db \<Rightarrow> string result" where
  "allocate_wg_ip net s =
     (case allocate_next_ip net (list_used_wg_ips s) 1 of
        Inl _ \<Rightarrow> Inl (ConflictError ''no free addresses left'')
      | Inr ip \<Rightarrow> Inr ip)"

definition build_node_name :: "string \<Rightarrow> string \<Rightarrow> string" where
  "build_node_name source_ip key =
     take 64 (''node-'' @ map (\<lambda>c. if c = CHR ''.'' then CHR ''-'' else c) source_ip @ ''-'' @ take 8 key)"

definition new_node ::
  "time \<Rightarrow> uuid \<Rightarrow> string \<Rightarrow> string \<Rightarrow> string \<Rightarrow> string \<Rightarrow> string option \<Rightarrow> string \<Rightarrow> string option \<Rightarrow> string \<Rightarrow> int
   \<Rightarrow> string option \<Rightarrow> time option \<Rightarrow> vpn_node" where
  "new_node now i name r reg domain_name reality wg key token_hash cap z expires =
     \<lparr>row_id = i, created_at = now, updated_at = now, is_active = True, node_name = name, role = r, region = reg,
      public_domain = domain_name, reality_ip = reality, internal_wg_ip = wg, node_key = key, xray_api_port = 10085,
      auth_token_hash = token_hash, agent_port = 9000, is_enabled = True, is_draining = False, is_virtual = False,
      drain_source = None, capacity = cap, zone = z, upstream_node_id = None, bootstrap_token_expires_at = expires,
      bootstrapped_at = None, wg_public_key = None, wg_listen_port = None\<rparr>"

text \<open>A node the administrator created under the agent's key as its name, and not claimed yet.\<close>

definition claim_by_name :: "ipv4_network \<Rightarrow> time \<Rightarrow> string \<Rightarrow> db \<Rightarrow> (uuid option \<times> db) result" where
  "claim_by_name net now key s =
     (case get_one_by (\<lambda>n. node_name n = key) (nodes s) of
        None \<Rightarrow> Inr (None, s)
      | Some c \<Rightarrow>
          if node_key c \<noteq> None then Inr (None, s)
          else case (if py_strip (internal_wg_ip c) = [] then allocate_wg_ip net s else Inr (internal_wg_ip c)) of
                 Inl e \<Rightarrow> Inl e
               | Inr ip \<Rightarrow>
                   (case update_node (row_id c)
                           (\<lambda>n. n\<lparr>node_key := Some key, internal_wg_ip := ip, updated_at := now\<rparr>) s of
                      Inl e \<Rightarrow> Inl e
                    | Inr s1 \<Rightarrow> Inr (Some (row_id c), s1)))"

text \<open>The only node with the address the request came from, whatever key it has.\<close>

definition recover_by_source_ip :: "time \<Rightarrow> string \<Rightarrow> string \<Rightarrow> db \<Rightarrow> (uuid option \<times> db) result" where
  "recover_by_source_ip now source_ip key s =
     (case list_by_internal_ip source_ip s of
        [] \<Rightarrow> Inr (None, s)
      | [n] \<Rightarrow>
          (case update_node (row_id n) (\<lambda>n. n\<lparr>node_key := Some key, updated_at := now\<rparr>) s of
             Inl e \<Rightarrow> Inl e
           | Inr s1 \<Rightarrow> Inr (Some (row_id n), s1))
      | _ \<Rightarrow> Inl (ConflictError ''Ambiguous node recovery''))"

definition find_bootstrap_node :: "ipv4_network \<Rightarrow> time \<Rightarrow> string \<Rightarrow> string \<Rightarrow> db \<Rightarrow> (uuid option \<times> db) result" where
  "find_bootstrap_node net now source_ip key s =
     (case get_by_node_key key s of
        Some n \<Rightarrow> Inr (Some (row_id n), s)
      | None \<Rightarrow>
          (case claim_by_name net now key s of
             Inl e \<Rightarrow> Inl e
           | Inr (Some i, s1) \<Rightarrow> Inr (Some i, s1)
           | Inr (None, s1) \<Rightarrow> recover_by_source_ip now source_ip key s1))"

record bootstrap_config =
  bc_net :: ipv4_network
  bc_allow_create :: bool
  bc_rotation_grace_sec :: int

record initial_out =
  io_node_id :: uuid
  io_node_auth_token :: string
  io_agent_instance_id :: uuid

definition initial ::
  "bootstrap_config \<Rightarrow> (string \<Rightarrow> string) \<Rightarrow> time \<Rightarrow> string \<Rightarrow> string \<Rightarrow> string \<Rightarrow> string option \<Rightarrow> uuid \<Rightarrow> db
   \<Rightarrow> (initial_out \<times> db) result" where
  "initial cfg sha now raw_token source_ip key_in role_in inst s =
     (let key = py_strip key_in in
      if key = [] then Inl (ValueError ''node_key cannot be empty'')
      else case find_bootstrap_node (bc_net cfg) now source_ip key s of
             Inl e \<Rightarrow> Inl e
           | Inr (found, s1) \<Rightarrow>
               let token_hash = sha raw_token;
                   valid_until = now + usec (max 0 (bc_rotation_grace_sec cfg));
                   issue = (\<lambda>node s2. Inr (\<lparr>io_node_id = node, io_node_auth_token = raw_token, io_agent_instance_id = inst\<rparr>,
                              upsert_token now node inst token_hash valid_until True s2))
               in case found of
                    Some i \<Rightarrow> issue i s1
                  | None \<Rightarrow>
                      if \<not> bc_allow_create cfg then Inl (ConflictError ''Unknown node identity and auto-create is disabled'')
                      else case allocate_wg_ip (bc_net cfg) s1 of
                             Inl e \<Rightarrow> Inl e
                           | Inr ip \<Rightarrow>
                               let (i, s2) = uuid4 s1;
                                   n = new_node now i (build_node_name source_ip key) (normalize_bootstrap_node_role role_in)
                                         ''unknown'' '''' None ip (Some key) token_hash 100 None None
                               in (case insert_node n s2 of Inl e \<Rightarrow> Inl e | Inr s3 \<Rightarrow> issue i s3))"

text \<open>The endpoint: the headers are checked, and a conflict is reported as 409.\<close>

definition initial_endpoint ::
  "bootstrap_config \<Rightarrow> (string \<Rightarrow> string) \<Rightarrow> time \<Rightarrow> string \<Rightarrow> string \<Rightarrow> string option \<Rightarrow> string option \<Rightarrow> uuid option \<Rightarrow> db
   \<Rightarrow> (initial_out \<times> db) result" where
  "initial_endpoint cfg sha now raw_token source_ip x_node_key x_node_role x_inst s =
     (if source_ip = [] then Inl (HTTPException 400 ''Cannot determine source IP'')
      else if \<not> truthy x_node_key then Inl (HTTPException 400 ''X-Node-Key header required'')
      else case x_inst of
             None \<Rightarrow> Inl (HTTPException 400 ''X-Agent-Instance-ID header required'')
           | Some inst \<Rightarrow>
               if (case x_node_role of None \<Rightarrow> False | Some r \<Rightarrow> r \<notin> set ALLOWED_NODE_ROLES)
               then Inl (HTTPException 400 ''X-Node-Role'')
               else case initial cfg sha now raw_token source_ip (the x_node_key) x_node_role inst s of
                      Inl (ConflictError d) \<Rightarrow> Inl (HTTPException 409 d)
                    | r \<Rightarrow> r)"

section \<open>Authentication of agents and installers\<close>

definition identity_accepts_token :: "node_agent_identity \<Rightarrow> string \<Rightarrow> time \<Rightarrow> bool" where
  "identity_accepts_token i token_hash now =
     (if nai_auth_token_hash i = token_hash then True
      else if \<not> truthy (prev_auth_token_hash i) \<or> prev_auth_token_hash i \<noteq> Some token_hash then False
      else case prev_auth_token_valid_until i of None \<Rightarrow> False | Some t \<Rightarrow> t \<ge> now)"

definition node_auth ::
  "(string \<Rightarrow> string) \<Rightarrow> time \<Rightarrow> uuid option \<Rightarrow> uuid option \<Rightarrow> string option \<Rightarrow> db \<Rightarrow> vpn_node result" where
  "node_auth sha now x_node_id x_inst credentials s =
     (case credentials of
        None \<Rightarrow> Inl (HTTPException 401 ''Authorization header required'')
      | Some cred \<Rightarrow>
          (case x_inst of
             None \<Rightarrow> Inl (HTTPException 401 ''X-Agent-Instance-ID header required'')
           | Some inst \<Rightarrow>
               let token_hash = sha (py_strip cred);
                   by_id = Option.bind x_node_id (\<lambda>i. Option.bind (get_by_id i (nodes s)) (\<lambda>n.
                     Option.bind (get_by_node_and_instance (row_id n) inst s) (\<lambda>ident.
                       if identity_accepts_token ident token_hash now then Some n else None)))
               in case by_id of
                    Some n \<Rightarrow> Inr n
                  | None \<Rightarrow>
                      (case get_by_instance_and_token_hash inst token_hash s of
                         None \<Rightarrow> Inl (HTTPException 401 ''Invalid node token'')
                       | Some ident \<Rightarrow>
                           if \<not> identity_accepts_token ident token_hash now then Inl (HTTPException 401 ''Invalid node token'')
                           else (case get_by_id (nai_node_id ident) (nodes s) of
                                   None \<Rightarrow> Inl (HTTPException 401 ''Invalid node token'')
                                 | Some n \<Rightarrow> Inr n))))"

definition node_install_auth ::
  "(string \<Rightarrow> string) \<Rightarrow> time \<Rightarrow> string option \<Rightarrow> string option \<Rightarrow> db \<Rightarrow> (vpn_node \<times> string) result" where
  "node_install_auth sha now credentials token s =
     (let raw = (if truthy credentials then py_strip (the credentials)
                 else if truthy token then py_strip (the token) else []) in
      if raw = [] then Inl (HTTPException 401 ''Bootstrap token required'')
      else case get_by_auth_token_hash (sha raw) s of
             Inl e \<Rightarrow> Inl e
           | Inr None \<Rightarrow> Inl (HTTPException 401 ''Invalid bootstrap token'')
           | Inr (Some n) \<Rightarrow>
               if \<not> is_active n then Inl (HTTPException 401 ''Invalid bootstrap token'')
               else if bootstrapped_at n \<noteq> None then Inl (HTTPException 409 ''Node already bootstrapped'')
               else if (case bootstrap_token_expires_at n of None \<Rightarrow> False | Some t \<Rightarrow> t \<le> now)
               then Inl (HTTPException 401 ''Bootstrap token expired'')
               else Inr (n, raw))"

section \<open>The administrator\<close>

definition validated_zone :: "string option \<Rightarrow> string option result" where
  "validated_zone raw =
     (case raw of
        None \<Rightarrow> Inr None
      | Some z \<Rightarrow>
          let candidate = py_lower (py_strip z) in
          if candidate = [] then Inr None
          else if candidate \<notin> set VALID_ZONES then Inl (ValueError ''zone'')
          else Inr (Some candidate))"

record admin_node_create =
  anc_name :: string
  anc_role :: string
  anc_region :: string
  anc_public_domain :: string
  anc_reality_ip :: "string option"
  anc_internal_wg_ip :: string
  anc_capacity :: int
  anc_zone :: "string option"

definition admin_create_node ::
  "(string \<Rightarrow> string) \<Rightarrow> int \<Rightarrow> time \<Rightarrow> string \<Rightarrow> admin_node_create \<Rightarrow> db \<Rightarrow> (vpn_node \<times> db) result" where
  "admin_create_node sha ttl now raw_token p s =
     (let r = py_strip (anc_role p); name = py_strip (anc_name p) in
      if r \<notin> set ALLOWED_NODE_ROLES then Inl (ValueError ''role'')
      else if name = [] then Inl (ValueError ''name is required'')
      else if get_one_by (\<lambda>n. node_name n = name) (nodes s) \<noteq> None then Inl (ValueError ''name already exists'')
      else case validated_zone (anc_zone p) of
             Inl e \<Rightarrow> Inl e
           | Inr z \<Rightarrow>
               let (i, s1) = uuid4 s;
                   reg = py_strip (anc_region p);
                   reality = (case anc_reality_ip p of None \<Rightarrow> [] | Some x \<Rightarrow> py_strip x);
                   n = new_node now i name r (if reg = [] then ''unknown'' else reg) (py_strip (anc_public_domain p))
                         (if reality = [] then None else Some reality) (py_strip (anc_internal_wg_ip p)) None
                         (sha raw_token) (anc_capacity p) z (Some (now + usec ttl))
               in (case insert_node n s1 of Inl e \<Rightarrow> Inl e | Inr s2 \<Rightarrow> Inr (n, s2)))"

definition admin_rotate_bootstrap_token ::
  "(string \<Rightarrow> string) \<Rightarrow> int \<Rightarrow> time \<Rightarrow> string \<Rightarrow> uuid \<Rightarrow> db \<Rightarrow> (time \<times> db) result" where
  "admin_rotate_bootstrap_token sha ttl now raw_token i s =
     (case get_by_id i (nodes s) of
        None \<Rightarrow> Inl (LookupError ''node not found'')
      | Some n \<Rightarrow>
          if \<not> is_active n then Inl (LookupError ''node not found'')
          else if bootstrapped_at n \<noteq> None then Inl (ValueError ''already bootstrapped'')
          else let expires = now + usec ttl in
               Inr (expires, s\<lparr>nodes := update_by_id i
                 (\<lambda>n. n\<lparr>auth_token_hash := sha raw_token, bootstrap_token_expires_at := Some expires, updated_at := now\<rparr>)
                 (nodes s)\<rparr>))"

definition mark_bootstrapped :: "time \<Rightarrow> uuid \<Rightarrow> db \<Rightarrow> db" where
  "mark_bootstrapped now i s =
     s\<lparr>nodes := update_by_id i (\<lambda>n. n\<lparr>bootstrapped_at := Some now, bootstrap_token_expires_at := None, updated_at := now\<rparr>)
         (nodes s)\<rparr>"

text \<open>The callback of the installer.\<close>

definition bootstrap_complete ::
  "(string \<Rightarrow> string) \<Rightarrow> time \<Rightarrow> string option \<Rightarrow> string option \<Rightarrow> db \<Rightarrow> (uuid \<times> db) result" where
  "bootstrap_complete sha now credentials token s =
     (case node_install_auth sha now credentials token s of
        Inl e \<Rightarrow> Inl e
      | Inr (n, _) \<Rightarrow> Inr (row_id n, mark_bootstrapped now (row_id n) s))"

text \<open>
  A partial update; a field given as \<open>null\<close> for a column that may not be null violates the
  column's constraint.
\<close>

record admin_node_update =
  anu_name :: "string option field"
  anu_role :: "string option field"
  anu_region :: "string option field"
  anu_public_domain :: "string option field"
  anu_reality_ip :: "string option field"
  anu_upstream_node_id :: "uuid option field"
  anu_capacity :: "int option field"
  anu_zone :: "string option field"
  anu_is_enabled :: "bool option field"
  anu_is_draining :: "bool option field"

definition set_field :: "'a field \<Rightarrow> 'a \<Rightarrow> 'a" where
  "set_field f old = (case f of Unset \<Rightarrow> old | Given v \<Rightarrow> v)"

definition set_required :: "'a option field \<Rightarrow> 'a \<Rightarrow> 'a" where
  "set_required f old = (case f of Given (Some v) \<Rightarrow> v | _ \<Rightarrow> old)"

definition null_given :: "'a option field \<Rightarrow> bool" where
  "null_given f \<longleftrightarrow> f = Given None"

definition apply_node_update :: "time \<Rightarrow> admin_node_update \<Rightarrow> vpn_node \<Rightarrow> vpn_node" where
  "apply_node_update now u n =
     n\<lparr>node_name := set_required (anu_name u) (node_name n), role := set_required (anu_role u) (role n),
       region := set_required (anu_region u) (region n), public_domain := set_required (anu_public_domain u) (public_domain n),
       reality_ip := set_field (anu_reality_ip u) (reality_ip n),
       upstream_node_id := set_field (anu_upstream_node_id u) (upstream_node_id n),
       capacity := set_required (anu_capacity u) (capacity n), zone := set_field (anu_zone u) (zone n),
       is_enabled := set_required (anu_is_enabled u) (is_enabled n),
       is_draining := set_required (anu_is_draining u) (is_draining n), updated_at := now\<rparr>"

definition nulls_given :: "admin_node_update \<Rightarrow> bool" where
  "nulls_given u \<longleftrightarrow>
     null_given (anu_name u) \<or> null_given (anu_role u) \<or> null_given (anu_region u) \<or> null_given (anu_public_domain u) \<or>
     null_given (anu_capacity u) \<or> null_given (anu_is_enabled u) \<or> null_given (anu_is_draining u)"

text \<open>What is left of a node that stops being a backend.\<close>

definition role_swap_cleanup :: "time \<Rightarrow> uuid \<Rightarrow> string \<Rightarrow> db \<Rightarrow> db" where
  "role_swap_cleanup now i reason s =
     (let (affected, s1) = deactivate_placements_on_node now i reason s;
          s2 = s1\<lparr>route_assignments := delete_where (\<lambda>a. sra_entry_node_id a = i) (route_assignments s1)\<rparr>
      in if affected = [] then s2 else enqueue_for_placement_ids now affected s2)"

definition admin_update_node :: "time \<Rightarrow> uuid \<Rightarrow> admin_node_update \<Rightarrow> db \<Rightarrow> (vpn_node option \<times> db) result" where
  "admin_update_node now i u s =
     (case get_by_id i (nodes s) of
        None \<Rightarrow> Inl (LookupError ''node not found'')
      | Some n \<Rightarrow>
          if nulls_given u then Inl (IntegrityError ''NOT NULL'')
          else case update_node i (apply_node_update now u) s of
                 Inl e \<Rightarrow> Inl e
               | Inr s1 \<Rightarrow>
                   let new_role = set_required (anu_role u) (role n);
                       s2 = (if role n = ''backend'' \<and> new_role \<noteq> ''backend''
                             then role_swap_cleanup now i (''role_swap:'' @ role n @ ''->'' @ new_role) s1 else s1)
                   in Inr (get_by_id i (nodes s2), s2))"

text \<open>The endpoint: it validates the zone, and answers 404 for an unknown node.\<close>

definition update_node_by_id :: "time \<Rightarrow> uuid \<Rightarrow> admin_node_update \<Rightarrow> db \<Rightarrow> (vpn_node option \<times> db) result" where
  "update_node_by_id now i u s =
     (case (case anu_zone u of
              Unset \<Rightarrow> Inr u
            | Given z \<Rightarrow> (case validated_zone z of Inl e \<Rightarrow> Inl e | Inr z' \<Rightarrow> Inr (u\<lparr>anu_zone := Given z'\<rparr>))) of
        Inl e \<Rightarrow> Inl (HTTPException 422 ''zone'')
      | Inr u' \<Rightarrow>
          (case admin_update_node now i u' s of
             Inl (LookupError d) \<Rightarrow> Inl (HTTPException 404 d)
           | r \<Rightarrow> r))"

definition drain_node :: "int \<Rightarrow> time \<Rightarrow> uuid \<Rightarrow> db \<Rightarrow> db result" where
  "drain_node port now i s =
     (case get_by_id i (nodes s) of
        None \<Rightarrow> Inl (HTTPException 404 ''Node not found'')
      | Some n \<Rightarrow>
          announce_backend port now n (s\<lparr>nodes := update_by_id i
            (\<lambda>n. n\<lparr>is_draining := True, drain_source := Some ''admin'', updated_at := now\<rparr>) (nodes s)\<rparr>))"

definition enable_node :: "int \<Rightarrow> time \<Rightarrow> uuid \<Rightarrow> db \<Rightarrow> db result" where
  "enable_node port now i s =
     (case get_by_id i (nodes s) of
        None \<Rightarrow> Inl (HTTPException 404 ''Node not found'')
      | Some n \<Rightarrow>
          announce_backend port now n (s\<lparr>nodes := update_by_id i
            (\<lambda>n. n\<lparr>is_draining := False, is_enabled := True, drain_source := None, updated_at := now\<rparr>) (nodes s)\<rparr>))"

section \<open>Bootstrap\<close>

lemma update_node_Inr: "update_node i f s = Inr s' \<longleftrightarrow> s' = s\<lparr>nodes := update_by_id i f (nodes s)\<rparr> \<and> node_unique_ok (nodes s')"
  by (auto simp: update_node_def Let_def)

lemma insert_node_Inr: "insert_node n s = Inr s' \<longleftrightarrow> s' = s\<lparr>nodes := create_row n (nodes s)\<rparr> \<and> node_unique_ok (nodes s')"
  by (auto simp: insert_node_def Let_def)

definition registry_ok :: "db \<Rightarrow> bool" where
  "registry_ok s \<longleftrightarrow> addresses_ok s \<and> node_unique_ok (nodes s) \<and> below (uuid_supply s) (nodes s)"

lemma registry_ids: "registry_ok s \<Longrightarrow> ids_ok (nodes s)"
  by (simp add: registry_ok_def addresses_ok_def)

lemma used_wg_ips: "n \<in> set (nodes s) \<Longrightarrow> py_strip (internal_wg_ip n) \<noteq> [] \<Longrightarrow> py_strip (internal_wg_ip n) \<in> set (list_used_wg_ips s)"
  by (simp add: list_used_wg_ips_def)

lemma allocate_wg_ip_free:
  assumes "allocate_wg_ip net s = Inr ip" "n \<in> set (nodes s)"
  shows "py_strip ip = ip \<and> ip \<noteq> [] \<and> py_strip (internal_wg_ip n) \<noteq> ip"
proof -
  have "allocate_next_ip net (list_used_wg_ips s) 1 = Inr ip"
    using assms(1) by (simp add: allocate_wg_ip_def split: sum.splits)
  from allocate_next_ip_Inr [OF this] obtain k where
    k: "ip = ip_str k" "ip \<notin> py_strip ` set (list_used_wg_ips s)" by blast
  have "py_strip (internal_wg_ip n) \<noteq> ip"
  proof
    assume eq: "py_strip (internal_wg_ip n) = ip"
    then have "ip \<in> set (list_used_wg_ips s)" using used_wg_ips [OF assms(2)] k(1) by (simp add: ip_str_plain)
    then have "py_strip ip \<in> py_strip ` set (list_used_wg_ips s)" by blast
    with k show False by (simp add: ip_str_plain)
  qed
  with k(1) show ?thesis by (simp add: ip_str_plain)
qed

text \<open>What looking for the node of an agent does: at most it sets the key, and an address where there was none.\<close>

lemma registry_update:
  assumes "registry_ok s" "update_node i f s = Inr s'" "\<And>n. row_id (f n) = row_id n"
    and "\<And>m. m \<in> set (nodes s) \<Longrightarrow> row_id m \<noteq> i \<Longrightarrow> py_strip (internal_wg_ip m) = py_strip x \<Longrightarrow> py_strip x = []"
    and "\<And>n. n \<in> set (nodes s) \<Longrightarrow> row_id n = i \<Longrightarrow> py_strip (internal_wg_ip (f n)) = py_strip x"
  shows "registry_ok s'"
proof -
  have s': "s' = s\<lparr>nodes := update_by_id i f (nodes s)\<rparr>" "node_unique_ok (nodes s')"
    using assms(2) unfolding update_node_Inr by blast+
  have "addresses_ok s'"
    unfolding s'(1) by (rule addresses_ok_update [OF _ assms(3-5)]) (use assms(1) in \<open>simp add: registry_ok_def\<close>)
  with s' assms(1,3) show ?thesis by (simp add: registry_ok_def)
qed

definition has_key :: "uuid \<Rightarrow> string \<Rightarrow> db \<Rightarrow> bool" where
  "has_key i key s \<longleftrightarrow> (\<exists>n. get_by_id i (nodes s) = Some n \<and> node_key n = Some key)"

lemma get_by_node_key_iff:
  assumes "registry_ok s"
  shows "has_key i key s \<longleftrightarrow> (\<exists>n. get_by_node_key key s = Some n \<and> row_id n = i)"
proof
  assume "has_key i key s"
  then obtain n where n: "n \<in> set (nodes s)" "row_id n = i" "node_key n = Some key"
    by (auto simp: has_key_def dest: get_by_id_Some)
  have uniq: "m = n" if "m \<in> set (nodes s)" "node_key m = Some key" for m
  proof -
    have "distinct (map node_key (filter (\<lambda>n. node_key n \<noteq> None) (nodes s)))"
      using assms by (simp add: registry_ok_def node_unique_ok_def)
    from distinct_map_unique [OF this, of m n] that n show ?thesis by simp
  qed
  show "\<exists>n. get_by_node_key key s = Some n \<and> row_id n = i"
  proof (cases "get_by_node_key key s")
    case None
    with n show ?thesis by (auto simp: get_by_node_key_def get_one_by_def find_None_iff)
  next
    case (Some m)
    then have "m \<in> set (nodes s)" "node_key m = Some key"
      by (auto simp: get_by_node_key_def get_one_by_def dest: find_Some_mem)
    with uniq n Some show ?thesis by auto
  qed
next
  assume "\<exists>n. get_by_node_key key s = Some n \<and> row_id n = i"
  then obtain n where "n \<in> set (nodes s)" "row_id n = i" "node_key n = Some key"
    by (auto simp: get_by_node_key_def get_one_by_def dest: find_Some_mem)
  then show "has_key i key s" using registry_ids [OF assms] by (auto simp: has_key_def dest: ids_ok_get)
qed

lemma has_key_update:
  "get_by_id i (nodes s) = Some n \<Longrightarrow> update_node i f s = Inr s' \<Longrightarrow> (\<And>n. row_id (f n) = row_id n) \<Longrightarrow>
   node_key (f n) = Some key \<Longrightarrow> has_key i key s'"
  by (simp add: update_node_Inr has_key_def repo_simps)

lemma claim_by_name_ok:
  assumes "claim_by_name net now key s = Inr (found, s')" "registry_ok s"
  shows "registry_ok s' \<and> identities s' = identities s \<and> (\<forall>i. found = Some i \<longrightarrow> has_key i key s') \<and> (found = None \<longrightarrow> s' = s)"
proof (cases "\<exists>c. get_one_by (\<lambda>n. node_name n = key) (nodes s) = Some c \<and> node_key c = None")
  case False
  with assms show ?thesis by (auto simp: claim_by_name_def split: option.splits if_splits)
next
  case True
  then obtain c where c: "get_one_by (\<lambda>n. node_name n = key) (nodes s) = Some c" "node_key c = None" by blast
  let ?ip = "if py_strip (internal_wg_ip c) = [] then allocate_wg_ip net s else Inr (internal_wg_ip c)"
  let ?f = "\<lambda>ip n. n\<lparr>node_key := Some key, internal_wg_ip := ip, updated_at := now\<rparr>"
  obtain ip where ip: "?ip = Inr ip" and upd: "update_node (row_id c) (?f ip) s = Inr s'" and found: "found = Some (row_id c)"
    using assms(1) c by (auto simp: claim_by_name_def split: sum.splits)
  have mem: "c \<in> set (nodes s)" using c(1) by (auto simp: get_one_by_def dest: find_Some_mem)
  have get: "get_by_id (row_id c) (nodes s) = Some c" using mem registry_ids [OF assms(2)] by (rule ids_ok_get [rotated])
  have "py_strip ip = []" if "m \<in> set (nodes s)" "row_id m \<noteq> row_id c" "py_strip (internal_wg_ip m) = py_strip ip" for m
  proof (cases "py_strip (internal_wg_ip c) = []")
    case True
    then have "allocate_wg_ip net s = Inr ip" using ip by simp
    from allocate_wg_ip_free [OF this that(1)] that(3) show ?thesis by metis
  next
    case False
    then have "ip = internal_wg_ip c" using ip by simp
    with that mem assms(2) show ?thesis unfolding registry_ok_def addresses_ok_def by metis
  qed
  then have "registry_ok s'" by (intro registry_update [OF assms(2) upd, where x = ip]) simp_all
  moreover have "has_key (row_id c) key s'" by (rule has_key_update [OF get upd]) simp_all
  ultimately show ?thesis using upd found by (simp add: update_node_Inr)
qed

lemma recover_by_source_ip_ok:
  assumes "recover_by_source_ip now ip key s = Inr (found, s')" "registry_ok s"
  shows "registry_ok s' \<and> identities s' = identities s \<and> (\<forall>i. found = Some i \<longrightarrow> has_key i key s') \<and> (found = None \<longrightarrow> s' = s)"
proof (cases "\<exists>n. list_by_internal_ip ip s = [n]")
  case False
  with assms show ?thesis by (auto simp: recover_by_source_ip_def split: list.splits)
next
  case True
  then obtain n where n: "list_by_internal_ip ip s = [n]" by blast
  let ?f = "\<lambda>n. n\<lparr>node_key := Some key, updated_at := now\<rparr>"
  have upd: "update_node (row_id n) ?f s = Inr s'" and found: "found = Some (row_id n)"
    using assms(1) n by (auto simp: recover_by_source_ip_def split: sum.splits)
  have "n \<in> set (list_by_internal_ip ip s)" by (simp add: n)
  then have mem: "n \<in> set (nodes s)" by (simp add: list_by_internal_ip_def)
  have get: "get_by_id (row_id n) (nodes s) = Some n" using mem registry_ids [OF assms(2)] by (rule ids_ok_get [rotated])
  have same: "m = n" if "m \<in> set (nodes s)" "row_id m = row_id n" for m
    using ids_ok_unique [OF registry_ids [OF assms(2)] that(1) mem that(2)] .
  have "registry_ok s'"
  proof (rule registry_update [OF assms(2) upd, where x = "internal_wg_ip n"])
    fix m assume "m \<in> set (nodes s)" "row_id m \<noteq> row_id n" "py_strip (internal_wg_ip m) = py_strip (internal_wg_ip n)"
    then show "py_strip (internal_wg_ip n) = []"
      using mem assms(2) unfolding registry_ok_def addresses_ok_def by metis
  qed (use same in auto)
  moreover have "has_key (row_id n) key s'" by (rule has_key_update [OF get upd]) simp_all
  ultimately show ?thesis using upd found by (simp add: update_node_Inr)
qed

lemma find_bootstrap_node_ok:
  assumes "find_bootstrap_node net now ip key s = Inr (found, s')" "registry_ok s"
  shows "registry_ok s' \<and> identities s' = identities s \<and> (\<forall>i. found = Some i \<longrightarrow> has_key i key s') \<and>
    (found = None \<longrightarrow> s' = s \<and> get_by_node_key key s = None)"
proof (cases "get_by_node_key key s")
  case (Some n)
  with assms have "found = Some (row_id n)" "s' = s" by (auto simp: find_bootstrap_node_def)
  moreover have "has_key (row_id n) key s" using get_by_node_key_iff [OF assms(2)] Some by blast
  ultimately show ?thesis using assms(2) by simp
next
  case None
  then obtain f1 s1 where c: "claim_by_name net now key s = Inr (f1, s1)"
    using assms(1) by (auto simp: find_bootstrap_node_def split: sum.splits)
  note c' = claim_by_name_ok [OF c assms(2)]
  show ?thesis
  proof (cases f1)
    case (Some i)
    with assms(1) None c have "found = Some i" "s' = s1" by (auto simp: find_bootstrap_node_def)
    with c' Some show ?thesis by simp
  next
    case f1: None
    with assms(1) None c have "recover_by_source_ip now ip key s1 = Inr (found, s')"
      by (simp add: find_bootstrap_node_def)
    from recover_by_source_ip_ok [OF this] c' f1 None show ?thesis by auto
  qed
qed

lemma upsert_token_frame [simp]:
  "nodes (upsert_token now node inst h t b s) = nodes s" "uuid_supply s \<le> uuid_supply (upsert_token now node inst h t b s)"
  by (simp_all add: upsert_token_def uuid4_def Let_def)

lemma registry_upsert_token: "registry_ok s \<Longrightarrow> registry_ok (upsert_token now node inst h t b s)"
  by (auto simp: registry_ok_def addresses_ok_def intro: below_mono)

lemma has_key_upsert_token [simp]: "has_key i key (upsert_token now node inst h t b s) = has_key i key s"
  by (simp add: has_key_def)

lemma initial_Inr:
  assumes "initial cfg sha now raw ip key role_in inst s = Inr (out, s')" "registry_ok s"
  shows "\<exists>s1. registry_ok s1 \<and> has_key (io_node_id out) (py_strip key) s1 \<and> identities s1 = identities s \<and>
    s' = upsert_token now (io_node_id out) inst (sha raw) (now + usec (max 0 (bc_rotation_grace_sec cfg))) True s1 \<and>
    io_node_auth_token out = raw \<and> io_agent_instance_id out = inst"
proof -
  let ?key = "py_strip key"
  have key: "?key \<noteq> []" using assms(1) by (auto simp: initial_def Let_def)
  obtain found s1 where f: "find_bootstrap_node (bc_net cfg) now ip ?key s = Inr (found, s1)"
    using assms(1) key by (auto simp: initial_def Let_def split: sum.splits)
  note f' = find_bootstrap_node_ok [OF f assms(2)]
  show ?thesis
  proof (cases found)
    case (Some i)
    with assms(1) key f have "io_node_id out = i" "io_node_auth_token out = raw" "io_agent_instance_id out = inst"
      "s' = upsert_token now i inst (sha raw) (now + usec (max 0 (bc_rotation_grace_sec cfg))) True s1"
      by (auto simp: initial_def Let_def)
    with f' Some show ?thesis by blast
  next
    case None
    then have s1: "s1 = s" and new: "get_by_node_key ?key s = None" using f' by simp_all
    obtain wg where wg: "allocate_wg_ip (bc_net cfg) s = Inr wg"
      using assms(1) key f None s1 by (auto simp: initial_def Let_def split: sum.splits if_splits)
    define n where "n = new_node now (uuid_supply s) (build_node_name ip ?key) (normalize_bootstrap_node_role role_in)
        ''unknown'' '''' None wg (Some ?key) (sha raw) 100 None None"
    define s2 where "s2 = s\<lparr>uuid_supply := Suc (uuid_supply s)\<rparr>"
    obtain s3 where s3: "insert_node n s2 = Inr s3" and out: "io_node_id out = uuid_supply s" "io_node_auth_token out = raw"
      "io_agent_instance_id out = inst"
      "s' = upsert_token now (uuid_supply s) inst (sha raw) (now + usec (max 0 (bc_rotation_grace_sec cfg))) True s3"
      using assms(1) key f None s1 wg
      by (auto simp: initial_def Let_def uuid4_def n_def s2_def split: sum.splits if_splits)
    have s3': "s3 = s2\<lparr>nodes := create_row n (nodes s)\<rparr>" "node_unique_ok (create_row n (nodes s))"
      using s3 by (auto simp: insert_node_Inr s2_def)
    have sel: "row_id n = uuid_supply s" "internal_wg_ip n = wg" "node_key n = Some ?key" by (simp_all add: n_def new_node_def)
    have free: "py_strip (internal_wg_ip m) \<noteq> py_strip wg" if "m \<in> set (nodes s)" for m
      using allocate_wg_ip_free [OF wg that] by simp
    have "ids_ok (create_row n (nodes s))"
      using assms(2) by (intro ids_ok_create_fresh [of "nodes s" "uuid_supply s" n])
        (simp_all add: registry_ok_def addresses_ok_def sel)
    with assms(2) have "addresses_ok s3"
      by (auto simp: registry_ok_def addresses_ok_def s3'(1) s2_def sel dest: free free [THEN not_sym])
    then have "registry_ok s3"
      using assms(2) s3' by (simp add: registry_ok_def s2_def sel below_Suc)
    moreover have "has_key (uuid_supply s) ?key s3"
      using assms(2) below_fresh [of "uuid_supply s" "nodes s"]
      by (auto simp: has_key_def s3'(1) s2_def sel get_by_id_create registry_ok_def)
    ultimately show ?thesis using out s3'(1) by (intro exI [of _ s3]) (simp add: s2_def)
  qed
qed


definition sample_bootstrap :: bootstrap_config where
  "sample_bootstrap =
     \<lparr>bc_net = \<lparr>net_address = 168427520, net_prefixlen = 29\<rparr>, bc_allow_create = True, bc_rotation_grace_sec = 60\<rparr>"

definition sample_sha :: "string \<Rightarrow> string" where
  "sample_sha t = CHR ''#'' # t"

lemma sample_initial:
  "\<exists>out s'. initial sample_bootstrap sample_sha 0 ''t1'' ''9.9.9.9'' ''key-1'' None 77 empty_db = Inr (out, s') \<and> io_node_id out = 1000"
  by (simp add: initial_def sample_bootstrap_def py_strip_def is_space_def find_bootstrap_node_def get_by_node_key_def get_one_by_def
      claim_by_name_def recover_by_source_ip_def list_by_internal_ip_def allocate_wg_ip_def allocate_next_ip_def
      list_used_wg_ips_def net_hosts_def net_first_def net_size_def uuid4_def insert_node_def node_unique_ok_def create_row_def Let_def)

lemma empty_registry: "registry_ok empty_db"
  by (simp add: registry_ok_def addresses_ok_def node_unique_ok_def)


section \<open>Tokens of agents\<close>

lemma upsert_token_identity:
  "get_by_node_and_instance node inst (upsert_token now node inst h t b s) =
     Some (case get_by_node_and_instance node inst s of
             None \<Rightarrow> new_identity now (uuid_supply s) node inst h b
           | Some i \<Rightarrow> i\<lparr>prev_auth_token_hash := Some (nai_auth_token_hash i), prev_auth_token_valid_until := Some t,
               nai_auth_token_hash := h, full_resync_required := b, last_bootstrap_at := Some now, updated_at := now\<rparr>)"
proof (cases "get_by_node_and_instance node inst s")
  case None
  then show ?thesis
    by (simp add: upsert_token_def get_by_node_and_instance_def get_one_by_def uuid4_def create_row_def find_append_new
        new_identity_def)
next
  case (Some i)
  then show ?thesis
    by (simp add: upsert_token_def get_by_node_and_instance_def get_one_by_def find_update_where_hit)
qed

lemma node_auth_accepts:
  assumes "get_by_id i (nodes s) = Some n" "get_by_node_and_instance i inst s = Some ident"
    and "identity_accepts_token ident (sha (py_strip tok)) t"
  shows "node_auth sha t (Some i) (Some inst) (Some tok) s = Inr n"
  using assms by (auto simp: node_auth_def Let_def dest: get_by_id_Some)

lemma node_auth_rejects:
  assumes "get_by_node_and_instance i inst s = Some ident" "\<not> identity_accepts_token ident (sha (py_strip tok)) t"
    and "\<And>x. x \<in> set (identities s) \<Longrightarrow> agent_instance_id x = inst \<Longrightarrow>
      nai_auth_token_hash x = sha (py_strip tok) \<or> prev_auth_token_hash x = Some (sha (py_strip tok)) \<Longrightarrow>
      \<not> identity_accepts_token x (sha (py_strip tok)) t"
  shows "\<exists>e. node_auth sha t (Some i) (Some inst) (Some tok) s = Inl e"
proof -
  let ?h = "sha (py_strip tok)"
  have "Option.bind (get_by_id i (nodes s)) (\<lambda>n. Option.bind (get_by_node_and_instance (row_id n) inst s)
      (\<lambda>ident. if identity_accepts_token ident ?h t then Some n else None)) = None"
    using assms(1,2) by (cases "get_by_id i (nodes s)") (auto dest: get_by_id_Some)
  moreover have "\<not> identity_accepts_token x ?h t" if found: "get_by_instance_and_token_hash inst ?h s = Some x" for x
  proof -
    have f: "filter (\<lambda>i. agent_instance_id i = inst \<and>
        (nai_auth_token_hash i = ?h \<or> prev_auth_token_hash i = Some ?h)) (identities s) = [x]"
      using found by (auto simp: get_by_instance_and_token_hash_def split: list.splits)
    have "x \<in> set (filter (\<lambda>i. agent_instance_id i = inst \<and>
        (nai_auth_token_hash i = ?h \<or> prev_auth_token_hash i = Some ?h)) (identities s))"
      unfolding f by simp
    then show ?thesis using assms(3) [of x] by auto
  qed
  ultimately show ?thesis
    by (simp add: node_auth_def Let_def split: option.split)
qed

text \<open>C17: Rotation of agent tokens.  After a bootstrap of an agent that had a token, the new token authenticates the
  agent as its node at any time, and the old one does so exactly until the grace period is
  over: no agent is locked out by a rotation, and no old token lives on.
\<close>

theorem agent_token_rotation:
  assumes "initial cfg sha now raw ip key role_in inst s = Inr (out, s')" "registry_ok s" "py_strip raw = raw"
    and old: "get_by_node_and_instance (io_node_id out) inst s = Some ident" "sha (py_strip tok) = nai_auth_token_hash ident"
    and "sha (py_strip tok) \<noteq> sha raw" "sha (py_strip tok) \<noteq> []"
    and only: "\<And>x. x \<in> set (identities s) \<Longrightarrow> agent_instance_id x = inst \<Longrightarrow>
      nai_auth_token_hash x = sha (py_strip tok) \<or> prev_auth_token_hash x = Some (sha (py_strip tok)) \<Longrightarrow> nai_node_id x = io_node_id out"
  shows "(\<exists>n. node_auth sha t (Some (io_node_id out)) (Some inst) (Some raw) s' = Inr n \<and> row_id n = io_node_id out) \<and>
    ((\<exists>n. node_auth sha t (Some (io_node_id out)) (Some inst) (Some tok) s' = Inr n)
       \<longleftrightarrow> t \<le> now + usec (max 0 (bc_rotation_grace_sec cfg)))"
proof -
  let ?i = "io_node_id out" and ?h = "sha (py_strip tok)"
  let ?until = "now + usec (max 0 (bc_rotation_grace_sec cfg))"
  obtain s1 where s1: "has_key ?i (py_strip key) s1" "identities s1 = identities s"
    "s' = upsert_token now ?i inst (sha raw) ?until True s1"
    using initial_Inr [OF assms(1,2)] by blast
  obtain n where n: "get_by_id ?i (nodes s') = Some n" using s1 by (auto simp: has_key_def)
  have same: "get_by_node_and_instance ?i inst s1 = Some ident" using old(1) s1(2) by (simp add: get_by_node_and_instance_def)
  define f where "f x = x\<lparr>prev_auth_token_hash := Some (nai_auth_token_hash x), prev_auth_token_valid_until := Some ?until,
    nai_auth_token_hash := sha raw, full_resync_required := True, last_bootstrap_at := Some now, updated_at := now\<rparr>"
    for x :: node_agent_identity
  have new: "get_by_node_and_instance ?i inst s' = Some (f ident)"
    unfolding s1(3) upsert_token_identity same by (simp add: f_def)
  have rows: "identities s' = update_where (\<lambda>x. nai_node_id x = ?i \<and> agent_instance_id x = inst) f (identities s)"
    using same s1(2) by (simp add: s1(3) upsert_token_def f_def [abs_def])
  have acc: "identity_accepts_token (f ident) ?h t \<longleftrightarrow> t \<le> ?until"
    using assms(6,7) old(2) by (simp add: identity_accepts_token_def f_def)
  have "\<exists>m. node_auth sha t (Some ?i) (Some inst) (Some raw) s' = Inr m \<and> row_id m = ?i"
    using node_auth_accepts [OF n new, of sha raw t] get_by_id_Some [OF n] assms(3)
    by (simp add: identity_accepts_token_def f_def)
  moreover have "\<exists>m. node_auth sha t (Some ?i) (Some inst) (Some tok) s' = Inr m" if "t \<le> ?until"
    using node_auth_accepts [OF n new, of sha tok t] acc that by blast
  moreover have "\<exists>e. node_auth sha t (Some ?i) (Some inst) (Some tok) s' = Inl e" if "\<not> t \<le> ?until"
  proof (rule node_auth_rejects [OF new])
    show "\<not> identity_accepts_token (f ident) ?h t" using acc that by blast
    fix x assume x: "x \<in> set (identities s')" "agent_instance_id x = inst"
      "nai_auth_token_hash x = ?h \<or> prev_auth_token_hash x = Some ?h"
    have "x \<in> f ` {y \<in> set (identities s). nai_node_id y = ?i \<and> agent_instance_id y = inst}"
      using x only by (auto simp: rows set_update_where)
    then show "\<not> identity_accepts_token x ?h t"
      using assms(6) that by (auto simp: identity_accepts_token_def f_def)
  qed
  ultimately show ?thesis by (metis sum.distinct(1))
qed

theorem agent_token_rotation_witness:
  "\<exists>out s' out2 s2. initial sample_bootstrap sample_sha 0 ''t1'' ''9.9.9.9'' ''key-1'' None 77 empty_db = Inr (out, s') \<and>
     initial sample_bootstrap sample_sha 5 ''t2'' ''9.9.9.9'' ''key-1'' None 77 s' = Inr (out2, s2) \<and>
     (\<exists>n. node_auth sample_sha (usec 60) (Some 1000) (Some 77) (Some ''t1'') s2 = Inr n) \<and>
     \<not> (\<exists>n. node_auth sample_sha (usec 61) (Some 1000) (Some 77) (Some ''t1'') s2 = Inr n)"
proof -
  obtain out s' where run: "initial sample_bootstrap sample_sha 0 ''t1'' ''9.9.9.9'' ''key-1'' None 77 empty_db = Inr (out, s')"
    and out: "io_node_id out = 1000"
    using sample_initial by blast
  obtain s1 where s1: "registry_ok s1" "has_key 1000 (py_strip ''key-1'') s1" "identities s1 = []"
    "s' = upsert_token 0 1000 77 (sample_sha ''t1'') (0 + usec (max 0 (bc_rotation_grace_sec sample_bootstrap))) True s1"
    using initial_Inr [OF run empty_registry] out by auto
  have ok: "registry_ok s'" unfolding s1(4) by (rule registry_upsert_token [OF s1(1)])
  have none: "get_by_node_and_instance 1000 77 s1 = None" using s1(3) by (simp add: get_by_node_and_instance_def get_one_by_def)
  let ?ident = "new_identity 0 (uuid_supply s1) 1000 77 (sample_sha ''t1'') True"
  have ident: "get_by_node_and_instance 1000 77 s' = Some ?ident" unfolding s1(4) upsert_token_identity none by simp
  have rows: "identities s' = [?ident]" using none s1(3) by (simp add: s1(4) upsert_token_def uuid4_def create_row_def)
  obtain n where "get_by_node_key (py_strip ''key-1'') s' = Some n" "row_id n = 1000"
    using get_by_node_key_iff [OF ok, of 1000 "py_strip ''key-1''"] s1(2,4) by auto
  then have "\<exists>out2 s2. initial sample_bootstrap sample_sha 5 ''t2'' ''9.9.9.9'' ''key-1'' None 77 s' = Inr (out2, s2) \<and> io_node_id out2 = 1000"
    by (simp add: initial_def find_bootstrap_node_def Let_def py_strip_def is_space_def)
  then obtain out2 s2 where run2: "initial sample_bootstrap sample_sha 5 ''t2'' ''9.9.9.9'' ''key-1'' None 77 s' = Inr (out2, s2)"
    and out2: "io_node_id out2 = 1000" by blast
  have strip: "py_strip ''t2'' = ''t2''" "py_strip ''t1'' = ''t1''" by (simp_all add: py_strip_def is_space_def)
  note rot = agent_token_rotation [OF run2 ok strip(1), of ?ident "''t1''", unfolded out2 strip(2), OF ident]
  have life: "(\<exists>n. node_auth sample_sha t (Some 1000) (Some 77) (Some ''t1'') s2 = Inr n) \<longleftrightarrow> t \<le> 5 + usec 60" for t
    using rot [of t] rows by (simp add: new_identity_def sample_sha_def sample_bootstrap_def)
  have "\<exists>n. node_auth sample_sha (usec 60) (Some 1000) (Some 77) (Some ''t1'') s2 = Inr n"
    "\<not> (\<exists>n. node_auth sample_sha (usec 61) (Some 1000) (Some 77) (Some ''t1'') s2 = Inr n)"
    unfolding life by (simp_all add: usec_def)
  with run run2 show ?thesis
    by (intro exI [of _ out] exI [of _ s'] exI [of _ out2] exI [of _ s2] conjI)
qed

section \<open>The token of an installer\<close>

text \<open>C20: An installer's token is good once.  The token a node is created with authenticates its installer
  until it expires, as that node; once the installer has reported success the same token is
  refused for good.
\<close>

theorem install_token_once:
  assumes "admin_create_node sha ttl now raw p s = Inr (n, s')" "py_strip raw = raw" "raw \<noteq> []"
    and fresh: "\<And>m. m \<in> set (nodes s) \<Longrightarrow> auth_token_hash m \<noteq> sha raw" and "ids_ok (nodes s)" "below (uuid_supply s) (nodes s)"
  shows "(node_install_auth sha t (Some raw) None s' =
           (if now + usec ttl \<le> t then Inl (HTTPException 401 ''Bootstrap token expired'') else Inr (n, raw))) \<and>
         (\<forall>i s2 t2. bootstrap_complete sha t (Some raw) None s' = Inr (i, s2) \<longrightarrow>
           i = row_id n \<and> node_install_auth sha t2 (Some raw) None s2 = Inl (HTTPException 409 ''Node already bootstrapped''))"
proof -
  obtain s1 where s1: "insert_node n s1 = Inr s'" "nodes s1 = nodes s" and n: "row_id n = uuid_supply s" "auth_token_hash n = sha raw"
    "is_active n" "bootstrapped_at n = None" "bootstrap_token_expires_at n = Some (now + usec ttl)"
    using assms(1) by (auto simp: admin_create_node_def Let_def uuid4_def new_node_def split: if_splits sum.splits)
  have rows: "nodes s' = nodes s @ [n]" using s1 by (auto simp: insert_node_Inr create_row_def)
  have none: "filter (\<lambda>m. auth_token_hash m = sha raw) (nodes s) = []" using fresh by (simp add: filter_empty_conv)
  have auth: "node_install_auth sha t (Some raw) None s' =
      (if now + usec ttl \<le> t then Inl (HTTPException 401 ''Bootstrap token expired'') else Inr (n, raw))" for t
    using assms(2,3) n by (simp add: node_install_auth_def get_by_auth_token_hash_def rows none)
  have once: "i = row_id n \<and> node_install_auth sha t2 (Some raw) None s2 = Inl (HTTPException 409 ''Node already bootstrapped'')"
    if run: "bootstrap_complete sha t (Some raw) None s' = Inr (i, s2)" for i s2 t2
  proof -
    have i: "i = row_id n" and s2: "s2 = mark_bootstrapped t (row_id n) s'"
      using run by (auto simp: bootstrap_complete_def auth split: if_splits)
    have other: "row_id m \<noteq> row_id n" if "m \<in> set (nodes s)" for m
      using assms(6) that by (auto simp: below_def list_all_iff n(1))
    have "nodes s2 = nodes s @ [n\<lparr>bootstrapped_at := Some t, bootstrap_token_expires_at := None, updated_at := t\<rparr>]"
      unfolding s2 mark_bootstrapped_def rows update_by_id_def using other
      by (simp add: rows update_where_none)
    then have "node_install_auth sha t2 (Some raw) None s2 = Inl (HTTPException 409 ''Node already bootstrapped'')"
      using assms(2,3) n(2,3) by (simp add: node_install_auth_def get_by_auth_token_hash_def none)
    with i show ?thesis by blast
  qed
  show ?thesis using auth once by blast
qed

definition sample_create :: admin_node_create where
  "sample_create =
     \<lparr>anc_name = ''b1'', anc_role = ''backend'', anc_region = ''nl'', anc_public_domain = '''', anc_reality_ip = None,
      anc_internal_wg_ip = '''', anc_capacity = 100, anc_zone = Some ''europe''\<rparr>"

theorem install_token_once_witness:
  "\<exists>n s' s2. admin_create_node sample_sha 600 0 ''t1'' sample_create empty_db = Inr (n, s') \<and>
     node_install_auth sample_sha (usec 10) (Some ''t1'') None s' = Inr (n, ''t1'') \<and>
     bootstrap_complete sample_sha (usec 10) (Some ''t1'') None s' = Inr (row_id n, s2) \<and>
     node_install_auth sample_sha (usec 11) (Some ''t1'') None s2 = Inl (HTTPException 409 ''Node already bootstrapped'')"
proof -
  have "\<exists>n s'. admin_create_node sample_sha 600 0 ''t1'' sample_create empty_db = Inr (n, s')"
    by (simp add: admin_create_node_def sample_create_def py_strip_def is_space_def ALLOWED_NODE_ROLES_def get_one_by_def
        validated_zone_def py_lower_def lower_char_def VALID_ZONES_def uuid4_def insert_node_def node_unique_ok_def
        create_row_def Let_def)
  then obtain n s' where run: "admin_create_node sample_sha 600 0 ''t1'' sample_create empty_db = Inr (n, s')" by blast
  have strip: "py_strip ''t1'' = ''t1''" by (simp add: py_strip_def is_space_def)
  note life = install_token_once [OF run strip, simplified]
  have auth: "node_install_auth sample_sha (usec 10) (Some ''t1'') None s' = Inr (n, ''t1'')"
    using life [of "usec 10"] by (simp add: usec_def)
  let ?s2 = "mark_bootstrapped (usec 10) (row_id n) s'"
  have comp: "bootstrap_complete sample_sha (usec 10) (Some ''t1'') None s' = Inr (row_id n, ?s2)"
    by (simp add: bootstrap_complete_def auth)
  have "node_install_auth sample_sha (usec 11) (Some ''t1'') None ?s2 = Inl (HTTPException 409 ''Node already bootstrapped'')"
    using life [of "usec 10"] comp by blast
  with run auth comp show ?thesis by (intro exI [of _ n] exI [of _ s'] exI [of _ ?s2] conjI)
qed

section \<open>A backend that is given another role\<close>

lemma placement_announced:
  assumes "(p, k) \<in> set (list_transport_rows_by_placement_ids ids s)"
  shows "PlacementCommandId (row_id p) (op_version p) \<in> ob_message_id ` set (outbox (enqueue_for_placement_ids now ids s))"
proof -
  have "PlacementCommandId (row_id p) (op_version p) \<in>
      oi_message_id ` set (concat (map (placement_items s) (list_transport_rows_by_placement_ids ids s)))"
    using assms by (force simp: placement_items_def command_item_def)
  then show ?thesis by (simp add: enqueue_for_placement_ids_eq enqueue_many_message_ids)
qed

text \<open>C21: Taking the role of a backend away retires its placements.  When an update gives a backend another role, no
  placement on it is wanted any more, and for each that was, of a key in use, the command that
  says so is on its way to the node; the devices that were sent to it as an entry are forgotten.
\<close>

theorem role_swap_retires:
  assumes "admin_update_node now i u s = Inr (r, s')" "get_by_id i (nodes s) = Some n" "role n = ''backend''"
    and "anu_role u = Given (Some r')" "r' \<noteq> ''backend''" "ids_ok (placements s)"
  shows "(\<forall>p \<in> set (placements s'). is_active p \<longrightarrow> backend_node_id p = i \<longrightarrow> desired_state p = ds_inactive) \<and>
    (\<forall>a \<in> set (route_assignments s'). sra_entry_node_id a \<noteq> i) \<and>
    (\<forall>p \<in> set (placements s). is_active p \<longrightarrow> backend_node_id p = i \<longrightarrow> desired_state p = ds_active \<longrightarrow>
       (\<forall>k. get_by_id (key_id p) (vpn_keys s) = Some k \<longrightarrow> is_active k \<longrightarrow>
         PlacementCommandId (row_id p) (op_version p + 1) \<in> ob_message_id ` set (outbox s')))"
proof -
  define reason where "reason = ''role_swap:'' @ role n @ ''->'' @ r'"
  obtain s1 where s1: "s1 = s\<lparr>nodes := update_by_id i (apply_node_update now u) (nodes s)\<rparr>"
    and s': "s' = role_swap_cleanup now i reason s1"
    using assms(1-5) by (auto simp: admin_update_node_def Let_def update_node_Inr set_required_def reason_def
        split: if_splits sum.splits)
  define hit where "hit p \<longleftrightarrow> is_active p \<and> desired_state p \<noteq> ds_inactive \<and> backend_node_id p = i" for p :: user_placement
  define ids where "ids = map row_id (filter hit (placements s))"
  define f where "f p = (bump now p)\<lparr>desired_state := ds_inactive, last_migration_reason := Some reason\<rparr>" for p :: user_placement
  define s2 where "s2 = s1\<lparr>placements := update_where (\<lambda>p. row_id p \<in> set ids) f (placements s),
    route_assignments := delete_where (\<lambda>a. sra_entry_node_id a = i) (route_assignments s)\<rparr>"
  have hit_ids: "row_id p \<in> set ids \<longleftrightarrow> hit p" if "p \<in> set (placements s)" for p
    using that ids_ok_unique [OF assms(6)] by (auto simp: ids_def)
  have "s' = (if ids = [] then s1\<lparr>route_assignments := delete_where (\<lambda>a. sra_entry_node_id a = i) (route_assignments s)\<rparr>
      else enqueue_for_placement_ids now ids s2)"
    unfolding s' role_swap_cleanup_def deactivate_placements_on_node_def s2_def
    by (simp add: s1 ids_def hit_def [abs_def] f_def [abs_def] Let_def)
  moreover have "s1\<lparr>route_assignments := delete_where (\<lambda>a. sra_entry_node_id a = i) (route_assignments s)\<rparr> = s2" if "ids = []"
    using that by (simp add: s2_def s1 update_where_none)
  ultimately have s'_eq: "s' = enqueue_for_placement_ids now ids s2"
    by (simp add: enqueue_for_placement_ids_def list_transport_rows_by_placement_ids_def)
  have rows: "set (placements s') = f ` {p \<in> set (placements s). hit p} \<union> {p \<in> set (placements s). \<not> hit p}"
    using hit_ids by (auto simp: s'_eq s2_def set_update_where)
  have "desired_state p = ds_inactive" if "p \<in> set (placements s')" "is_active p" "backend_node_id p = i" for p
  proof -
    have "(\<exists>q. p = f q) \<or> \<not> hit p" using that(1) unfolding rows by blast
    then show ?thesis
    proof
      assume "\<exists>q. p = f q"
      then show ?thesis by (elim exE) (simp add: f_def)
    next
      assume "\<not> hit p"
      then show ?thesis using that(2,3) by (simp add: hit_def)
    qed
  qed
  moreover have "sra_entry_node_id a \<noteq> i" if "a \<in> set (route_assignments s')" for a
    using that by (simp add: s'_eq s2_def enqueue_for_placement_ids_eq only_outboxD(9) [OF only_outbox_enqueue_many])
  moreover have "PlacementCommandId (row_id p) (op_version p + 1) \<in> ob_message_id ` set (outbox s')"
    if p: "p \<in> set (placements s)" "is_active p" "backend_node_id p = i" "desired_state p = ds_active"
      and k: "get_by_id (key_id p) (vpn_keys s) = Some k" "is_active k" for p k
  proof -
    have "hit p" using p by (simp add: hit_def)
    then have "f p \<in> set (placements s2)" using p(1) hit_ids by (auto simp: s2_def set_update_where)
    then have "(f p, k) \<in> set (list_transport_rows_by_placement_ids ids s2)"
      using p k \<open>hit p\<close> hit_ids by (simp add: list_transport_rows_mem f_def bump_def s2_def s1)
    from placement_announced [OF this] show ?thesis by (simp add: s'_eq f_def bump_def)
  qed
  ultimately show ?thesis by blast
qed

definition retire_update :: admin_node_update where
  "retire_update =
     \<lparr>anu_name = Unset, anu_role = Given (Some ''entry''), anu_region = Unset, anu_public_domain = Unset,
      anu_reality_ip = Unset, anu_upstream_node_id = Unset, anu_capacity = Unset, anu_zone = Unset,
      anu_is_enabled = Unset, anu_is_draining = Unset\<rparr>"

definition retire_db :: db where
  "retire_db = empty_db\<lparr>nodes := [sample_node 2 ''backend''], vpn_keys := [sample_key 7],
     placements := [new_placement 5 30 7 2 ds_active None None]\<rparr>"

theorem role_swap_retires_witness:
  "\<exists>r s'. admin_update_node 9 2 retire_update retire_db = Inr (r, s') \<and>
     PlacementCommandId 30 2 \<in> ob_message_id ` set (outbox s')"
proof -
  have node: "get_by_id 2 (nodes retire_db) = Some (sample_node 2 ''backend'')" "role (sample_node 2 ''backend'') = ''backend''"
    by (simp_all add: retire_db_def get_by_id_def sample_node_def)
  have up: "anu_role retire_update = Given (Some ''entry'')" by (simp add: retire_update_def)
  have "\<exists>s1. update_node 2 (apply_node_update 9 retire_update) retire_db = Inr s1"
    by (simp add: update_node_def node_unique_ok_def update_by_id_def apply_node_update_def retire_db_def sample_node_def Let_def)
  moreover have "\<not> nulls_given retire_update" by (simp add: nulls_given_def null_given_def retire_update_def)
  ultimately have "\<exists>r s'. admin_update_node 9 2 retire_update retire_db = Inr (r, s')"
    by (auto simp: admin_update_node_def node(1) Let_def)
  then obtain r s' where run: "admin_update_node 9 2 retire_update retire_db = Inr (r, s')" by blast
  let ?p = "new_placement 5 30 7 2 ds_active None None"
  have "ids_ok (placements retire_db)" by (simp add: retire_db_def ids_ok_def)
  note facts = role_swap_retires [OF run node up _ this]
  have "?p \<in> set (placements retire_db)" "is_active ?p" "backend_node_id ?p = 2" "desired_state ?p = ds_active"
    "get_by_id (key_id ?p) (vpn_keys retire_db) = Some (sample_key 7)" "is_active (sample_key 7)" "row_id ?p = 30" "op_version ?p = 1"
    by (simp_all add: retire_db_def new_placement_def sample_key_def get_by_id_def)
  then have "PlacementCommandId 30 2 \<in> ob_message_id ` set (outbox s')" using facts by force
  with run show ?thesis by blast
qed

section \<open>Draining by hand\<close>

lemma drain_node_pools:
  assumes "drain_node port now i s = Inr s'" "pools_ok port s"
  shows "pools_ok port s'"
proof -
  obtain n where n: "get_by_id i (nodes s) = Some n" and ann: "announce_backend port now n (s\<lparr>nodes := update_by_id i
      (\<lambda>n. n\<lparr>is_draining := True, drain_source := Some ''admin'', updated_at := now\<rparr>) (nodes s)\<rparr>) = Inr s'"
    using assms(1) by (auto simp: drain_node_def split: option.splits)
  show ?thesis by (rule announce_backend_ok [OF assms(2) n _ _ _ ann]) simp_all
qed

lemma enable_node_pools:
  assumes "enable_node port now i s = Inr s'" "pools_ok port s"
  shows "pools_ok port s'"
proof -
  obtain n where n: "get_by_id i (nodes s) = Some n" and ann: "announce_backend port now n (s\<lparr>nodes := update_by_id i
      (\<lambda>n. n\<lparr>is_draining := False, is_enabled := True, drain_source := None, updated_at := now\<rparr>) (nodes s)\<rparr>) = Inr s'"
    using assms(1) by (auto simp: enable_node_def split: option.splits)
  show ?thesis by (rule announce_backend_ok [OF assms(2) n _ _ _ ann]) simp_all
qed

text \<open>
  A partial update, in contrast, announces nothing: a backend it disables or drains stays in the pools
  the entries have.
\<close>

lemma admin_update_announces_nothing:
  assumes "admin_update_node now i u s = Inr (r, s')" "anu_role u = Unset"
  shows "outbox s' = outbox s \<and> (\<forall>n. get_by_id i (nodes s) = Some n \<longrightarrow> get_by_id i (nodes s') = Some (apply_node_update now u n))"
proof -
  obtain n where n: "get_by_id i (nodes s) = Some n"
    and s': "s' = s\<lparr>nodes := update_by_id i (apply_node_update now u) (nodes s)\<rparr>"
    using assms by (auto simp: admin_update_node_def update_node_Inr set_required_def Let_def
        split: option.splits if_splits sum.splits)
  have "row_id (apply_node_update now u m) = row_id m" for m by (simp add: apply_node_update_def)
  with n show ?thesis by (simp add: s' repo_simps)
qed

text \<open>
  Nor does it say who drained the node, so the next healthy heartbeat of a node that has been
  healthy puts it back into service, unlike a node drained through \<open>drain_node\<close>.
\<close>

lemma patched_drain_is_undone:
  assumes "admin_update_node t i u s = Inr (r, s1)" "get_by_id i (nodes s) = Some n" "is_active n" "is_enabled n"
    and "drain_source n = None" "anu_role u = Unset" "anu_is_enabled u = Unset" "anu_is_draining u = Given (Some True)"
    and "handle_heartbeat_message port notify now (Some i) e h s1 = Inr (ev, s2)"
    and "effective_heartbeat_health (the_node_policy s1) h" "drain_reason (heartbeat_meta_of i s1 True) = None"
    and "healthy_undrain_threshold (the_node_policy s1) \<le> consecutive_healthy (heartbeat_meta_of i s1 True)"
  shows "\<exists>n'. get_by_id i (nodes s2) = Some n' \<and> \<not> is_draining n'"
proof -
  let ?n = "apply_node_update t u n"
  have n1: "get_by_id i (nodes s1) = Some ?n" using admin_update_announces_nothing [OF assms(1,6)] assms(2) by blast
  have sel: "is_active ?n" "is_enabled ?n" "is_draining ?n" "drain_source ?n = None"
    using assms(3-5,7,8) by (simp_all add: apply_node_update_def set_required_def)
  have i: "row_id ?n = i" using n1 by (simp add: get_by_id_Some)
  obtain s3 where h: "handle_heartbeat port notify now ?n h s1 = Inr (ev, s3)" and s2: "s2 = touch_heartbeat now i e s3"
    using assms(9) n1 i by (auto simp: handle_heartbeat_message_def split: sum.splits)
  have "get_by_id i (nodes s3) = Some (node_after (the_node_policy s1) now True (heartbeat_meta_of i s1 True) ?n)"
    using handle_heartbeat_effect(1) [OF h n1 _ refl, of True] assms(10) by simp
  moreover have "\<not> is_draining (node_after (the_node_policy s1) now True (heartbeat_meta_of i s1 True) ?n)"
    using sel assms(11,12) by (simp add: node_after_def should_drain_def should_undrain_def)
  ultimately show ?thesis using s2 by simp
qed

text \<open>
  A request from the address of a known node takes that node over, although the agent that had
  it presented another key.
\<close>

lemma bootstrap_takes_over:
  assumes "registry_ok s" "list_by_internal_ip ip s = [n]" "node_key n = Some k0" "get_by_node_key (py_strip key) s = None"
    and "get_one_by (\<lambda>m. node_name m = py_strip key) (nodes s) = None"
    and "initial cfg sha now raw ip key role_in inst s = Inr (out, s')"
  shows "io_node_id out = row_id n \<and> \<not> has_key (row_id n) k0 s'"
proof -
  have key: "py_strip key \<noteq> []" using assms(6) by (auto simp: initial_def Let_def)
  have mem: "n \<in> set (nodes s)"
    using assms(2) by (metis (no_types, lifting) filter_is_subset list.set_intros(1) list_by_internal_ip_def set_sort subsetD)
  have "py_strip key \<noteq> k0"
    using assms(3,4) mem by (auto simp: get_by_node_key_def get_one_by_def find_None_iff)
  moreover have "io_node_id out = row_id n"
    using assms(2,4-6) key
    by (auto simp: initial_def find_bootstrap_node_def claim_by_name_def recover_by_source_ip_def Let_def split: sum.splits)
  moreover have "has_key (io_node_id out) (py_strip key) s'" using initial_Inr [OF assms(6,1)] by auto
  ultimately show ?thesis by (auto simp: has_key_def)
qed

end
