(* ===== verification/Agent_Runtime.thy ===== *)
theory Agent_Runtime
  imports Placement_Transport
begin

text \<open>
  \<open>services/nodes/agent/runtime.py\<close>: what the control plane does with the messages of the node
  agents.  Results of placement commands are handled in batches and acknowledged; a snapshot
  request is answered with everything the node has to serve, in chunks.  The message broker is a
  parameter, the error that publishing a message gives or nothing; JSON that does not parse and
  strings that are no UUIDs are \<open>None\<close>.
\<close>

section \<open>Messages\<close>

datatype TransportReportStatus =
    rs_applied | rs_pending | rs_error | rs_skipped_stale | rs_skipped_idempotent

record result_event =
  re_node_id :: "uuid option"
  re_emitted_at :: time
  re_snapshot_id :: "string option"
  re_epoch :: "int option"
  re_event_id :: string
  re_placement_id :: "uuid option"
  re_op_version :: int
  re_applied_state :: PlacementAppliedState

record result_msg =
  rm_subject :: "string option"
  rm_event :: "result_event option"

record result_ack =
  ra_node_id :: uuid
  ra_emitted_at :: time
  ra_snapshot_id :: "string option"
  ra_epoch :: "int option"
  ra_event_id :: string
  ra_placement_id :: "uuid option"
  ra_op_version :: int
  ra_status :: TransportReportStatus

text \<open>A command inside a snapshot; its event id is made of the placement and the version.\<close>

record snapshot_item =
  si_emitted_at :: time
  si_snapshot_id :: string
  si_epoch :: int
  si_event_id :: "uuid \<times> int"
  si_command :: command_payload
  si_snapshot_complete :: bool

record snapshot_chunk =
  sc_node_id :: uuid
  sc_emitted_at :: time
  sc_snapshot_id :: string
  sc_epoch :: int
  sc_chunk_index :: nat
  sc_is_last_chunk :: bool
  sc_items :: "snapshot_item list"

datatype agent_message =
    ResultAck result_ack
  | SnapshotChunk snapshot_chunk
  | UpstreamSnapshot upstream_payload

text \<open>Publishing one message after the other; the first failure is raised.\<close>

fun publish_all :: "(agent_message \<Rightarrow> string option) \<Rightarrow> agent_message list \<Rightarrow> unit result" where
  "publish_all nats [] = Inr ()"
| "publish_all nats (m # ms) =
     (case nats m of Some err \<Rightarrow> Inl (RuntimeError err) | None \<Rightarrow> publish_all nats ms)"

section \<open>Results\<close>

text \<open>\<open>PlacementApplyResultEvent\<close> refuses versions below 1.\<close>

definition parse_result :: "result_msg \<Rightarrow> result_event option" where
  "parse_result m =
     (case rm_event m of
        None \<Rightarrow> None
      | Some e \<Rightarrow> if re_op_version e < 1 then None else Some e)"

record batch_item =
  bi_index :: nat
  bi_msg :: result_msg
  bi_event :: result_event
  bi_node :: uuid

definition parsed_results :: "result_msg list \<Rightarrow> batch_item list" where
  "parsed_results msgs =
     List.map_filter (\<lambda>(i, m).
       case parse_result m of
         None \<Rightarrow> None
       | Some e \<Rightarrow> map_option (\<lambda>n. \<lparr>bi_index = i, bi_msg = m, bi_event = e, bi_node = n\<rparr>) (re_node_id e))
       (enumerate 0 msgs)"

definition valid_results :: "db \<Rightarrow> batch_item list \<Rightarrow> batch_item list" where
  "valid_results s items = filter (\<lambda>x. get_by_id (bi_node x) (nodes s) \<noteq> None) items"

definition log_insert :: "time \<Rightarrow> batch_item \<Rightarrow> event_log_insert" where
  "log_insert now x =
     \<lparr>eli_node_id = bi_node x, eli_event_type = ''placement_result'', eli_event_id = re_event_id (bi_event x),
      eli_subject = rm_subject (bi_msg x), eli_processed_at = now\<rparr>"

definition report_of :: "time \<Rightarrow> batch_item \<Rightarrow> report_item option" where
  "report_of now x =
     map_option (\<lambda>p. \<lparr>ri_id = p, ri_op_version = re_op_version (bi_event x), ri_backend_node_id = bi_node x,
        ri_applied_state = re_applied_state (bi_event x), ri_updated_at = now\<rparr>) (re_placement_id (bi_event x))"

fun reports_of :: "time \<Rightarrow> batch_item list \<Rightarrow> report_item list result" where
  "reports_of now [] = Inr []"
| "reports_of now (x # xs) =
     (case report_of now x of
        None \<Rightarrow> Inl (ValueError ''badly formed hexadecimal UUID string'')
      | Some r \<Rightarrow> (case reports_of now xs of Inl err \<Rightarrow> Inl err | Inr rs \<Rightarrow> Inr (r # rs)))"

definition new_status :: "uuid set \<Rightarrow> result_event \<Rightarrow> TransportReportStatus" where
  "new_status updated e =
     (case re_placement_id e of
        None \<Rightarrow> rs_skipped_stale
      | Some p \<Rightarrow>
          if p \<in> updated then
            (if re_applied_state e = as_applied then rs_applied
             else if re_applied_state e = as_error then rs_error
             else rs_pending)
          else rs_skipped_stale)"

text \<open>The last event of each node, in the order in which the nodes occur first.\<close>

definition last_events :: "batch_item list \<Rightarrow> (uuid \<times> string \<times> time) list" where
  "last_events items =
     map (\<lambda>n. let x = last (filter (\<lambda>x. bi_node x = n) items)
              in (n, re_event_id (bi_event x), re_emitted_at (bi_event x)))
       (rev (remdups (rev (map bi_node items))))"

definition touch_results :: "time \<Rightarrow> batch_item list \<Rightarrow> db \<Rightarrow> db" where
  "touch_results now items s = fold (\<lambda>(n, eid, t). touch_result now n eid t) (last_events items) s"

text \<open>The session: the status of each item that has one, and the database.\<close>

definition apply_results :: "time \<Rightarrow> batch_item list \<Rightarrow> db \<Rightarrow> ((nat \<times> TransportReportStatus) list \<times> db) result" where
  "apply_results now valid s =
     (let (new_ids, s1) = bulk_record_if_new (map (log_insert now) valid) s;
          known = filter (\<lambda>x. re_event_id (bi_event x) \<notin> set new_ids) valid;
          new_items = filter (\<lambda>x. re_event_id (bi_event x) \<in> set new_ids) valid;
          skipped = map (\<lambda>x. (bi_index x, rs_skipped_idempotent)) known
      in case reports_of now new_items of
           Inl err \<Rightarrow> Inl err
         | Inr reports \<Rightarrow>
             let (updated, s2) = bulk_apply_backend_report reports s1 in
             Inr (skipped @ map (\<lambda>x. (bi_index x, new_status updated (bi_event x))) new_items,
                  touch_results now valid s2))"

definition result_ack_of :: "time \<Rightarrow> batch_item \<Rightarrow> TransportReportStatus \<Rightarrow> agent_message" where
  "result_ack_of now x st =
     (let e = bi_event x in ResultAck
       \<lparr>ra_node_id = bi_node x, ra_emitted_at = now, ra_snapshot_id = re_snapshot_id e, ra_epoch = re_epoch e,
        ra_event_id = re_event_id e, ra_placement_id = re_placement_id e,
        ra_op_version = re_op_version e, ra_status = st\<rparr>)"

definition acks_of :: "time \<Rightarrow> batch_item list \<Rightarrow> (nat \<times> TransportReportStatus) list \<Rightarrow> agent_message list" where
  "acks_of now parsed statuses =
     List.map_filter (\<lambda>x. map_option (result_ack_of now x) (map_of statuses (bi_index x))) parsed"

text \<open>The flags start as \<open>False\<close>; each branch of the loops sets its own.\<close>

definition ack_flags :: "nat list \<Rightarrow> nat \<Rightarrow> bool list" where
  "ack_flags acked n = fold (\<lambda>i flags. flags[i := True]) acked (replicate n False)"

text \<open>
  The database changes when the session commits, also if publishing an acknowledgement fails
  afterwards; then none of the messages is acknowledged to the broker.
\<close>

definition handle_result_batch ::
  "(agent_message \<Rightarrow> string option) \<Rightarrow> time \<Rightarrow> result_msg list \<Rightarrow> db
   \<Rightarrow> (bool list \<times> agent_message list) result \<times> db" where
  "handle_result_batch nats now msgs s =
     (let parsed = parsed_results msgs;
          valid = valid_results s parsed;
          refused = filter (\<lambda>i. i \<notin> bi_index ` set parsed) [0..<length msgs] @
                    map bi_index (filter (\<lambda>x. get_by_id (bi_node x) (nodes s) = None) parsed)
      in if valid = [] then (Inr (ack_flags refused (length msgs), []), s)
         else case apply_results now valid s of
           Inl err \<Rightarrow> (Inl err, s)
         | Inr (statuses, s') \<Rightarrow>
             let acks = acks_of now parsed statuses in
             (case publish_all nats acks of
                Inl err \<Rightarrow> (Inl err, s')
              | Inr _ \<Rightarrow> (Inr (ack_flags (refused @ map fst statuses) (length msgs), acks), s')))"

section \<open>Snapshots\<close>

definition NODE_AGENT_SNAPSHOT_CHUNK_SIZE :: nat where
  "NODE_AGENT_SNAPSHOT_CHUNK_SIZE = 200"

text \<open>\<open>range(0, len(items), chunk_size)\<close> has as many values as chunks are begun.\<close>

definition chunk_items :: "nat \<Rightarrow> 'a list \<Rightarrow> 'a list list" where
  "chunk_items n xs =
     map (\<lambda>k. take n (drop (k * n) xs)) [0..<(length xs + n - 1) div n]"

definition snapshot_commands :: "string \<Rightarrow> uuid \<Rightarrow> db \<Rightarrow> command_payload list" where
  "snapshot_commands r node s =
     (if r = ''entry'' \<or> r = ''whitelist_entry'' then list_command_payloads_for_entry node s
      else list_command_payloads_for_backend node s)"

definition snapshot_item_of :: "time \<Rightarrow> string \<Rightarrow> int \<Rightarrow> command_payload \<Rightarrow> snapshot_item" where
  "snapshot_item_of now sid epoch c =
     \<lparr>si_emitted_at = now, si_snapshot_id = sid, si_epoch = epoch,
      si_event_id = (cp_placement_id c, cp_op_version c), si_command = c, si_snapshot_complete = False\<rparr>"

definition snapshot_chunk_of ::
  "time \<Rightarrow> uuid \<Rightarrow> string \<Rightarrow> int \<Rightarrow> nat \<Rightarrow> bool \<Rightarrow> snapshot_item list \<Rightarrow> agent_message" where
  "snapshot_chunk_of now node sid epoch i is_last items = SnapshotChunk
     \<lparr>sc_node_id = node, sc_emitted_at = now, sc_snapshot_id = sid, sc_epoch = epoch,
      sc_chunk_index = i, sc_is_last_chunk = is_last, sc_items = items\<rparr>"

definition snapshot_chunks :: "time \<Rightarrow> uuid \<Rightarrow> string \<Rightarrow> int \<Rightarrow> command_payload list \<Rightarrow> agent_message list" where
  "snapshot_chunks now node sid epoch commands =
     (let items = map (snapshot_item_of now sid epoch) commands;
          chunked = chunk_items NODE_AGENT_SNAPSHOT_CHUNK_SIZE items
      in if items = [] then [snapshot_chunk_of now node sid epoch 0 True []]
         else map (\<lambda>(i, chunk).
                let is_last = (i = length chunked - 1) in
                snapshot_chunk_of now node sid epoch i is_last
                  (map (\<lambda>x. x\<lparr>si_snapshot_complete := is_last\<rparr>) chunk)) (enumerate 0 chunked))"

text \<open>The upstreams of an entry, each with an event id of its own.\<close>

definition entry_backends :: "uuid \<Rightarrow> db \<Rightarrow> vpn_node list" where
  "entry_backends entry s =
     concat (map (\<lambda>n. map (\<lambda>_. n)
       (filter (\<lambda>a. eba_backend_node_id a = row_id n \<and> eba_entry_node_id a = entry \<and> eba_enabled a)
         (assignments s))) (nodes s))"

definition upstream_snapshot_of :: "time \<Rightarrow> uuid \<Rightarrow> uuid \<Rightarrow> vpn_node \<Rightarrow> agent_message" where
  "upstream_snapshot_of now entry eid b = UpstreamSnapshot
     \<lparr>up_event_id = eid, up_node_id = entry, up_emitted_at = now, up_upstream_node_id = row_id b,
      up_upstream_name = node_name b, up_upstream_public_domain = public_domain b,
      up_upstream_reality_ip = reality_ip b, up_upstream_internal_wg_ip = internal_wg_ip b,
      up_upstream_agent_port = agent_port b\<rparr>"

fun upstream_snapshots :: "time \<Rightarrow> uuid \<Rightarrow> vpn_node list \<Rightarrow> db \<Rightarrow> agent_message list \<times> db" where
  "upstream_snapshots now entry [] s = ([], s)"
| "upstream_snapshots now entry (b # bs) s =
     (let (eid, s1) = uuid4 s;
          (ms, s2) = upstream_snapshots now entry bs s1
      in (upstream_snapshot_of now entry eid b # ms, s2))"

definition publish_upstreams_for_entry :: "time \<Rightarrow> string \<Rightarrow> uuid \<Rightarrow> db \<Rightarrow> agent_message list \<times> db" where
  "publish_upstreams_for_entry now r entry s =
     (if r = ''entry'' \<or> r = ''whitelist_entry''
      then upstream_snapshots now entry (entry_backends entry s) s else ([], s))"

datatype SnapshotRequestReason = startup | xray_restart | redelivery_gap | operator_forced

definition reason_value :: "SnapshotRequestReason \<Rightarrow> string" where
  "reason_value r = (case r of
       startup \<Rightarrow> ''startup'' | xray_restart \<Rightarrow> ''xray_restart''
     | redelivery_gap \<Rightarrow> ''redelivery_gap'' | operator_forced \<Rightarrow> ''operator_forced'')"

text \<open>
  Ids of requests and snapshots are f-strings over the node, the time and what the agent knows;
  the text of a UUID and of a time is a parameter.
\<close>

record text_of =
  uuid_text :: "uuid \<Rightarrow> string"
  isoformat :: "time \<Rightarrow> string"

text \<open>The request carries the node id as text; \<open>sr_node_id\<close> is what it parses to.\<close>

record snapshot_request =
  sr_node_text :: string
  sr_node_id :: "uuid option"
  sr_requested_at :: time
  sr_reason :: SnapshotRequestReason
  sr_known_snapshot_id :: "string option"

definition snapshot_request_event_id :: "text_of \<Rightarrow> snapshot_request \<Rightarrow> string" where
  "snapshot_request_event_id tx ev =
     ''snapshot-request:'' @ sr_node_text ev @ '':'' @ reason_value (sr_reason ev) @ '':'' @
     isoformat tx (sr_requested_at ev) @ '':'' @
     (case sr_known_snapshot_id ev of None \<Rightarrow> '''' | Some k \<Rightarrow> k)"

definition handle_snapshot_request ::
  "text_of \<Rightarrow> (agent_message \<Rightarrow> string option) \<Rightarrow> time \<Rightarrow> string option \<Rightarrow> snapshot_request \<Rightarrow> db
   \<Rightarrow> agent_message list result \<times> db" where
  "handle_snapshot_request tx nats now sub ev s =
     (case sr_node_id ev of
        None \<Rightarrow> (Inr [], s)
      | Some node \<Rightarrow>
        (case get_by_id node (nodes s) of
           None \<Rightarrow> (Inr [], s)
         | Some n \<Rightarrow>
           let request_id = snapshot_request_event_id tx ev;
               r = (if role n = '''' then ''backend'' else role n);
               snapshot_id = ''snap-'' @ uuid_text tx node @ ''-'' @ isoformat tx (sr_requested_at ev);
               ((epoch, reserved), s1) = reserve_snapshot_epoch now node request_id snapshot_id
                 (reason_value (sr_reason ev)) (sr_requested_at ev) now s;
               (upstreams, s2) = publish_upstreams_for_entry now r node s1;
               msgs = snapshot_chunks now node reserved epoch (snapshot_commands r node s) @ upstreams
           in (case publish_all nats msgs of
                 Inl err \<Rightarrow> (Inl err, s)
               | Inr _ \<Rightarrow> (Inr msgs, snd (record_if_new node ''snapshot_request'' request_id sub now s2)))))"

definition trigger_snapshot_for_node ::
  "text_of \<Rightarrow> (agent_message \<Rightarrow> string option) \<Rightarrow> time \<Rightarrow> uuid \<Rightarrow> string \<Rightarrow> db
   \<Rightarrow> agent_message list result \<times> db" where
  "trigger_snapshot_for_node tx nats now node reason s =
     (let r = (case get_by_id node (nodes s) of
                 None \<Rightarrow> ''backend''
               | Some n \<Rightarrow> if role n = '''' then ''backend'' else role n);
          snapshot_id = ''snap-'' @ uuid_text tx node @ ''-admin-'' @ isoformat tx now;
          request_id = ''admin-snapshot:'' @ uuid_text tx node @ '':'' @ isoformat tx now;
          ((epoch, reserved), s1) = reserve_snapshot_epoch now node request_id snapshot_id reason now now s;
          (upstreams, s2) = publish_upstreams_for_entry now r node s1;
          msgs = snapshot_chunks now node reserved epoch (snapshot_commands r node s) @ upstreams
      in (case publish_all nats msgs of
            Inl err \<Rightarrow> (Inl err, s)
          | Inr _ \<Rightarrow> (Inr msgs, s2)))"

section \<open>Results are applied once\<close>

lemma record_if_new_keeps [simp]:
  "placements (snd (record_if_new n k e sub t s)) = placements s"
  "nodes (snd (record_if_new n k e sub t s)) = nodes s"
  "transport_states (snd (record_if_new n k e sub t s)) = transport_states s"
  by (simp_all add: record_if_new_def uuid4_def Let_def)

lemma record_if_new_log:
  "el_event_id ` set (event_log (snd (record_if_new n k e sub t s))) = insert e (el_event_id ` set (event_log s))"
  by (auto simp: record_if_new_def uuid4_def Let_def create_row_def new_event_log_row_def)

lemma record_if_new_fst: "fst (record_if_new n k e sub t s) \<longleftrightarrow> e \<notin> el_event_id ` set (event_log s)"
  by (simp add: record_if_new_def uuid4_def Let_def)

lemma bulk_record_keeps [simp]:
  "placements (snd (bulk_record_if_new es s)) = placements s"
  "nodes (snd (bulk_record_if_new es s)) = nodes s"
  by (induction es arbitrary: s) (simp_all add: split_def Let_def)

lemma bulk_record_log:
  "el_event_id ` set (event_log (snd (bulk_record_if_new es s)))
     = el_event_id ` set (event_log s) \<union> eli_event_id ` set es"
  by (induction es arbitrary: s) (auto simp: split_def Let_def record_if_new_log)

lemma bulk_record_new:
  "set (fst (bulk_record_if_new es s)) = eli_event_id ` set es - el_event_id ` set (event_log s)"
  by (induction es arbitrary: s) (auto simp: split_def Let_def record_if_new_log record_if_new_fst)

lemma get_or_create_keeps [simp]:
  "placements (snd (get_or_create now n s)) = placements s"
  "nodes (snd (get_or_create now n s)) = nodes s"
  "event_log (snd (get_or_create now n s)) = event_log s"
  by (simp_all add: get_or_create_def uuid4_def Let_def split: option.splits)

lemma touch_results_keeps [simp]:
  "placements (touch_results now items s) = placements s"
  "nodes (touch_results now items s) = nodes s"
  "event_log (touch_results now items s) = event_log s"
proof -
  have "placements (fold (\<lambda>(n, eid, t). touch_result now n eid t) xs s) = placements s \<and>
        nodes (fold (\<lambda>(n, eid, t). touch_result now n eid t) xs s) = nodes s \<and>
        event_log (fold (\<lambda>(n, eid, t). touch_result now n eid t) xs s) = event_log s" for xs
    by (induction xs arbitrary: s) (auto simp: touch_result_def Let_def)
  then show "placements (touch_results now items s) = placements s"
    "nodes (touch_results now items s) = nodes s" "event_log (touch_results now items s) = event_log s"
    by (simp_all add: touch_results_def)
qed

lemma apply_report_groups_keeps:
  "nodes (snd (apply_report_groups items sts s)) = nodes s \<and>
   event_log (snd (apply_report_groups items sts s)) = event_log s"
  by (induction sts arbitrary: s) (auto simp: split_def Let_def apply_report_group_def)

lemma bulk_apply_keeps [simp]:
  "nodes (snd (bulk_apply_backend_report items s)) = nodes s"
  "event_log (snd (bulk_apply_backend_report items s)) = event_log s"
  by (simp_all add: bulk_apply_backend_report_def apply_report_groups_keeps)

subsection \<open>What a batch of reports does to a row\<close>

text \<open>
  A row that a report of one of the given states names in its current version becomes confirmed
  by such a report; every other row stays.
\<close>

definition reported :: "time \<Rightarrow> (report_item \<Rightarrow> bool) \<Rightarrow> user_placement \<Rightarrow> user_placement \<Rightarrow> bool" where
  "reported t Q p q \<longleftrightarrow>
     (if \<exists>x. Q x \<and> report_matches x p
      then \<exists>x. Q x \<and> report_matches x p \<and> q = confirm t (ri_applied_state x) p else q = p)"

lemma confirm_confirm [simp]: "confirm t st (confirm t st' p) = confirm t st p"
  by (simp add: confirm_def)

lemma list_all2_map_self: "(\<And>p. R p (f p)) \<Longrightarrow> list_all2 R xs (map f xs)"
  by (simp add: list_all2_conv_all_nth)

lemma apply_report_group_rows:
  assumes "\<forall>x \<in> set items. ri_updated_at x = t"
  shows "list_all2 (reported t (\<lambda>x. x \<in> set items \<and> ri_applied_state x = st))
           (placements s) (placements (snd (apply_report_group items st s)))"
proof -
  let ?grp = "filter (\<lambda>x. ri_applied_state x = st) items"
  have hit: "(row_id p, op_version p, backend_node_id p) \<in>
            set (map (\<lambda>x. (ri_id x, ri_op_version x, ri_backend_node_id x)) ?grp)
         \<longleftrightarrow> (\<exists>x. (x \<in> set items \<and> ri_applied_state x = st) \<and> report_matches x p)" for p
    by (force simp: report_matches_def)
  have t: "ri_updated_at (hd ?grp) = t" if "x \<in> set items" "ri_applied_state x = st" for x
  proof -
    have "?grp \<noteq> []" using that by (auto simp: filter_empty_conv)
    then have "hd ?grp \<in> set ?grp" by (rule hd_in_set)
    then show ?thesis using assms by simp
  qed
  have row: "reported t (\<lambda>x. x \<in> set items \<and> ri_applied_state x = st) p
     (if \<exists>x. (x \<in> set items \<and> ri_applied_state x = st) \<and> report_matches x p
      then p\<lparr>applied_state := st, applied_version := op_version p, updated_at := ri_updated_at (hd ?grp)\<rparr> else p)" for p
    unfolding reported_def confirm_def using t by auto
  show ?thesis
    using list_all2_map_self [of "reported t (\<lambda>x. x \<in> set items \<and> ri_applied_state x = st)", OF row]
    unfolding apply_report_group_def Let_def hit update_where_def by simp
qed

lemma reported_Cons:
  assumes "reported t (\<lambda>x. x \<in> set items \<and> ri_applied_state x = st) p q"
    and "reported t (\<lambda>x. x \<in> set items \<and> ri_applied_state x \<in> set sts) q r"
  shows "reported t (\<lambda>x. x \<in> set items \<and> ri_applied_state x \<in> set (st # sts)) p r"
  using assms by (auto simp: reported_def split: if_splits)

lemma apply_report_groups_rows:
  assumes "\<forall>x \<in> set items. ri_updated_at x = t"
  shows "list_all2 (reported t (\<lambda>x. x \<in> set items \<and> ri_applied_state x \<in> set sts))
           (placements s) (placements (snd (apply_report_groups items sts s)))"
proof (induction sts arbitrary: s)
  case Nil
  show ?case by (simp add: reported_def list_all2_same)
next
  case (Cons st sts)
  from list_all2_trans [OF reported_Cons apply_report_group_rows [OF assms] Cons.IH]
  show ?case by (simp only: apply_report_groups.simps split_def Let_def snd_conv)
qed

lemma bulk_apply_rows:
  assumes "\<forall>x \<in> set items. ri_updated_at x = t"
  shows "list_all2 (reported t (\<lambda>x. x \<in> set items))
           (placements s) (placements (snd (bulk_apply_backend_report items s)))"
proof -
  let ?sts = "rev (remdups (rev (map ri_applied_state items)))"
  have "(\<lambda>x. x \<in> set items \<and> ri_applied_state x \<in> set ?sts) = (\<lambda>x. x \<in> set items)"
    by (rule ext) auto
  then show ?thesis
    using apply_report_groups_rows [OF assms, of ?sts s] by (simp only: bulk_apply_backend_report_def)
qed

subsection \<open>Batches\<close>

text \<open>The events of a batch that count: they parse, and their node is known.\<close>

definition batch_event :: "db \<Rightarrow> result_msg list \<Rightarrow> result_event \<Rightarrow> uuid \<Rightarrow> bool" where
  "batch_event s msgs e n \<longleftrightarrow>
     (\<exists>m \<in> set msgs. parse_result m = Some e \<and> re_node_id e = Some n \<and> get_by_id n (nodes s) \<noteq> None)"

abbreviation valid_of :: "db \<Rightarrow> result_msg list \<Rightarrow> batch_item list" where
  "valid_of s msgs \<equiv> valid_results s (parsed_results msgs)"

abbreviation seen :: "db \<Rightarrow> string set" where
  "seen s \<equiv> el_event_id ` set (event_log s)"

lemma mem_parsed_results:
  "x \<in> set (parsed_results msgs) \<longleftrightarrow>
     bi_index x < length msgs \<and> bi_msg x = msgs ! bi_index x \<and> parse_result (bi_msg x) = Some (bi_event x) \<and>
     re_node_id (bi_event x) = Some (bi_node x)"
proof -
  have "x \<in> set (parsed_results msgs) \<longleftrightarrow>
      (\<exists>i m. i < length msgs \<and> m = msgs ! i \<and> (case parse_result m of None \<Rightarrow> None
         | Some e \<Rightarrow> map_option (\<lambda>n. \<lparr>bi_index = i, bi_msg = m, bi_event = e, bi_node = n\<rparr>) (re_node_id e)) = Some x)"
    unfolding parsed_results_def set_map_filter by (simp add: Bex_def in_set_enumerate_eq)
  then show ?thesis by (cases x) (auto split: option.splits)
qed

lemma batch_event_valid:
  "batch_event s msgs e n \<longleftrightarrow> (\<exists>x \<in> set (valid_of s msgs). bi_event x = e \<and> bi_node x = n)"
proof
  assume "batch_event s msgs e n"
  then obtain i where i: "i < length msgs" "parse_result (msgs ! i) = Some e" "re_node_id e = Some n"
    "get_by_id n (nodes s) \<noteq> None"
    by (auto simp: batch_event_def in_set_conv_nth)
  let ?x = "\<lparr>bi_index = i, bi_msg = msgs ! i, bi_event = e, bi_node = n\<rparr>"
  have "?x \<in> set (valid_of s msgs)" using i by (simp add: valid_results_def mem_parsed_results)
  then show "\<exists>x \<in> set (valid_of s msgs). bi_event x = e \<and> bi_node x = n" by force
qed (auto simp: batch_event_def valid_results_def mem_parsed_results intro!: bexI)

lemma ack_flags_nth:
  "length (ack_flags acked n) = n \<and> (i < n \<longrightarrow> (ack_flags acked n ! i \<longleftrightarrow> i \<in> set acked))"
proof -
  have upd: "fl[a := True] ! i \<longleftrightarrow> i = a \<or> fl ! i" if "i < length fl" for fl a
    using that by (cases "a = i") simp_all
  have "length (fold (\<lambda>i flags. flags[i := True]) acked fl) = length fl \<and>
      (i < length fl \<longrightarrow> (fold (\<lambda>i flags. flags[i := True]) acked fl ! i \<longleftrightarrow> i \<in> set acked \<or> fl ! i))" for fl
    by (induction acked arbitrary: fl) (auto simp: upd)
  from this [of "replicate n False"] show ?thesis
    by (simp add: ack_flags_def)
qed

lemma ack_flags_all: "{0..<n} \<subseteq> set acked \<Longrightarrow> ack_flags acked n = replicate n True"
  by (rule nth_equalityI) (use ack_flags_nth [of acked n] in auto)

lemma reports_of_Inr:
  "reports_of now xs = Inr rs \<Longrightarrow> set rs = {r. \<exists>x \<in> set xs. report_of now x = Some r}"
  by (induction xs arbitrary: rs) (auto split: option.splits sum.splits)

text \<open>What the session of a batch does, in one place.\<close>

definition fresh_report :: "time \<Rightarrow> batch_item list \<Rightarrow> db \<Rightarrow> report_item \<Rightarrow> bool" where
  "fresh_report now valid s r \<longleftrightarrow>
     (\<exists>x \<in> set valid. re_event_id (bi_event x) \<notin> seen s \<and> report_of now x = Some r)"

lemma apply_results_effect:
  assumes "apply_results now valid s = Inr (sts, s')"
  shows "nodes s' = nodes s \<and> seen s' = seen s \<union> (\<lambda>x. re_event_id (bi_event x)) ` set valid \<and>
         fst ` set sts = bi_index ` set valid \<and>
         list_all2 (reported now (fresh_report now valid s)) (placements s) (placements s')"
proof -
  obtain new_ids s1 where rec: "bulk_record_if_new (map (log_insert now) valid) s = (new_ids, s1)"
    by (cases "bulk_record_if_new (map (log_insert now) valid) s")
  let ?eid = "\<lambda>x. re_event_id (bi_event x)"
  let ?new = "filter (\<lambda>x. ?eid x \<in> set new_ids) valid"
  obtain reports where reps: "reports_of now ?new = Inr reports"
    using assms by (auto simp: apply_results_def rec Let_def split: sum.splits)
  obtain updated s2 where b: "bulk_apply_backend_report reports s1 = (updated, s2)"
    by (cases "bulk_apply_backend_report reports s1")
  have sts: "sts = map (\<lambda>x. (bi_index x, rs_skipped_idempotent)) (filter (\<lambda>x. ?eid x \<notin> set new_ids) valid) @
                   map (\<lambda>x. (bi_index x, new_status updated (bi_event x))) ?new"
    and s': "s' = touch_results now valid s2"
    using assms by (simp_all add: apply_results_def rec reps b Let_def)
  have ids: "eli_event_id ` set (map (log_insert now) valid) = ?eid ` set valid"
    by (simp add: image_image log_insert_def)
  note log = bulk_record_log [of "map (log_insert now) valid" s, unfolded ids rec snd_conv]
    and new = bulk_record_new [of "map (log_insert now) valid" s, unfolded ids rec fst_conv]
  have keep: "nodes s1 = nodes s" "placements s1 = placements s" "nodes s2 = nodes s1" "event_log s2 = event_log s1"
    using bulk_record_keeps [of "map (log_insert now) valid" s] bulk_apply_keeps [of reports s1]
    by (simp_all add: rec b)
  have "fst ` set sts = bi_index ` set valid" unfolding sts by (simp add: image_Un image_image) blast
  moreover have "(\<lambda>x. x \<in> set reports) = fresh_report now valid s"
    unfolding fresh_report_def reports_of_Inr [OF reps] by (rule ext) (auto simp: new)
  moreover have "\<forall>x \<in> set reports. ri_updated_at x = now"
    unfolding reports_of_Inr [OF reps] by (auto simp: report_of_def)
  note bulk_apply_rows [OF this, of s1, unfolded b snd_conv]
  ultimately show ?thesis by (simp add: s' keep log)
qed

text \<open>A batch of events that are all in the log already.\<close>

lemma apply_results_known:
  assumes "\<forall>x \<in> set valid. re_event_id (bi_event x) \<in> seen s"
  shows "\<exists>s'. apply_results now valid s = Inr (map (\<lambda>x. (bi_index x, rs_skipped_idempotent)) valid, s') \<and>
     placements s' = placements s"
proof -
  obtain new_ids s1 where rec: "bulk_record_if_new (map (log_insert now) valid) s = (new_ids, s1)"
    by (cases "bulk_record_if_new (map (log_insert now) valid) s")
  have "set new_ids = {}"
    using bulk_record_new [of "map (log_insert now) valid" s] assms
    by (auto simp: rec log_insert_def image_image)
  then have "new_ids = []" by simp
  moreover have "placements s1 = placements s"
    using bulk_record_keeps [of "map (log_insert now) valid" s] by (simp add: rec)
  ultimately show ?thesis
    unfolding apply_results_def rec Let_def prod.case by (simp add: bulk_apply_backend_report_def)
qed

text \<open>The flags of a batch that is answered.\<close>

lemma batch_all_acked:
  assumes "bi_index ` set (valid_of s msgs) \<subseteq> set xs"
  shows "ack_flags ((filter (\<lambda>i. i \<notin> bi_index ` set (parsed_results msgs)) [0..<length msgs] @
      map bi_index (filter (\<lambda>x. get_by_id (bi_node x) (nodes s) = None) (parsed_results msgs))) @ xs) (length msgs)
     = replicate (length msgs) True"
proof (rule ack_flags_all, rule subsetI)
  fix i assume "i \<in> {0..<length msgs}"
  show "i \<in> set ((filter (\<lambda>i. i \<notin> bi_index ` set (parsed_results msgs)) [0..<length msgs] @
      map bi_index (filter (\<lambda>x. get_by_id (bi_node x) (nodes s) = None) (parsed_results msgs))) @ xs)"
  proof (cases "i \<in> bi_index ` set (parsed_results msgs)")
    case False
    with \<open>i \<in> _\<close> show ?thesis by simp
  next
    case True
    then obtain x where x: "x \<in> set (parsed_results msgs)" "i = bi_index x" by auto
    show ?thesis
    proof (cases "get_by_id (bi_node x) (nodes s) = None")
      case True
      with x show ?thesis by auto
    next
      case False
      with x have "x \<in> set (valid_of s msgs)" by (simp add: valid_results_def)
      with assms x show ?thesis by auto
    qed
  qed
qed

text \<open>C6: Results of placement commands are applied exactly once.  A batch that is handled
  changes only placements that an event of the batch, not seen before and sent by the placement's
  backend, names in their current version; each of those becomes confirmed in that version with
  the state of such an event.  Every message of the batch is acknowledged to the broker.  If the
  messages are delivered again, in any order and any selection, by a broker that fails or not, no
  placement changes.\<close>

theorem result_batch_exactly_once:
  assumes "handle_result_batch nats now msgs s = (Inr (flags, acks), s1)"
  shows "flags = replicate (length msgs) True \<and>
         list_all2 (reported now (\<lambda>r. \<exists>e n. batch_event s msgs e n \<and> re_event_id e \<notin> seen s \<and>
             re_placement_id e = Some (ri_id r) \<and> ri_op_version r = re_op_version e \<and>
             ri_backend_node_id r = n \<and> ri_applied_state r = re_applied_state e \<and> ri_updated_at r = now))
           (placements s) (placements s1) \<and>
         (set msgs' \<subseteq> set msgs \<longrightarrow>
            placements (snd (handle_result_batch nats' now' msgs' s1)) = placements s1)"
proof (cases "valid_of s msgs = []")
  case True
  have none: "\<not> batch_event s msgs e n" for e n using True by (simp add: batch_event_valid)
  have s1: "s1 = s" and fl: "flags = ack_flags ((filter (\<lambda>i. i \<notin> bi_index ` set (parsed_results msgs)) [0..<length msgs] @
      map bi_index (filter (\<lambda>x. get_by_id (bi_node x) (nodes s) = None) (parsed_results msgs))) @ []) (length msgs)"
    using assms True by (auto simp: handle_result_batch_def Let_def)
  have "valid_of s msgs' = []" if "set msgs' \<subseteq> set msgs"
  proof (rule ccontr)
    assume "valid_of s msgs' \<noteq> []"
    then obtain x where "x \<in> set (valid_of s msgs')" by (cases "valid_of s msgs'") auto
    then have "batch_event s msgs' (bi_event x) (bi_node x)" by (auto simp: batch_event_valid)
    with that have "batch_event s msgs (bi_event x) (bi_node x)" unfolding batch_event_def by blast
    with none show False by blast
  qed
  with batch_all_acked [of s msgs "[]"] True show ?thesis
    by (auto simp: s1 fl none reported_def list_all2_same handle_result_batch_def Let_def)
next
  case False
  obtain sts where app: "apply_results now (valid_of s msgs) s = Inr (sts, s1)"
    and fl: "flags = ack_flags ((filter (\<lambda>i. i \<notin> bi_index ` set (parsed_results msgs)) [0..<length msgs] @
      map bi_index (filter (\<lambda>x. get_by_id (bi_node x) (nodes s) = None) (parsed_results msgs))) @ map fst sts) (length msgs)"
    using assms False by (auto simp: handle_result_batch_def Let_def split: sum.splits)
  note eff = apply_results_effect [OF app]
  have "flags = replicate (length msgs) True"
    unfolding fl by (rule batch_all_acked) (simp add: eff)
  moreover have "fresh_report now (valid_of s msgs) s = (\<lambda>r. \<exists>e n. batch_event s msgs e n \<and> re_event_id e \<notin> seen s \<and>
             re_placement_id e = Some (ri_id r) \<and> ri_op_version r = re_op_version e \<and>
             ri_backend_node_id r = n \<and> ri_applied_state r = re_applied_state e \<and> ri_updated_at r = now)"
    unfolding fresh_report_def batch_event_valid report_of_def by (rule ext) (auto, blast)
  moreover have "placements (snd (handle_result_batch nats' now' msgs' s1)) = placements s1" if sub: "set msgs' \<subseteq> set msgs"
  proof -
    have "\<forall>x \<in> set (valid_of s1 msgs'). re_event_id (bi_event x) \<in> seen s1"
    proof
      fix x assume "x \<in> set (valid_of s1 msgs')"
      then have "batch_event s1 msgs' (bi_event x) (bi_node x)" by (auto simp: batch_event_valid)
      with sub eff have "batch_event s msgs (bi_event x) (bi_node x)" by (auto simp: batch_event_def)
      then obtain y where "y \<in> set (valid_of s msgs)" "bi_event y = bi_event x" by (auto simp: batch_event_valid)
      with eff show "re_event_id (bi_event x) \<in> seen s1" by (metis UnI2 image_eqI)
    qed
    from apply_results_known [OF this, of now'] show ?thesis
      by (auto simp: handle_result_batch_def Let_def split: sum.splits)
  qed
  ultimately show ?thesis using eff by simp
qed

text \<open>
  The node id of an event is parsed with a guard, the placement id is not: one new event with a
  malformed placement id stops the whole batch, nothing of it is stored or acknowledged, and it
  comes again in the next delivery.
\<close>

lemma reports_of_malformed:
  "x \<in> set xs \<Longrightarrow> re_placement_id (bi_event x) = None \<Longrightarrow> \<exists>err. reports_of now xs = Inl err"
  by (induction xs) (auto simp: report_of_def split: option.splits sum.splits)

lemma malformed_placement_id_stops_batch:
  assumes "batch_event s msgs e n" "re_placement_id e = None" "re_event_id e \<notin> seen s"
  shows "\<exists>err. handle_result_batch nats now msgs s = (Inl err, s)"
proof -
  obtain x where x: "x \<in> set (valid_of s msgs)" "bi_event x = e" using assms(1) by (auto simp: batch_event_valid)
  let ?r = "bulk_record_if_new (map (log_insert now) (valid_of s msgs)) s"
  have "re_event_id e \<in> set (fst ?r)"
    using x assms(3) unfolding bulk_record_new by (auto simp: log_insert_def image_image)
  with x have "x \<in> set (filter (\<lambda>x. re_event_id (bi_event x) \<in> set (fst ?r)) (valid_of s msgs))" by simp
  from reports_of_malformed [OF this, of now] x assms(2) obtain err where
    "reports_of now (filter (\<lambda>x. re_event_id (bi_event x) \<in> set (fst ?r)) (valid_of s msgs)) = Inl err" by auto
  then have "apply_results now (valid_of s msgs) s = Inl err"
    by (simp add: apply_results_def split_def Let_def)
  moreover have "valid_of s msgs \<noteq> []" using x by auto
  ultimately show ?thesis by (simp add: handle_result_batch_def Let_def)
qed

definition sample_result :: "string \<Rightarrow> int \<Rightarrow> result_msg" where
  "sample_result eid v = \<lparr>rm_subject = None, rm_event = Some
     \<lparr>re_node_id = Some 2, re_emitted_at = 8, re_snapshot_id = None, re_epoch = None, re_event_id = eid,
      re_placement_id = Some 20, re_op_version = v, re_applied_state = as_applied\<rparr>\<rparr>"

definition agent_node :: vpn_node where
  "agent_node = \<lparr>row_id = 2, created_at = 0, updated_at = 0, is_active = True, node_name = ''b'', role = ''backend'',
     region = ''eu'', public_domain = ''d'', reality_ip = None, internal_wg_ip = '''', node_key = None,
     xray_api_port = 1, auth_token_hash = '''', agent_port = 2, is_enabled = True, is_draining = False,
     is_virtual = False, drain_source = None, capacity = 1, zone = None, upstream_node_id = None,
     bootstrap_token_expires_at = None, bootstrapped_at = None, wg_public_key = None, wg_listen_port = None\<rparr>"

definition results_db :: db where
  "results_db = empty_db\<lparr>placements := [sample_placement 20 7 2], nodes := [agent_node]\<rparr>"

lemmas results_eval = handle_result_batch_def parsed_results_def valid_results_def apply_results_def
  parse_result_def sample_result_def results_db_def agent_node_def sample_placement_def new_placement_def get_by_id_def
  log_insert_def record_if_new_def new_event_log_row_def create_row_def report_of_def
  bulk_apply_backend_report_def apply_report_group_def touch_results_def last_events_def touch_result_def
  get_or_create_def get_one_by_def new_transport_state_def acks_of_def result_ack_of_def ack_flags_def
  new_status_def List.map_filter_def uuid4_def

text \<open>
  The statuses are looked up by placement, not by event: an outdated event that comes in one batch
  with the current one is acknowledged as applied.
\<close>

lemma outdated_result_acked_as_applied:
  "map_option (map (\<lambda>a. case a of ResultAck r \<Rightarrow> (ra_op_version r, ra_status r) | _ \<Rightarrow> (0, rs_error)))
     (case fst (handle_result_batch (\<lambda>_. None) 9 [sample_result ''a'' 7, sample_result ''b'' 1] results_db) of
        Inl _ \<Rightarrow> None | Inr (_, acks) \<Rightarrow> Some acks)
   = Some [(7, rs_applied), (1, rs_applied)]"
  by (auto simp: results_eval Let_def image_iff)

theorem result_batch_exactly_once_witness:
  "map applied_state (placements (snd (handle_result_batch (\<lambda>_. None) 9 [sample_result ''a'' 1] results_db))) = [as_applied] \<and>
   placements (snd (handle_result_batch (\<lambda>_. None) 12 [sample_result ''a'' 1]
     (snd (handle_result_batch (\<lambda>_. None) 9 [sample_result ''a'' 1] results_db)))) =
   placements (snd (handle_result_batch (\<lambda>_. None) 9 [sample_result ''a'' 1] results_db))"
proof -
  let ?h = "handle_result_batch (\<lambda>_. None) 9 [sample_result ''a'' 1] results_db"
  obtain flags acks where h: "?h = (Inr (flags, acks), snd ?h)"
    by (simp add: results_eval Let_def)
  have "map applied_state (placements (snd ?h)) = [as_applied]" by (simp add: results_eval Let_def)
  moreover from result_batch_exactly_once [OF h, of "[sample_result ''a'' 1]" "\<lambda>_. None" 12]
  have "placements (snd (handle_result_batch (\<lambda>_. None) 12 [sample_result ''a'' 1] (snd ?h))) = placements (snd ?h)"
    by simp
  ultimately show ?thesis by simp
qed

section \<open>Snapshots carry everything\<close>

lemma concat_chunks:
  assumes "0 < n"
  shows "concat (map (\<lambda>k. take n (drop (k * n) xs)) [0..<m]) = take (m * n) xs"
proof (induction m)
  case (Suc m)
  have "take (m * n + n) xs = take (m * n) xs @ take n (drop (m * n) xs)" by (rule take_add)
  then have "take (n + m * n) xs = take (m * n) xs @ take n (drop (m * n) xs)" by (simp only: add.commute)
  with Suc show ?case by simp
qed simp

lemma chunk_count:
  assumes "0 < (n::nat)"
  shows "l \<le> (l + n - 1) div n * n"
    and "0 < l \<Longrightarrow> 0 < (l + n - 1) div n"
    and "k < (l + n - 1) div n \<Longrightarrow> k * n < l"
proof -
  let ?q = "(l + n - 1) div n"
  have "?q * n + (l + n - 1) mod n = l + n - 1" by (rule div_mult_mod_eq)
  moreover have "(l + n - 1) mod n < n" using assms by simp
  ultimately show "l \<le> ?q * n" by linarith
  show "0 < ?q" if "0 < l" using that assms by (simp add: div_greater_zero_iff)
  show "k * n < l" if "k < ?q"
  proof -
    from that have "(k + 1) * n \<le> ?q * n" by (intro mult_le_mono1) simp
    also have "\<dots> \<le> l + n - 1" by (rule div_times_less_eq_dividend)
    finally show ?thesis using assms by simp
  qed
qed

lemma chunk_items_concat: "0 < n \<Longrightarrow> concat (chunk_items n xs) = xs"
  unfolding chunk_items_def using chunk_count(1) [of n "length xs"] by (simp only: concat_chunks take_all)

lemma chunk_items_sizes: "0 < n \<Longrightarrow> c \<in> set (chunk_items n xs) \<Longrightarrow> 0 < length c \<and> length c \<le> n"
  by (auto simp: chunk_items_def dest!: chunk_count(3))

lemma chunk_items_Nil: "0 < n \<Longrightarrow> chunk_items n xs = [] \<longleftrightarrow> xs = []"
  using chunk_items_concat [of n xs] by (auto simp: chunk_items_def)

text \<open>What a node reads from the messages of one snapshot.\<close>

fun chunks_of :: "agent_message list \<Rightarrow> snapshot_chunk list" where
  "chunks_of [] = []"
| "chunks_of (SnapshotChunk c # ms) = c # chunks_of ms"
| "chunks_of (_ # ms) = chunks_of ms"

definition snapshot_wf :: "uuid \<Rightarrow> string \<Rightarrow> int \<Rightarrow> snapshot_chunk list \<Rightarrow> bool" where
  "snapshot_wf node sid epoch cs \<longleftrightarrow>
     cs \<noteq> [] \<and> map sc_chunk_index cs = [0..<length cs] \<and>
     map sc_is_last_chunk cs = replicate (length cs - 1) False @ [True] \<and>
     (\<forall>c \<in> set cs. sc_node_id c = node \<and> sc_snapshot_id c = sid \<and> sc_epoch c = epoch \<and>
        length (sc_items c) \<le> NODE_AGENT_SNAPSHOT_CHUNK_SIZE \<and>
        (\<forall>x \<in> set (sc_items c). si_snapshot_id x = sid \<and> si_epoch x = epoch \<and>
           (si_snapshot_complete x \<longleftrightarrow> sc_is_last_chunk c)))"

lemma chunks_of_append [simp]: "chunks_of (xs @ ys) = chunks_of xs @ chunks_of ys"
  by (induction xs rule: chunks_of.induct) simp_all

lemma chunks_of_upstreams [simp]: "chunks_of (fst (upstream_snapshots now entry bs s)) = []"
  by (induction bs arbitrary: s) (simp_all add: uuid4_def upstream_snapshot_of_def split_def Let_def)

lemma chunks_of_publish_upstreams [simp]: "chunks_of (fst (publish_upstreams_for_entry now r entry s)) = []"
  by (simp add: publish_upstreams_for_entry_def)

lemma chunks_of_map_chunk:
  "(\<And>x. x \<in> set xs \<Longrightarrow> f x = SnapshotChunk (g x)) \<Longrightarrow> chunks_of (map f xs) = map g xs"
  by (induction xs) simp_all

lemma last_flags: "0 < n \<Longrightarrow> map (\<lambda>i. i = n - 1) [0..<n] = replicate (n - 1) False @ [True]"
  by (rule nth_equalityI) (auto simp: nth_append)

lemma map_enumerate_snd: "map (\<lambda>x. f (snd x)) (enumerate k xs) = map f xs"
  by (induction xs arbitrary: k) simp_all

lemma snapshot_chunks_wf:
  "snapshot_wf node sid epoch (chunks_of (snapshot_chunks now node sid epoch commands)) \<and>
   map si_command (concat (map sc_items (chunks_of (snapshot_chunks now node sid epoch commands)))) = commands"
proof (cases "commands = []")
  case True
  then show ?thesis by (simp add: snapshot_chunks_def snapshot_chunk_of_def snapshot_wf_def Let_def)
next
  case False
  define items where "items = map (snapshot_item_of now sid epoch) commands"
  define ch where "ch = chunk_items NODE_AGENT_SNAPSHOT_CHUNK_SIZE items"
  have pos: "0 < NODE_AGENT_SNAPSHOT_CHUNK_SIZE" by (simp add: NODE_AGENT_SNAPSHOT_CHUNK_SIZE_def)
  have ne: "ch \<noteq> []" using False by (simp add: ch_def chunk_items_Nil [OF pos] items_def)
  let ?g = "\<lambda>(i, chunk). \<lparr>sc_node_id = node, sc_emitted_at = now, sc_snapshot_id = sid, sc_epoch = epoch,
      sc_chunk_index = i, sc_is_last_chunk = (i = length ch - 1),
      sc_items = map (\<lambda>x. x\<lparr>si_snapshot_complete := (i = length ch - 1)\<rparr>) chunk\<rparr>"
  have cs: "chunks_of (snapshot_chunks now node sid epoch commands) = map ?g (enumerate 0 ch)"
    unfolding snapshot_chunks_def Let_def items_def [symmetric] ch_def [symmetric] using False
    by (simp add: items_def chunks_of_map_chunk snapshot_chunk_of_def split_def)
  have items_in: "si_snapshot_id x = sid \<and> si_epoch x = epoch" if "c \<in> set ch" "x \<in> set c" for c x
  proof -
    have "set items = set (concat ch)" by (simp only: ch_def chunk_items_concat [OF pos])
    then have "x \<in> set items" using that by auto
    then show ?thesis by (auto simp: items_def snapshot_item_of_def)
  qed
  have enum_items: "si_snapshot_id x = sid \<and> si_epoch x = epoch" if "(i, c) \<in> set (enumerate 0 ch)" "x \<in> set c" for i c x
    by (rule items_in [of c]) (use that in \<open>auto simp: in_set_enumerate_eq\<close>)
  have enum_mem: "c \<in> set ch" if "(i, c) \<in> set (enumerate 0 ch)" for i c
    using that by (auto simp: in_set_enumerate_eq)
  have "length (enumerate 0 ch) \<noteq> 0" using ne by simp
  then have enum_ne: "enumerate 0 ch \<noteq> []" by blast
  have "map sc_is_last_chunk (map ?g (enumerate 0 ch)) = map (\<lambda>i. i = length ch - 1) (map fst (enumerate 0 ch))"
    unfolding map_map by (rule map_cong) (simp_all add: split_def)
  then have flags: "map sc_is_last_chunk (map ?g (enumerate 0 ch)) = replicate (length ch - 1) False @ [True]"
    using ne last_flags [of "length ch"] by simp
  have "map si_command (concat (map sc_items (map ?g (enumerate 0 ch)))) = map si_command (concat ch)"
    by (simp add: map_concat split_def comp_def map_enumerate_snd)
  then have rt: "map si_command (concat (map sc_items (map ?g (enumerate 0 ch)))) = commands"
    by (simp add: ch_def chunk_items_concat [OF pos] items_def comp_def snapshot_item_of_def)
  have "snapshot_wf node sid epoch (map ?g (enumerate 0 ch))"
    unfolding snapshot_wf_def flags
    using enum_ne chunk_items_sizes [OF pos, of _ items] enum_items enum_mem
    by (auto simp: split_def comp_def ch_def [symmetric])
  with rt show ?thesis by (simp only: cs)
qed

lemma reserve_snapshot_epoch_keeps [simp]:
  "placements (snd (reserve_snapshot_epoch now n req snap reason ra ga s)) = placements s"
  "nodes (snd (reserve_snapshot_epoch now n req snap reason ra ga s)) = nodes s"
  by (simp_all add: reserve_snapshot_epoch_def split_def Let_def split: option.splits)

lemma upstream_snapshots_keeps [simp]:
  "placements (snd (upstream_snapshots now entry bs s)) = placements s"
  "nodes (snd (upstream_snapshots now entry bs s)) = nodes s"
  "transport_states (snd (upstream_snapshots now entry bs s)) = transport_states s"
  by (induction bs arbitrary: s) (simp_all add: split_def Let_def)

lemma publish_upstreams_keeps [simp]:
  "placements (snd (publish_upstreams_for_entry now r entry s)) = placements s"
  "nodes (snd (publish_upstreams_for_entry now r entry s)) = nodes s"
  "transport_states (snd (publish_upstreams_for_entry now r entry s)) = transport_states s"
  by (simp_all add: publish_upstreams_for_entry_def)

text \<open>The handler for a node that is known, with the reservation named.\<close>

lemma handle_snapshot_request_known:
  assumes "handle_snapshot_request tx nats now sub ev s = (Inr msgs, s')"
    and "sr_node_id ev = Some node" and "get_by_id node (nodes s) = Some n"
  obtains snap epoch sid s1 where "snap \<noteq> []"
    and "reserve_snapshot_epoch now node (snapshot_request_event_id tx ev) snap
           (reason_value (sr_reason ev)) (sr_requested_at ev) now s = ((epoch, sid), s1)"
    and "chunks_of msgs = chunks_of (snapshot_chunks now node sid epoch
           (snapshot_commands (if role n = '''' then ''backend'' else role n) node s))"
    and "state_of node s' = state_of node s1" and "placements s' = placements s" and "nodes s' = nodes s"
proof -
  let ?snap = "''snap-'' @ uuid_text tx node @ ''-'' @ isoformat tx (sr_requested_at ev)"
  define r where "r = (if role n = '''' then ''backend'' else role n)"
  obtain epoch sid s1 where res: "reserve_snapshot_epoch now node (snapshot_request_event_id tx ev) ?snap
      (reason_value (sr_reason ev)) (sr_requested_at ev) now s = ((epoch, sid), s1)"
    by (metis prod.exhaust)
  have msgs: "msgs = snapshot_chunks now node sid epoch (snapshot_commands r node s) @
        fst (publish_upstreams_for_entry now r node s1)"
    and s': "s' = snd (record_if_new node ''snapshot_request'' (snapshot_request_event_id tx ev) sub now
        (snd (publish_upstreams_for_entry now r node s1)))"
    using assms(1) unfolding handle_snapshot_request_def assms(2,3) option.case Let_def res prod.case r_def [symmetric]
    by (auto simp: split_def split: sum.splits)
  have "placements s1 = placements s" "nodes s1 = nodes s"
    using reserve_snapshot_epoch_keeps [where s = s and now = now and n = node and req = "snapshot_request_event_id tx ev"
        and snap = ?snap and reason = "reason_value (sr_reason ev)" and ra = "sr_requested_at ev" and ga = now]
    by (simp_all only: res snd_conv)
  then show thesis
    by (intro that [OF _ res]) (simp_all add: msgs s' state_of_def flip: r_def)
qed

lemma backend_snapshot_ids:
  "set (map cp_placement_id (list_command_payloads_for_backend node s)) =
     row_id ` {p \<in> set (placements s). is_active p \<and> backend_node_id p = node \<and>
       (\<exists>k. get_by_id (key_id p) (vpn_keys s) = Some k \<and> is_active k)}"
proof -
  have "set (list_transport_rows_for_backend node s) =
      {(p, k). p \<in> set (placements s) \<and> backend_node_id p = node \<and> is_active p \<and>
         get_by_id (key_id p) (vpn_keys s) = Some k \<and> is_active k}"
    by (auto simp: list_transport_rows_for_backend_def set_map_filter join_key_def split: option.splits if_splits)
  moreover have "set (map cp_placement_id (list_command_payloads_for_backend node s)) =
      (\<lambda>(p, k). row_id p) ` set (list_transport_rows_for_backend node s)"
    by (simp add: list_command_payloads_for_backend_def build_command_payload_def image_image split_def)
  ultimately show ?thesis by (auto simp: image_iff)
qed

text \<open>C7: Snapshots lose nothing.  When a request of a known node is answered, the chunks that were
  published can be put together again: they are numbered from 0, exactly the last one is marked as
  last, none has more than 200 items, all carry the epoch and the snapshot id that the node's
  transport state now holds, and their items one after the other are the commands of the node; for
  a backend these are its active placements with an active key, for an entry those of its
  backends.  The placements stay as they are.  If the same request is delivered again, the
  answer carries the same epoch and the same snapshot id.\<close>

theorem snapshot_roundtrip:
  assumes "handle_snapshot_request tx nats now sub ev s = (Inr msgs, s')"
    and "sr_node_id ev = Some node" and "get_by_id node (nodes s) = Some n"
  shows "\<exists>st sid. state_of node s' = Some st \<and> last_snapshot_id st = Some sid \<and>
           snapshot_wf node sid (current_epoch st) (chunks_of msgs) \<and>
           map si_command (concat (map sc_items (chunks_of msgs))) =
             (if role n = ''entry'' \<or> role n = ''whitelist_entry'' then list_command_payloads_for_entry node s
              else list_command_payloads_for_backend node s) \<and>
           (role n \<noteq> ''entry'' \<and> role n \<noteq> ''whitelist_entry'' \<longrightarrow>
              set (map (cp_placement_id \<circ> si_command) (concat (map sc_items (chunks_of msgs)))) =
                row_id ` {p \<in> set (placements s). is_active p \<and> backend_node_id p = node \<and>
                  (\<exists>k. get_by_id (key_id p) (vpn_keys s) = Some k \<and> is_active k)}) \<and>
           placements s' = placements s \<and>
           (\<forall>nats' now' sub' msgs' s''. handle_snapshot_request tx nats' now' sub' ev s' = (Inr msgs', s'') \<longrightarrow>
              snapshot_wf node sid (current_epoch st) (chunks_of msgs'))"
proof -
  obtain snap epoch sid s1 where h: "snap \<noteq> []"
    "reserve_snapshot_epoch now node (snapshot_request_event_id tx ev) snap
       (reason_value (sr_reason ev)) (sr_requested_at ev) now s = ((epoch, sid), s1)"
    "chunks_of msgs = chunks_of (snapshot_chunks now node sid epoch
       (snapshot_commands (if role n = '''' then ''backend'' else role n) node s))"
    "state_of node s' = state_of node s1" "placements s' = placements s" "nodes s' = nodes s"
    by (rule handle_snapshot_request_known [OF assms])
  obtain st where st: "state_of node s1 = Some st" "current_epoch st = epoch" "last_snapshot_id st = Some sid"
    "last_snapshot_request_event_id st = Some (snapshot_request_event_id tx ev)" "sid \<noteq> []"
    using reserve_snapshot_epoch_state [OF h(2,1)] by blast
  have again: "snapshot_wf node sid epoch (chunks_of msgs')"
    if r: "handle_snapshot_request tx nats' now' sub' ev s' = (Inr msgs', s'')" for nats' now' sub' msgs' s''
  proof -
    have "get_by_id node (nodes s') = Some n" using assms(3) h(6) by simp
    from handle_snapshot_request_known [OF r assms(2) this] obtain snap' epoch' sid' s1' where
      h': "reserve_snapshot_epoch now' node (snapshot_request_event_id tx ev) snap'
       (reason_value (sr_reason ev)) (sr_requested_at ev) now' s' = ((epoch', sid'), s1')"
      "chunks_of msgs' = chunks_of (snapshot_chunks now' node sid' epoch'
       (snapshot_commands (if role n = '''' then ''backend'' else role n) node s'))"
      by metis
    have "epoch' = epoch" "sid' = sid"
      using reserve_snapshot_epoch_again [of node s' st sid] st h(4) h'(1) by simp_all
    then show ?thesis by (simp add: h'(2) snapshot_chunks_wf)
  qed
  have cmds: "map si_command (concat (map sc_items (chunks_of msgs))) =
      (if role n = ''entry'' \<or> role n = ''whitelist_entry'' then list_command_payloads_for_entry node s
       else list_command_payloads_for_backend node s)"
    by (simp add: h(3) snapshot_chunks_wf snapshot_commands_def)
  have ids: "set (map (cp_placement_id \<circ> si_command) (concat (map sc_items (chunks_of msgs)))) =
      row_id ` {p \<in> set (placements s). is_active p \<and> backend_node_id p = node \<and>
                  (\<exists>k. get_by_id (key_id p) (vpn_keys s) = Some k \<and> is_active k)}"
    if "role n \<noteq> ''entry'' \<and> role n \<noteq> ''whitelist_entry''"
    using that cmds backend_snapshot_ids [of node s] by (simp only: map_map [symmetric]) simp
  show ?thesis
  proof (intro exI [of _ st] exI [of _ sid] conjI)
    show "state_of node s' = Some st" "last_snapshot_id st = Some sid" "placements s' = placements s"
      using st h by simp_all
    show "snapshot_wf node sid (current_epoch st) (chunks_of msgs)"
      by (simp add: h(3) st(2) snapshot_chunks_wf)
    show "\<forall>nats' now' sub' msgs' s''. handle_snapshot_request tx nats' now' sub' ev s' = (Inr msgs', s'') \<longrightarrow>
              snapshot_wf node sid (current_epoch st) (chunks_of msgs')"
      unfolding st(2) using again by blast
  qed (use cmds ids in blast)+
qed

definition sample_text :: text_of where
  "sample_text = \<lparr>uuid_text = (\<lambda>_. ''u''), isoformat = (\<lambda>_. ''t'')\<rparr>"

definition sample_request :: snapshot_request where
  "sample_request = \<lparr>sr_node_text = ''u'', sr_node_id = Some 2, sr_requested_at = 4, sr_reason = startup,
     sr_known_snapshot_id = None\<rparr>"

definition snapshot_db :: db where
  "snapshot_db = results_db\<lparr>vpn_keys := [sample_key 7]\<rparr>"

lemmas snapshot_eval = handle_snapshot_request_def sample_text_def sample_request_def snapshot_db_def results_db_def
  agent_node_def sample_placement_def new_placement_def sample_key_def get_by_id_def snapshot_request_event_id_def
  reason_value_def reserve_snapshot_epoch_def get_or_create_def get_one_by_def new_transport_state_def create_row_def
  uuid4_def publish_upstreams_for_entry_def snapshot_commands_def list_command_payloads_for_backend_def
  list_transport_rows_for_backend_def join_key_def List.map_filter_def build_command_payload_def snapshot_chunks_def
  snapshot_item_of_def snapshot_chunk_of_def chunk_items_def NODE_AGENT_SNAPSHOT_CHUNK_SIZE_def record_if_new_def
  new_event_log_row_def

theorem snapshot_roundtrip_witness:
  "case handle_snapshot_request sample_text (\<lambda>_. None) 5 None sample_request snapshot_db of
     (Inr msgs, s') \<Rightarrow>
       set (map (cp_placement_id \<circ> si_command) (concat (map sc_items (chunks_of msgs)))) = {20} \<and>
       (\<exists>st sid. state_of 2 s' = Some st \<and> snapshot_wf 2 sid (current_epoch st) (chunks_of msgs))
   | _ \<Rightarrow> False"
proof -
  let ?h = "handle_snapshot_request sample_text (\<lambda>_. None) 5 None sample_request snapshot_db"
  obtain msgs s' where h: "?h = (Inr msgs, s')"
    by (simp add: snapshot_eval Let_def)
  have "sr_node_id sample_request = Some 2" "get_by_id 2 (nodes snapshot_db) = Some agent_node"
    by (simp_all add: snapshot_eval)
  from snapshot_roundtrip [OF h this] obtain st sid where
    "state_of 2 s' = Some st" "snapshot_wf 2 sid (current_epoch st) (chunks_of msgs)"
    "role agent_node \<noteq> ''entry'' \<and> role agent_node \<noteq> ''whitelist_entry'' \<longrightarrow>
       set (map (cp_placement_id \<circ> si_command) (concat (map sc_items (chunks_of msgs)))) =
       row_id ` {p \<in> set (placements snapshot_db). is_active p \<and> backend_node_id p = 2 \<and>
         (\<exists>k. get_by_id (key_id p) (vpn_keys snapshot_db) = Some k \<and> is_active k)}"
    by (elim exE conjE) (rule that)
  moreover have "row_id ` {p \<in> set (placements snapshot_db). is_active p \<and> backend_node_id p = 2 \<and>
      (\<exists>k. get_by_id (key_id p) (vpn_keys snapshot_db) = Some k \<and> is_active k)} = {20}"
  proof -
    have "placements snapshot_db = [sample_placement 20 7 2]"
      "get_by_id 7 (vpn_keys snapshot_db) = Some (sample_key 7)" "is_active (sample_key 7)"
      "is_active (sample_placement 20 7 2)" "backend_node_id (sample_placement 20 7 2) = 2"
      "key_id (sample_placement 20 7 2) = 7" "row_id (sample_placement 20 7 2) = 20"
      by (simp_all add: snapshot_eval)
    then show ?thesis by auto
  qed
  moreover have "role agent_node \<noteq> ''entry'' \<and> role agent_node \<noteq> ''whitelist_entry''"
    by (simp add: agent_node_def)
  ultimately have "set (map (cp_placement_id \<circ> si_command) (concat (map sc_items (chunks_of msgs)))) = {20} \<and>
      (\<exists>st sid. state_of 2 s' = Some st \<and> snapshot_wf 2 sid (current_epoch st) (chunks_of msgs))"
    by (simp only:) blast
  then show ?thesis unfolding h prod.case sum.case .
qed

end
