(* ===== verification/Control_Plane.thy ===== *)
theory Control_Plane
  imports Probe_Ingestion Entry_Drain Node_Admin Agent_Runtime
begin

text \<open>
  The components run side by side on one database: messages of agents, requests of administrators
  and the reconcilers interleave transaction by transaction.  This theory shows for the operations
  of each component that they keep the invariant of pools and placements, and collects them in one
  step relation.
\<close>

section \<open>Writes beside pools and placements\<close>

definition beside :: "db \<Rightarrow> db \<Rightarrow> bool" where
  "beside s s' \<longleftrightarrow>
     nodes s' = nodes s \<and> assignments s' = assignments s \<and> placements s' = placements s \<and> outbox s' = outbox s \<and>
     uuid_supply s \<le> uuid_supply s'"

lemma beside_refl [simp]: "beside s s"
  by (simp add: beside_def)

lemma beside_trans [trans]: "beside s s1 \<Longrightarrow> beside s1 s2 \<Longrightarrow> beside s s2"
  by (simp add: beside_def)

lemma sys_inv_beside: "sys_inv port s \<Longrightarrow> beside s s' \<Longrightarrow> sys_inv port s'"
  unfolding beside_def by (elim conjE) (rule sys_inv_elsewhere)

lemma beside_get_or_create: "beside s (snd (get_or_create now n s))"
  by (simp add: beside_def get_or_create_def uuid4_def Let_def split: option.split)

lemma beside_transport_state: "beside s s1 \<Longrightarrow> beside s (s1\<lparr>transport_states := t\<rparr>)"
  by (simp add: beside_def)

lemma beside_touch:
  "beside s (touch_result now n e t s)" "beside s (touch_heartbeat now n t s)" "beside s (touch_sync_report now n t s)"
  by (simp_all add: touch_result_def touch_heartbeat_def touch_sync_report_def Let_def beside_transport_state beside_get_or_create)

lemma beside_record_if_new: "beside s (snd (record_if_new n k e sub t s))"
  by (simp add: beside_def record_if_new_def uuid4_def Let_def)

lemma beside_bulk_record: "beside s (snd (bulk_record_if_new es s))"
proof (induction es arbitrary: s)
  case (Cons e es)
  from beside_trans [OF beside_record_if_new Cons.IH] show ?case by (simp add: split_def Let_def)
qed simp

lemma beside_touch_results: "beside s (touch_results now items s)"
proof -
  have "beside s (fold (\<lambda>(n, eid, t). touch_result now n eid t) xs s)" for xs
  proof (induction xs arbitrary: s)
    case (Cons x xs)
    from beside_trans [OF beside_touch(1) Cons.IH] show ?case by (simp add: split_def)
  qed simp
  then show ?thesis by (simp add: touch_results_def)
qed

lemma beside_agent_state:
  "beside s (upsert_agent_state now i d s)" "beside s (update_by_node_id i f s)"
  "beside s (clear_full_resync_required_for_node now i s)" "beside s (emit_mesh_alert n m now s)"
  by (simp_all add: beside_def upsert_agent_state_def update_by_node_id_def clear_full_resync_required_for_node_def
      emit_mesh_alert_def resolve_active_def bump_existing_def insert_alert_def uuid4_def Let_def split: option.split)

section \<open>Messages of agents\<close>

lemma handle_heartbeat_sys:
  assumes "handle_heartbeat port notify now n h s = Inr (ev, s')" "get_by_id i (nodes s) = Some n" "sys_inv port s"
  shows "sys_inv port s'"
proof -
  from handle_heartbeat_shape [OF assms(1,2) refl refl refl] obtain s2 d where
    s': "s' = emit_mesh_alert n (hb_mesh h) now (upsert_agent_state now i d s2)"
    and s2: "s2 = s \<or> (\<exists>b src. announce_backend port now n (s\<lparr>nodes := update_by_id i
            (\<lambda>n. n\<lparr>is_draining := b, drain_source := src, updated_at := now\<rparr>) (nodes s)\<rparr>) = Inr s2)" by blast
  have "sys_inv port s2"
    using s2
  proof
    assume "\<exists>b src. announce_backend port now n (s\<lparr>nodes := update_by_id i
            (\<lambda>n. n\<lparr>is_draining := b, drain_source := src, updated_at := now\<rparr>) (nodes s)\<rparr>) = Inr s2"
    then show ?thesis by (elim exE) (rule sys_inv_announce_backend [OF assms(3,2)]; simp)
  qed (simp add: assms(3))
  then show ?thesis
    unfolding s' by (rule sys_inv_beside) (rule beside_trans [OF beside_agent_state(1,4)])
qed

lemma heartbeat_message_sys [sys_ok]:
  assumes "handle_heartbeat_message port notify now node t h s = Inr (ev, s')" "sys_inv port s"
  shows "sys_inv port s'"
proof (cases "Option.bind node (\<lambda>i. get_by_id i (nodes s))")
  case None
  with assms show ?thesis by (simp add: handle_heartbeat_message_def)
next
  case (Some n)
  then obtain i where i: "node = Some i" "get_by_id i (nodes s) = Some n" by (auto simp: bind_eq_Some_conv)
  with assms(1) obtain s1 where h: "handle_heartbeat port notify now n h s = Inr (ev, s1)"
    and s': "s' = touch_heartbeat now (row_id n) t s1"
    by (auto simp: handle_heartbeat_message_def split: sum.splits)
  from handle_heartbeat_sys [OF h i(2) assms(2)] show ?thesis
    unfolding s' by (rule sys_inv_beside) (rule beside_touch)
qed

lemma sync_report_message_sys [sys_ok]:
  assumes "handle_sync_report_message deb now node t r s = (a, s')" "sys_inv port s"
  shows "sys_inv port s'"
proof -
  have store: "beside s (store_sync_report now i r s)" for i
    by (cases "agent_state_of s i") (simp_all add: store_sync_report_def beside_agent_state)
  have "beside s (snd (handle_sync_report deb now i r s))" for i
    using beside_trans [OF store beside_agent_state(3)] by (simp add: handle_sync_report_def)
  then have "beside s s'"
    using assms(1) beside_trans [OF _ beside_touch(3)]
    by (auto simp: handle_sync_report_message_def split_def Let_def split: option.splits)
  with assms(2) show ?thesis by (rule sys_inv_beside)
qed

lemma bulk_report_frame:
  "nodes (snd (bulk_apply_backend_report items s)) = nodes s \<and>
   assignments (snd (bulk_apply_backend_report items s)) = assignments s"
proof -
  have "nodes (snd (apply_report_groups items states s)) = nodes s \<and>
      assignments (snd (apply_report_groups items states s)) = assignments s" for states
    by (induction states arbitrary: s) (simp_all add: split_def Let_def apply_report_group_def)
  then show ?thesis by (simp add: bulk_apply_backend_report_def)
qed

lemma result_batch_sys [sys_ok]:
  assumes "handle_result_batch nats now msgs s = (r, s')" "sys_inv port s"
  shows "sys_inv port s'"
proof -
  have "sys_inv port s2" if run: "apply_results now valid s = Inr (st, s2)" for valid st s2
  proof -
    let ?s1 = "snd (bulk_record_if_new (map (log_insert now) valid) s)"
    have "\<exists>reports. s2 = touch_results now valid (snd (bulk_apply_backend_report reports ?s1))"
      using run by (auto simp: apply_results_def split_def Let_def split: sum.splits)
    then obtain reports where s2: "s2 = touch_results now valid (snd (bulk_apply_backend_report reports ?s1))" by blast
    have inv: "sys_inv port ?s1" using assms(2) beside_bulk_record by (rule sys_inv_beside)
    then have "placements_inv ?s1" by (simp add: sys_inv_def transport_inv_def)
    then have "sys_inv port (snd (bulk_apply_backend_report reports ?s1))"
      using bulk_report_frame by (intro sys_inv_placements [OF inv bulk_apply_backend_report_change]) simp_all
    then show ?thesis unfolding s2 by (rule sys_inv_beside) (rule beside_touch_results)
  qed
  with assms show ?thesis by (auto simp: handle_result_batch_def Let_def split: if_splits sum.splits)
qed

lemma beside_upstream_snapshots: "beside s (snd (upstream_snapshots now e bs s))"
proof (induction bs arbitrary: s)
  case (Cons b bs)
  have "beside s (s\<lparr>uuid_supply := Suc (uuid_supply s)\<rparr>)" by (simp add: beside_def)
  from beside_trans [OF this Cons.IH] show ?case by (simp add: split_def Let_def uuid4_def)
qed simp

lemma snapshot_request_sys [sys_ok]:
  assumes "handle_snapshot_request tx nats now sub ev s = (r, s')" "sys_inv port s"
  shows "sys_inv port s'"
proof -
  have res: "beside s (snd (reserve_snapshot_epoch now n q i x t g s))" for n q i x t g
    by (simp add: reserve_snapshot_epoch_def split_def Let_def beside_get_or_create beside_transport_state split: option.split)
  have up: "beside s1 (snd (publish_upstreams_for_entry now ro n s1))" for ro n s1
    by (simp add: publish_upstreams_for_entry_def beside_upstream_snapshots)
  have "beside s s'"
    using assms(1) beside_trans [OF beside_trans [OF res up] beside_record_if_new]
    by (auto simp: handle_snapshot_request_def split_def Let_def split: option.splits sum.splits)
  with assms(2) show ?thesis by (rule sys_inv_beside)
qed

section \<open>Publication\<close>

lemma publish_row_frame:
  "publish_row nats now r (n, s) = Inr (m, s') \<Longrightarrow> nodes s' = nodes s \<and> assignments s' = assignments s"
  by (auto simp: publish_row_def mark_failed_def mark_published_def get_or_create_def touch_command_def
      Let_def split_def split: if_splits option.splits payload.splits)

lemma publish_rows_frame:
  "publish_rows nats now rs (n, s) = Inr (m, s') \<Longrightarrow> nodes s' = nodes s \<and> assignments s' = assignments s"
proof (induction rs arbitrary: n s)
  case (Cons r rs)
  then obtain n' s1 where 1: "publish_row nats now r (n, s) = Inr (n', s1)" "publish_rows nats now rs (n', s1) = Inr (m, s')"
    by (auto split: sum.splits)
  with Cons.IH [OF 1(2)] publish_row_frame [OF 1(1)] show ?case by simp
qed simp

lemma publish_batch_frame:
  assumes "publish_outbox_batch nats now k s = (res, s')"
  shows "nodes s' = nodes s \<and> assignments s' = assignments s"
proof -
  obtain rows s1 where c: "claim_batch now k s = (rows, s1)" by (cases "claim_batch now k s")
  then have "nodes s1 = nodes s \<and> assignments s1 = assignments s" by (auto simp: claim_batch_def Let_def split: if_splits)
  with assms publish_rows_frame show ?thesis
    by (auto simp: publish_outbox_batch_def c split: if_splits sum.splits)
qed

text \<open>Announcements do not change when their rows are claimed and settled.\<close>

lemma informed_resent:
  assumes "informed port s e" "outbox s' = map g (outbox s)" "nodes s' = nodes s" "assignments s' = assignments s"
    and g: "\<And>r. ob_payload (g r) = ob_payload r" "\<And>r. ob_node_id (g r) = ob_node_id r"
  shows "informed port s' e"
proof -
  have "pools_sent e (map g rows) = pools_sent e rows" for rows
    by (induction rows) (auto simp: pools_sent_def List.map_filter_simps g split: option.split)
  then have "announced_pool e s' = announced_pool e s" by (simp add: announced_pool_def assms(2))
  moreover have "get_relay_pool port e s' = get_relay_pool port e s"
    using assms(3,4) by (intro get_relay_pool_cong) (simp_all add: require_entry_def list_by_entry_def)
  ultimately show ?thesis using assms(1,4) by (simp add: informed_def)
qed

lemma publish_sys [sys_ok]:
  assumes "publish_outbox_batch nats now k s = (res, s')" "sys_inv port s"
  shows "sys_inv port s'"
proof (cases res)
  case (Inl e)
  with assms have "s' = s" by (auto simp: publish_outbox_batch_def Let_def split: if_splits sum.splits prod.splits)
  with assms(2) show ?thesis by simp
next
  case (Inr n)
  have inv: "transport_inv s" "pools_inv port s" "backends_typed s" using assms(2) by (simp_all add: sys_inv_def pools_ok_def)
  then obtain f where
    f: "outbox s' = map (\<lambda>r. if r \<in> set (claimed_rows now k s)
                           then settle now (f (row_id r)) (claimed now r) else r) (outbox s)"
       "uuid_supply s \<le> uuid_supply s'"
    using publish_outbox_batch_outbox [of s nats now k n s'] assms(1) Inr by (auto simp: transport_inv_def outbox_inv_def)
  note frame = publish_batch_frame [OF assms(1)]
  have "informed port s' e" for e
    using inv(2) frame
    by (intro informed_resent [OF _ f(1)]) (simp_all add: pools_inv_def claimed_def settle_def split: option.split)
  moreover have "pool_ids_drawn s'"
    unfolding pool_ids_drawn_def f(1)
  proof (intro ballI)
    fix r assume "r \<in> set (map (\<lambda>r. if r \<in> set (claimed_rows now k s)
                           then settle now (f (row_id r)) (claimed now r) else r) (outbox s))"
    then obtain r0 where "r0 \<in> set (outbox s)" "ob_message_id r = ob_message_id r0" by auto
    moreover from this inv(2) have "case ob_message_id r0 of PoolChangedId _ _ i \<Rightarrow> i < uuid_supply s | _ \<Rightarrow> True"
      by (simp add: pools_inv_def pool_ids_drawn_def)
    ultimately show "case ob_message_id r of PoolChangedId _ _ i \<Rightarrow> i < uuid_supply s' | _ \<Rightarrow> True"
      using f(2) by (auto split: message_id.splits)
  qed
  ultimately have "pools_inv port s'" using inv(2) frame f(2) by (auto simp: pools_inv_def intro: below_mono)
  moreover have "backends_typed s'" using inv(3) frame by (simp add: backends_typed_def)
  moreover have "transport_inv s'" using inv(1) assms(1) by (blast intro: transport_step_inv transport_step.publish)
  ultimately show ?thesis by (simp add: sys_inv_def pools_ok_def)
qed

section \<open>Administrators\<close>

lemma drain_node_sys [sys_ok]:
  assumes "drain_node port now i s = Inr s'" "sys_inv port s"
  shows "sys_inv port s'"
proof -
  obtain n where n: "get_by_id i (nodes s) = Some n" and ann: "announce_backend port now n (s\<lparr>nodes := update_by_id i
      (\<lambda>n. n\<lparr>is_draining := True, drain_source := Some ''admin'', updated_at := now\<rparr>) (nodes s)\<rparr>) = Inr s'"
    using assms(1) by (auto simp: drain_node_def split: option.splits)
  show ?thesis by (rule sys_inv_announce_backend [OF assms(2) n _ _ _ _ _ _ _ _ ann]) simp_all
qed

lemma enable_node_sys [sys_ok]:
  assumes "enable_node port now i s = Inr s'" "sys_inv port s"
  shows "sys_inv port s'"
proof -
  obtain n where n: "get_by_id i (nodes s) = Some n" and ann: "announce_backend port now n (s\<lparr>nodes := update_by_id i
      (\<lambda>n. n\<lparr>is_draining := False, is_enabled := True, drain_source := None, updated_at := now\<rparr>) (nodes s)\<rparr>) = Inr s'"
    using assms(1) by (auto simp: enable_node_def split: option.splits)
  show ?thesis by (rule sys_inv_announce_backend [OF assms(2) n _ _ _ _ _ _ _ _ ann]) simp_all
qed

text \<open>The three operations on assignments: a change of the assignments of one entry, and its announcement.\<close>

lemma assignment_sys:
  assumes "sys_inv port s" "pools_inv port s'" "enqueue_pool_snapshot port now e s1 = Inr s'"
    "placements s1 = placements s" "outbox s1 = outbox s" "uuid_supply s \<le> uuid_supply s1" "backends_typed s1"
  shows "sys_inv port s'"
proof -
  have "transport_inv s1" using assms(1,4-6) by (auto simp: sys_inv_def intro: transport_inv_elsewhere)
  moreover have "enqueue_pool_snapshots port now [e] s1 = Inr s'" using assms(3) by simp
  ultimately have "transport_inv s'" using transport_inv_pool_snapshots by blast
  moreover have "backends_typed s'"
    using assms(7) only_outboxD [OF only_outbox_pool_snapshot [OF assms(3)]] by (simp add: backends_typed_def)
  ultimately show ?thesis using assms(2) by (simp add: sys_inv_def pools_ok_def)
qed

lemma assign_backend_sys [sys_ok]:
  assumes "assign_backend port now e pl s = Inr (i, s')" "sys_inv port s"
  shows "sys_inv port s'"
proof -
  let ?b = "ai_backend_node_id pl" and ?s1 = "snd (store_assignment now e pl s)"
  obtain n k s2 where s2: "require_backend ?b s = Inr n" "ensure_routes_for_assignment now e ?b ?s1 = Inr (k, s2)"
    "enqueue_pool_snapshot port now e s2 = Inr s'"
    using assms(1) by (auto simp: assign_backend_def split_def Let_def split: if_splits sum.splits)
  have p: "pools_inv port s" "backends_typed s" using assms(2) by (simp_all add: sys_inv_def pools_ok_def)
  note f = store_assignment_frame [OF p(1), where now = now and e = e and pl = pl] and g = ensure_routes_frame [OF s2(2)]
  have as: "eba_backend_node_id a = ?b \<or> (\<exists>a' \<in> set (assignments s). eba_backend_node_id a' = eba_backend_node_id a)"
    if "a \<in> set (assignments ?s1)" for a
    using that by (auto simp: store_assignment_def uuid4_def new_assignment_def set_update_where update_by_id_def
        split: option.splits)
  have "role n = ''backend''" "get_by_id ?b (nodes s) = Some n"
    using s2(1) by (auto simp: require_backend_def split: option.splits if_splits)
  then have "backends_typed s2"
    using p(2) as f(2) g unfolding backends_typed_def by fastforce
  moreover have "placements ?s1 = placements s" by (simp add: store_assignment_def uuid4_def split: option.split)
  ultimately show ?thesis
    using assignment_sys [OF assms(2) assign_backend_inv [OF p(1) assms(1)] s2(3)] f(3,4) g by simp
qed

lemma backends_typed_update:
  "backends_typed s \<Longrightarrow> (\<And>a. eba_backend_node_id (f a) = eba_backend_node_id a) \<Longrightarrow>
   backends_typed (s\<lparr>assignments := update_where P f (assignments s)\<rparr>)"
  by (auto simp: backends_typed_def set_update_where)

lemma remove_assignment_sys [sys_ok]:
  assumes "remove_assignment port now e b s = Inr (ok, s')" "sys_inv port s"
  shows "sys_inv port s'"
proof -
  have p: "pools_inv port s" "backends_typed s" using assms(2) by (simp_all add: sys_inv_def pools_ok_def)
  let ?f = "\<lambda>a. a\<lparr>is_active := False, updated_at := now\<rparr> :: entry_backend_assignment"
  have "sys_inv port s'" if "enqueue_pool_snapshot port now e (s\<lparr>assignments := update_by_id i ?f (assignments s)\<rparr>) = Inr s'" for i
    by (rule assignment_sys [OF assms(2) remove_assignment_inv [OF p(1) assms(1)] that])
       (use p(2) in \<open>simp_all add: update_by_id_def backends_typed_update\<close>)
  with assms show ?thesis by (auto simp: remove_assignment_def split: option.splits if_splits sum.splits)
qed

lemma update_assignment_sys [sys_ok]:
  assumes "update_assignment port now e b u s = Inr (r, s')" "sys_inv port s"
  shows "sys_inv port s'"
proof -
  have p: "pools_inv port s" "backends_typed s" using assms(2) by (simp_all add: sys_inv_def pools_ok_def)
  have "sys_inv port s'"
    if a: "get_by_entry_and_backend e b s = Some a" "update_assignment_fields now u a = Inr a'"
      and run: "enqueue_pool_snapshot port now e (s\<lparr>assignments := update_by_id (row_id a) (\<lambda>_. a') (assignments s)\<rparr>) = Inr s'" for a a'
  proof (rule assignment_sys [OF assms(2) update_assignment_inv [OF p(1) assms(1)] run])
    have "a \<in> set (assignments s)" using get_by_entry_and_backend_Some [OF a(1)] by simp
    moreover have "eba_backend_node_id a' = eba_backend_node_id a"
      using a(2) by (auto simp: update_assignment_fields_def split: sum.splits)
    ultimately show "backends_typed (s\<lparr>assignments := update_by_id (row_id a) (\<lambda>_. a') (assignments s)\<rparr>)"
      using p(2) by (auto simp: backends_typed_def update_by_id_def set_update_where)
  qed simp_all
  with assms show ?thesis by (auto simp: update_assignment_def split: option.splits if_splits sum.splits)
qed

section \<open>Placements\<close>

lemma upsert_sys [sys_ok]:
  assumes "upsert now pl s = Inr (p, s')" "sys_inv port s"
  shows "sys_inv port s'"
proof -
  obtain s1 where s1: "upsert_set_pending now (pu_key_id pl) (pu_backend_node_id pl) (pu_desired_state pl)
      (pu_sticky_until pl) (pu_last_migration_reason pl) s = Inr (p, s1)" "s' = enqueue_for_placement_ids now [row_id p] s1"
    using assms(1) by (auto simp: upsert_def split: option.splits sum.splits)
  have "placements_inv s" using assms(2) by (simp add: sys_inv_def transport_inv_def)
  then have "placement_change s s1" using upsert_set_pending_change s1(1) by blast
  moreover have "nodes s1 = nodes s" "assignments s1 = assignments s"
    using s1(1) by (auto simp: upsert_set_pending_def upsert_one_def uuid4_def Let_def split: option.splits if_splits sum.splits)
  ultimately show ?thesis
    unfolding s1(2) using assms(2) by (blast intro: sys_inv_enqueue_for_placement_ids sys_inv_placements)
qed

lemma migrate_backend_sys [sys_ok]:
  assumes "migrate_backend now pl s = Inr (out, s')" "sys_inv port s"
  shows "sys_inv port s'"
  using assms sys_inv_bulk_migrate [OF assms(2)]
  by (auto simp: migrate_backend_eq Let_def split: if_splits option.splits sum.splits
      intro: sys_inv_enqueue_for_placement_ids)

lemma error_retry_sys [sys_ok]:
  assumes "error_retry_tick now s = (n, s')" "sys_inv port s"
  shows "sys_inv port s'"
proof -
  have pinv: "placements_inv s" using assms(2) by (simp add: sys_inv_def transport_inv_def)
  have bump: "sys_inv port (s\<lparr>placements := update_where P (bump now) (placements s)\<rparr>)" for P
    using pinv by (intro sys_inv_placements [OF assms(2)] placement_change_update row_update_ok_bump)
      (simp_all add: placement_pair_def)
  show ?thesis
    using assms bump by (auto simp: error_retry_tick_def Let_def intro!: sys_inv_enqueue_for_placement_ids)
qed

section \<open>All together\<close>

text \<open>
  One transaction of the control plane.  The last rule stands for the writers of the other tables:
  routes, keys, alerts, signals and policies may change at any time.
\<close>

inductive system_step :: "int \<Rightarrow> db \<Rightarrow> db \<Rightarrow> bool" for port where
  heartbeat: "handle_heartbeat_message port notify now node t h s = Inr (ev, s') \<Longrightarrow> system_step port s s'"
| sync_report: "handle_sync_report_message deb now node t rep s = (ack, s') \<Longrightarrow> system_step port s s'"
| results: "handle_result_batch nats now msgs s = (res, s') \<Longrightarrow> system_step port s s'"
| snapshot: "handle_snapshot_request tx nats now sub req s = (msgs', s') \<Longrightarrow> system_step port s s'"
| publish: "publish_outbox_batch nats' now k s = (cnt, s') \<Longrightarrow> system_step port s s'"
| drain: "drain_node port now i s = Inr s' \<Longrightarrow> system_step port s s'"
| enable: "enable_node port now i s = Inr s' \<Longrightarrow> system_step port s s'"
| assign: "assign_backend port now e pl s = Inr (j, s') \<Longrightarrow> system_step port s s'"
| update: "update_assignment port now e b u s = Inr (r, s') \<Longrightarrow> system_step port s s'"
| remove: "remove_assignment port now e b s = Inr (ok, s') \<Longrightarrow> system_step port s s'"
| place: "upsert now pu s = Inr (p, s') \<Longrightarrow> system_step port s s'"
| migrate: "migrate_backend now mi s = Inr (mo, s') \<Longrightarrow> system_step port s s'"
| retry: "error_retry_tick now s = (cnt', s') \<Longrightarrow> system_step port s s'"
| heal: "auto_heal_tick port notify now s = Inr (ev', ho, s') \<Longrightarrow> system_step port s s'"
| probe_drain: "probe_auto_drain_tick port now s = Inr (ado, s') \<Longrightarrow> system_step port s s'"
| probe_request: "drain_and_migrate_endpoint port now pdi s = Inr (pdo, s') \<Longrightarrow> system_step port s s'"
| probe_report: "report pcfg notify now pri s = Inr (sig, rev_events, s') \<Longrightarrow> system_step port s s'"
| entry_drain: "entry_auto_drain_tick port now s = Inr (eo, s') \<Longrightarrow> system_step port s s'"
| elsewhere: "beside s s' \<Longrightarrow> system_step port s s'"

lemma system_step_inv: "system_step port s s' \<Longrightarrow> sys_inv port s \<Longrightarrow> sys_inv port s'"
  by (induction rule: system_step.induct) (blast intro: sys_ok sys_inv_beside)+

interpretation system_sm: step_invariant "sys_inv port" "system_step port" "sys_inv port" for port
  by unfold_locales (assumption, rule system_step_inv)

end
