(* ===== verification/Scenarios.thy ===== *)
theory Scenarios
  imports Repository
begin

text \<open>
  \<open>services/scenarios\<close>: campaigns are graphs of messages and conditions; an event enrolls a user,
  and a reconciler moves every enrolled user through the graph, sending the messages on the way.

  What a message looks like (text, media, buttons) is presentation and left out; publishing is a
  parameter that says whether the message was accepted.
\<close>

section \<open>Tables\<close>

record scenario_node =
  sn_key :: string
  sn_type :: string
  sn_delay_seconds :: int
  sn_condition :: string
  sn_repeat_count :: int
  sn_repeat_interval_sec :: int
  sn_check_kind :: "string option"

record scenario_edge =
  se_from :: string
  se_to :: string
  se_branch :: "string option"

record scenario_campaign = base +
  sc_trigger_event :: "string option"
  sc_entry_node_key :: "string option"
  sc_nodes :: "scenario_node list"
  sc_edges :: "scenario_edge list"

datatype ScenarioStatus = sc_active | sc_completed | sc_abandoned | sc_stopped

record scenario_state = base +
  ss_user_id :: uuid
  ss_campaign_id :: uuid
  ss_current_node_key :: "string option"
  ss_node_sends :: int
  ss_status :: ScenarioStatus
  ss_entered_at :: time
  ss_next_send_at :: "time option"
  ss_last_step_sent_at :: "time option"

record scenario_user = base +
  su_telegram_id :: int
  su_suppress_marketing :: bool

text \<open>The columns of subscriptions and plans that the conditions look at.\<close>

record user_subscription =
  us_user_id :: uuid
  us_plan_id :: "uuid option"
  us_first_connected_at :: "time option"
  us_expires_at :: "time option"

record scenario_db =
  sd_campaigns :: "scenario_campaign list"
  sd_states :: "scenario_state list"
  sd_users :: "scenario_user list"
  sd_subscriptions :: "user_subscription list"
  sd_plan_prices :: "(uuid \<times> int) list"
  sd_uuid_supply :: uuid

section \<open>ScenarioRepository\<close>

definition active_campaigns_by_trigger :: "string \<Rightarrow> scenario_db \<Rightarrow> scenario_campaign list" where
  "active_campaigns_by_trigger event d = filter (\<lambda>c. is_active c \<and> sc_trigger_event c = Some event) (sd_campaigns d)"

definition get_state :: "uuid \<Rightarrow> uuid \<Rightarrow> scenario_db \<Rightarrow> scenario_state option" where
  "get_state user campaign d = find (\<lambda>st. ss_user_id st = user \<and> ss_campaign_id st = campaign) (sd_states d)"

definition enroll :: "uuid \<Rightarrow> uuid \<Rightarrow> time \<Rightarrow> time \<Rightarrow> string \<Rightarrow> scenario_db \<Rightarrow> bool \<times> scenario_db" where
  "enroll user campaign entered next_send key d =
     (if get_state user campaign d \<noteq> None then (False, d)
      else (True, d\<lparr>sd_uuid_supply := Suc (sd_uuid_supply d), sd_states := create_row
        \<lparr>row_id = sd_uuid_supply d, created_at = entered, updated_at = entered, is_active = True, ss_user_id = user,
         ss_campaign_id = campaign, ss_current_node_key = Some key, ss_node_sends = 0, ss_status = sc_active,
         ss_entered_at = entered, ss_next_send_at = Some next_send, ss_last_step_sent_at = None\<rparr> (sd_states d)\<rparr>))"

definition list_due :: "time \<Rightarrow> nat \<Rightarrow> scenario_db \<Rightarrow> scenario_state list" where
  "list_due now n d =
     take n (sort_key (\<lambda>st. the (ss_next_send_at st))
       (filter (\<lambda>st. ss_status st = sc_active \<and> (case ss_next_send_at st of None \<Rightarrow> False | Some t \<Rightarrow> t \<le> now)) (sd_states d)))"

definition has_connected :: "uuid \<Rightarrow> scenario_db \<Rightarrow> bool" where
  "has_connected user d \<longleftrightarrow> (\<exists>x \<in> set (sd_subscriptions d). us_user_id x = user \<and> us_first_connected_at x \<noteq> None)"

definition has_paid :: "uuid \<Rightarrow> scenario_db \<Rightarrow> bool" where
  "has_paid user d \<longleftrightarrow> (\<exists>x \<in> set (sd_subscriptions d). us_user_id x = user \<and>
     (\<exists>(i, price) \<in> set (sd_plan_prices d). us_plan_id x = Some i \<and> price > 0))"

definition has_active_subscription :: "uuid \<Rightarrow> time \<Rightarrow> scenario_db \<Rightarrow> bool" where
  "has_active_subscription user now d \<longleftrightarrow> (\<exists>x \<in> set (sd_subscriptions d). us_user_id x = user \<and>
     (case us_expires_at x of None \<Rightarrow> False | Some t \<Rightarrow> t \<ge> now))"

section \<open>The graph\<close>

definition nodes_by_key :: "scenario_campaign \<Rightarrow> string \<Rightarrow> scenario_node option" where
  "nodes_by_key c key = find (\<lambda>n. sn_key n = key) (rev (sc_nodes c))"

definition next_edge_key :: "scenario_campaign \<Rightarrow> string \<Rightarrow> string option \<Rightarrow> string option" where
  "next_edge_key c from branch =
     (case find (\<lambda>e. se_from e = from \<and> se_branch e = branch) (sc_edges c) of
        Some e \<Rightarrow> Some (se_to e)
      | None \<Rightarrow>
          if branch = None then None
          else map_option se_to (find (\<lambda>e. se_from e = from) (sc_edges c)))"

definition condition_holds :: "string \<Rightarrow> uuid \<Rightarrow> time \<Rightarrow> scenario_db \<Rightarrow> bool" where
  "condition_holds cond user now d \<longleftrightarrow>
     (if cond = ''not_connected'' then \<not> has_connected user d
      else if cond = ''not_purchased'' then \<not> has_paid user d
      else if cond = ''no_active_sub'' then \<not> has_active_subscription user now d
      else if cond = ''connected'' then has_connected user d
      else if cond = ''purchased'' then has_paid user d
      else True)"

section \<open>Moving a user through a campaign\<close>

definition finished :: "scenario_state \<Rightarrow> scenario_state" where
  "finished st = st\<lparr>ss_status := sc_completed, ss_next_send_at := None\<rparr>"

text \<open>The loop of \<open>_walk_to_waitpoint\<close>; the first argument is what is left of its guard.\<close>

fun walk_loop :: "nat \<Rightarrow> scenario_campaign \<Rightarrow> time \<Rightarrow> scenario_db \<Rightarrow> string option \<Rightarrow> scenario_state \<Rightarrow> scenario_state" where
  "walk_loop 0 c now d key st = finished st"
| "walk_loop (Suc g) c now d key st =
     (case key of
        None \<Rightarrow> finished st
      | Some k \<Rightarrow>
          (case nodes_by_key c k of
             None \<Rightarrow> finished (st\<lparr>ss_current_node_key := Some k\<rparr>)
           | Some n \<Rightarrow>
               if sn_type n = ''end'' then finished (st\<lparr>ss_current_node_key := Some k\<rparr>)
               else if sn_type n = ''condition''
               then walk_loop g c now d
                      (next_edge_key c k (Some (if condition_holds (case sn_check_kind n of None \<Rightarrow> ''always''
                          | Some x \<Rightarrow> if x = [] then ''always'' else x) (ss_user_id st) now d then ''yes'' else ''no''))) st
               else st\<lparr>ss_current_node_key := Some k, ss_node_sends := 0,
                       ss_next_send_at := Some (now + usec (sn_delay_seconds n))\<rparr>))"

definition walk_to_waitpoint ::
  "scenario_campaign \<Rightarrow> time \<Rightarrow> scenario_db \<Rightarrow> string option \<Rightarrow> scenario_state \<Rightarrow> scenario_state" where
  "walk_to_waitpoint c now d start st = walk_loop 64 c now d start st"

text \<open>The id of a message: state, node, and how often the node was sent before.\<close>

type_synonym scenario_message = "uuid \<times> string \<times> int"

definition send_message ::
  "(scenario_message \<Rightarrow> bool) option \<Rightarrow> scenario_state \<Rightarrow> scenario_node \<Rightarrow> bool \<times> scenario_message list" where
  "send_message nats st n =
     (case nats of
        None \<Rightarrow> (False, [])
      | Some publish \<Rightarrow> let m = (row_id st, sn_key n, ss_node_sends st) in (publish m, [m]))"

definition repeat_cap :: "scenario_node \<Rightarrow> int" where
  "repeat_cap n = max 1 (if sn_repeat_count n = 0 then 1 else sn_repeat_count n)"

definition process_state ::
  "(scenario_message \<Rightarrow> bool) option \<Rightarrow> time \<Rightarrow> scenario_db \<Rightarrow> scenario_state \<Rightarrow> bool \<times> scenario_message list \<times> scenario_state" where
  "process_state nats now d st =
     (case get_by_id (ss_campaign_id st) (sd_campaigns d) of
        None \<Rightarrow> (False, [], st\<lparr>ss_status := sc_stopped\<rparr>)
      | Some c \<Rightarrow>
          if \<not> is_active c then (False, [], st\<lparr>ss_status := sc_stopped\<rparr>)
          else case get_by_id (ss_user_id st) (sd_users d) of
            None \<Rightarrow> (False, [], st\<lparr>ss_status := sc_abandoned\<rparr>)
          | Some u \<Rightarrow>
              if su_suppress_marketing u then (False, [], st\<lparr>ss_status := sc_stopped\<rparr>)
              else case Option.bind (ss_current_node_key st) (nodes_by_key c) of
                None \<Rightarrow> (False, [], finished st)
              | Some n \<Rightarrow>
                  if sn_type n = ''condition''
                  then (False, [], walk_to_waitpoint c now d (ss_current_node_key st) st)
                  else if sn_type n = ''end'' then (False, [], finished st)
                  else if \<not> condition_holds (sn_condition n) (ss_user_id st) now d then (False, [], finished st)
                  else
                    let (ok, msgs) = send_message nats st n;
                        st1 = st\<lparr>ss_last_step_sent_at := Some now, ss_node_sends := ss_node_sends st + 1\<rparr>
                    in if ss_node_sends st1 < repeat_cap n
                       then (ok, msgs, st1\<lparr>ss_next_send_at := Some (now + usec
                               (if sn_repeat_interval_sec n \<noteq> 0 then sn_repeat_interval_sec n else sn_delay_seconds n))\<rparr>)
                       else (ok, msgs, walk_to_waitpoint c now d (next_edge_key c (sn_key n) None) st1))"

fun run_states ::
  "(scenario_message \<Rightarrow> bool) option \<Rightarrow> time \<Rightarrow> scenario_state list \<Rightarrow> scenario_db \<Rightarrow> nat \<times> scenario_message list \<times> scenario_db" where
  "run_states nats now [] d = (0, [], d)"
| "run_states nats now (st # sts) d =
     (let (ok, ms, st') = process_state nats now d st;
          (k, ms', d') = run_states nats now sts (d\<lparr>sd_states := update_by_id (row_id st) (\<lambda>_. st') (sd_states d)\<rparr>)
      in ((if ok then 1 else 0) + k, ms @ ms', d'))"

definition run_due ::
  "(scenario_message \<Rightarrow> bool) option \<Rightarrow> time \<Rightarrow> nat \<Rightarrow> scenario_db \<Rightarrow> nat \<times> scenario_message list \<times> scenario_db" where
  "run_due nats now n d = run_states nats now (list_due now n d) d"

section \<open>Enrollment\<close>

fun enroll_all :: "scenario_campaign list \<Rightarrow> uuid \<Rightarrow> time \<Rightarrow> scenario_db \<Rightarrow> nat \<times> scenario_db" where
  "enroll_all [] user now d = (0, d)"
| "enroll_all (c # cs) user now d =
     (case sc_entry_node_key c of
        None \<Rightarrow> enroll_all cs user now d
      | Some key \<Rightarrow>
          if key = [] then enroll_all cs user now d
          else case nodes_by_key c key of
            None \<Rightarrow> enroll_all cs user now d
          | Some n \<Rightarrow>
              let delay = (if sn_type n = ''message'' then sn_delay_seconds n else 0);
                  (fresh, d1) = enroll user (row_id c) now (now + usec delay) key d;
                  (k, d2) = enroll_all cs user now d1
              in ((if fresh then 1 else 0) + k, d2))"

text \<open>A user whose row is not visible yet makes the event come again.\<close>

definition enroll_for_event :: "time \<Rightarrow> string \<Rightarrow> int \<Rightarrow> scenario_db \<Rightarrow> (nat \<times> scenario_db) result" where
  "enroll_for_event now event telegram d =
     (let cs = active_campaigns_by_trigger event d in
      if cs = [] then Inr (0, d)
      else case find (\<lambda>u. su_telegram_id u = telegram) (sd_users d) of
        None \<Rightarrow> Inl (LookupError ''ScenarioUserNotReady'')
      | Some u \<Rightarrow> Inr (enroll_all cs (row_id u) now d))"

section \<open>The reconciler and the consumer of events\<close>

definition scenario_tick ::
  "int \<Rightarrow> (scenario_message \<Rightarrow> bool) option \<Rightarrow> time \<Rightarrow> scenario_db \<Rightarrow> nat \<times> scenario_message list \<times> scenario_db" where
  "scenario_tick batch_size nats now d = run_due nats now (nat (max 1 batch_size)) d"

datatype msg_reply = Ack | Nak int

definition SCENARIO_TRIGGERS :: "string list" where
  "SCENARIO_TRIGGERS = [''trial_started'', ''purchase'', ''user_registered'', ''subscription_expired'', ''trial_expired'']"

text \<open>
  The event is what the payload parses to. Nothing is committed when no campaign was entered; a user
  who is not there yet sends the message back for \<open>SCENARIO_ENROLL_RETRY_DELAY_SEC\<close> seconds.
\<close>

definition handle_message :: "time \<Rightarrow> (string \<times> int) option \<Rightarrow> scenario_db \<Rightarrow> msg_reply \<times> scenario_db" where
  "handle_message now event d =
     (case event of
        None \<Rightarrow> (Ack, d)
      | Some (kind, telegram) \<Rightarrow>
          if kind \<notin> set SCENARIO_TRIGGERS then (Ack, d)
          else case enroll_for_event now kind telegram d of
            Inl (LookupError _) \<Rightarrow> (Nak 3, d)
          | Inl _ \<Rightarrow> (Ack, d)
          | Inr (enrolled, d') \<Rightarrow> if enrolled \<noteq> 0 then (Ack, d') else (Ack, d))"

section \<open>Campaigns without cycles\<close>

text \<open>
  A campaign has no cycle if its keys can be ranked so that every edge leads to a smaller rank.
  Each turn of an active user then lowers a measure: the rank of the node, and on the same node
  the repetitions that are left.
\<close>

definition ranked :: "(string \<Rightarrow> nat) \<Rightarrow> scenario_campaign \<Rightarrow> bool" where
  "ranked rank c \<longleftrightarrow> (\<forall>e \<in> set (sc_edges c). rank (se_to e) < rank (se_from e))"

definition max_repeats :: "scenario_campaign \<Rightarrow> int" where
  "max_repeats c = Max (insert 1 (repeat_cap ` set (sc_nodes c)))"

definition turns_left :: "(string \<Rightarrow> nat) \<Rightarrow> scenario_campaign \<Rightarrow> string \<Rightarrow> int \<Rightarrow> nat" where
  "turns_left rank c k sends = rank k * nat (max_repeats c + 1) + nat (max_repeats c - sends)"

lemma max_repeats_ge: "1 \<le> max_repeats c" "n \<in> set (sc_nodes c) \<Longrightarrow> repeat_cap n \<le> max_repeats c"
  by (simp_all add: max_repeats_def)

lemma next_edge_smaller: "ranked rank c \<Longrightarrow> next_edge_key c k b = Some k' \<Longrightarrow> rank k' < rank k"
  by (auto simp: next_edge_key_def ranked_def split: option.splits if_splits dest!: find_Some_mem)

lemma turns_left_repeat: "sends + 1 < repeat_cap n \<Longrightarrow> n \<in> set (sc_nodes c) \<Longrightarrow>
    turns_left rank c k (sends + 1) < turns_left rank c k sends"
  using max_repeats_ge(2) [of n c] by (simp add: turns_left_def)

lemma turns_left_move:
  assumes "rank k' < rank k"
  shows "turns_left rank c k' 0 < turns_left rank c k sends"
proof -
  let ?C = "nat (max_repeats c + 1)"
  have "turns_left rank c k' 0 < Suc (rank k') * ?C" using max_repeats_ge(1) [of c] by (simp add: turns_left_def)
  also have "\<dots> \<le> rank k * ?C" using assms by (intro mult_le_mono1) simp
  also have "\<dots> \<le> turns_left rank c k sends" by (simp add: turns_left_def)
  finally show ?thesis .
qed

text \<open>A walk ends the scenario or stops at a message, with all its repetitions ahead.\<close>

lemma walk_loop_stops:
  assumes "ranked rank c" "ss_status (walk_loop g c now d key st) = sc_active"
  shows "\<exists>k0 k n. key = Some k0 \<and> ss_current_node_key (walk_loop g c now d key st) = Some k \<and> nodes_by_key c k = Some n \<and>
    sn_type n \<noteq> ''condition'' \<and> sn_type n \<noteq> ''end'' \<and> ss_node_sends (walk_loop g c now d key st) = 0 \<and>
    (k = k0 \<or> rank k < rank k0)"
  using assms(2)
proof (induction g arbitrary: key)
  case 0
  then show ?case by (simp add: finished_def)
next
  case (Suc g)
  from Suc.prems obtain k0 n where k: "key = Some k0" "nodes_by_key c k0 = Some n" "sn_type n \<noteq> ''end''"
    by (auto simp: finished_def split: option.splits if_splits)
  show ?case
  proof (cases "sn_type n = ''condition''")
    case False
    with k show ?thesis by simp
  next
    case True
    define key' where "key' = next_edge_key c k0 (Some (if condition_holds (case sn_check_kind n of None \<Rightarrow> ''always''
                          | Some x \<Rightarrow> if x = [] then ''always'' else x) (ss_user_id st) now d then ''yes'' else ''no''))"
    have eq: "walk_loop (Suc g) c now d key st = walk_loop g c now d key' st" using True k by (simp add: key'_def)
    from Suc.IH [of key'] Suc.prems obtain k1 k n' where ih: "key' = Some k1"
      "ss_current_node_key (walk_loop g c now d key' st) = Some k" "nodes_by_key c k = Some n'"
      "sn_type n' \<noteq> ''condition''" "sn_type n' \<noteq> ''end''" "ss_node_sends (walk_loop g c now d key' st) = 0"
      "k = k1 \<or> rank k < rank k1" unfolding eq by blast
    have "rank k1 < rank k0" using next_edge_smaller [OF assms(1)] ih(1) by (simp add: key'_def)
    with ih k(1) show ?thesis unfolding eq by auto
  qed
qed

lemma walk_loop_keeps [simp]:
  "row_id (walk_loop g c now d key st) = row_id st" "ss_campaign_id (walk_loop g c now d key st) = ss_campaign_id st"
  by (induction g arbitrary: key) (simp_all add: finished_def split: option.split)

lemma walk_keeps [simp]:
  "row_id (walk_to_waitpoint c now d key st) = row_id st"
  "ss_campaign_id (walk_to_waitpoint c now d key st) = ss_campaign_id st"
  by (simp_all add: walk_to_waitpoint_def)

lemma nodes_by_key_mem: "nodes_by_key c k = Some n \<Longrightarrow> n \<in> set (sc_nodes c) \<and> sn_key n = k"
  by (auto simp: nodes_by_key_def dest!: find_Some_mem)

lemma process_state_keeps:
  assumes "process_state nats now d st = (ok, ms, st')"
  shows "row_id st' = row_id st" "ss_campaign_id st' = ss_campaign_id st"
  using assms by (auto simp: process_state_def finished_def Let_def split_def split: option.splits if_splits)

lemma process_state_messages:
  assumes "process_state nats now d st = (ok, ms, st')"
  shows "ms = [] \<or> (\<exists>k. ss_current_node_key st = Some k \<and> ms = [(row_id st, k, ss_node_sends st)])"
proof (cases "ms = []")
  case False
  then obtain c n where "Option.bind (ss_current_node_key st) (nodes_by_key c) = Some n" "ms = snd (send_message nats st n)"
    using assms by (auto simp: process_state_def Let_def split_def split: option.splits if_splits)
  moreover from this obtain k where "ss_current_node_key st = Some k" "sn_key n = k"
    by (auto simp: bind_eq_Some_conv dest: nodes_by_key_mem)
  ultimately show ?thesis by (auto simp: send_message_def Let_def split: option.splits)
qed simp

lemma walk_stops:
  assumes "ranked rank c" "ss_status (walk_to_waitpoint c now d key st) = sc_active"
  shows "\<exists>k0 k n. key = Some k0 \<and> ss_current_node_key (walk_to_waitpoint c now d key st) = Some k \<and> nodes_by_key c k = Some n \<and>
    sn_type n \<noteq> ''condition'' \<and> ss_node_sends (walk_to_waitpoint c now d key st) = 0 \<and> (k = k0 \<or> rank k < rank k0)"
  using walk_loop_stops [OF assms(1), of 64 now d key st] assms(2) unfolding walk_to_waitpoint_def by blast

lemma process_state_active:
  assumes "process_state nats now d st = (ok, ms, st')" "get_by_id (ss_campaign_id st) (sd_campaigns d) = Some c"
    "ss_status st' = sc_active"
  obtains k n where "ss_current_node_key st = Some k" "nodes_by_key c k = Some n" "sn_type n = ''condition''"
      "st' = walk_to_waitpoint c now d (Some k) st"
  | k n where "ss_current_node_key st = Some k" "nodes_by_key c k = Some n" "ss_node_sends st + 1 < repeat_cap n"
      "ss_current_node_key st' = Some k" "ss_node_sends st' = ss_node_sends st + 1"
  | k st1 where "ss_current_node_key st = Some k" "st' = walk_to_waitpoint c now d (next_edge_key c k None) st1"
proof -
  have "\<exists>n. Option.bind (ss_current_node_key st) (nodes_by_key c) = Some n"
    using assms by (auto simp: process_state_def finished_def split: option.splits if_splits)
  then obtain k n where k: "ss_current_node_key st = Some k" "nodes_by_key c k = Some n" by (auto simp: bind_eq_Some_conv)
  then have key: "sn_key n = k" by (simp add: nodes_by_key_mem)
  let ?st1 = "st\<lparr>ss_last_step_sent_at := Some now, ss_node_sends := ss_node_sends st + 1\<rparr>"
  show ?thesis
  proof (cases "sn_type n = ''condition''")
    case True
    with assms k have "st' = walk_to_waitpoint c now d (Some k) st"
      by (auto simp: process_state_def split: option.splits if_splits)
    with True k that(1) show ?thesis by blast
  next
    case False
    show ?thesis
    proof (cases "ss_node_sends st + 1 < repeat_cap n")
      case True
      then have "ss_current_node_key st' = Some k \<and> ss_node_sends st' = ss_node_sends st + 1"
        using assms k False
        by (auto simp: process_state_def finished_def Let_def split_def split: option.splits if_splits)
      with True k that(2) show ?thesis by blast
    next
      case no: False
      have "st' = walk_to_waitpoint c now d (next_edge_key c k None) ?st1"
        using assms k False no key
        by (auto simp: process_state_def finished_def Let_def split_def split: option.splits if_splits)
      with k that(3) show ?thesis by blast
    qed
  qed
qed

lemma process_state_progress:
  assumes "process_state nats now d st = (ok, ms, st')" "get_by_id (ss_campaign_id st) (sd_campaigns d) = Some c"
    "ranked rank c" "ss_status st' = sc_active"
  shows "\<exists>k k'. ss_current_node_key st = Some k \<and> ss_current_node_key st' = Some k' \<and>
    turns_left rank c k' (ss_node_sends st') < turns_left rank c k (ss_node_sends st)"
  using assms(1,2,4)
proof (cases rule: process_state_active)
  case (1 k n)
  obtain k' n' where w: "ss_current_node_key st' = Some k'" "nodes_by_key c k' = Some n'" "sn_type n' \<noteq> ''condition''"
    "ss_node_sends st' = 0" "k' = k \<or> rank k' < rank k"
    using walk_stops [OF assms(3), of now d "Some k" st] assms(4) 1(4) by auto
  then have "rank k' < rank k" using 1(2,3) by auto
  with 1(1) w(1,4) turns_left_move [of rank k' k] show ?thesis by auto
next
  case (2 k n)
  with turns_left_repeat nodes_by_key_mem show ?thesis by auto
next
  case (3 k st1)
  obtain k0 k' where w: "next_edge_key c k None = Some k0" "ss_current_node_key st' = Some k'" "ss_node_sends st' = 0"
    "k' = k0 \<or> rank k' < rank k0"
    using walk_stops [OF assms(3), of now d "next_edge_key c k None" st1] assms(4) 3(2) by auto
  then have "rank k' < rank k" using next_edge_smaller [OF assms(3)] by fastforce
  with 3(1) w(2,3) turns_left_move [of rank k' k] show ?thesis by auto
qed

section \<open>The life of an enrolled user\<close>

text \<open>
  The turns \<open>run_due\<close> takes for one state: each with its publisher, its clock and the tables of that
  moment, until the state is no longer active.
\<close>

fun turns ::
  "((scenario_message \<Rightarrow> bool) option \<times> time \<times> scenario_db) list \<Rightarrow> scenario_state \<Rightarrow> scenario_message list \<times> scenario_state" where
  "turns [] st = ([], st)"
| "turns ((nats, now, d) # is) st =
     (if ss_status st \<noteq> sc_active then ([], st)
      else let (_, ms, st1) = process_state nats now d st; (ms', st') = turns is st1 in (ms @ ms', st'))"

definition campaign_stays :: "scenario_campaign \<Rightarrow> uuid \<Rightarrow> ((scenario_message \<Rightarrow> bool) option \<times> time \<times> scenario_db) list \<Rightarrow> bool" where
  "campaign_stays c i ins \<longleftrightarrow> (\<forall>(_, _, d) \<in> set ins. get_by_id i (sd_campaigns d) = Some c)"

lemma turns_inactive: "ss_status st \<noteq> sc_active \<Longrightarrow> turns ins st = ([], st)"
  by (cases ins) auto

lemma turns_active: "m \<in> set (fst (turns ins st)) \<Longrightarrow> ss_status st = sc_active"
  using turns_inactive [of st ins] by (cases "ss_status st = sc_active") auto

text \<open>Every message of a life carries the state's id and a position the state still had ahead of it.\<close>

lemma turns_messages:
  assumes "ranked rank c" "campaign_stays c (ss_campaign_id st) ins" "ss_current_node_key st = Some k"
    "(i, k', n) \<in> set (fst (turns ins st))"
  shows "turns_left rank c k' n \<le> turns_left rank c k (ss_node_sends st)"
  using assms(2-)
proof (induction ins arbitrary: st k)
  case (Cons x ins)
  obtain nats now d where x: "x = (nats, now, d)" by (cases x)
  obtain ok ms st1 where p: "process_state nats now d st = (ok, ms, st1)" by (cases "process_state nats now d st")
  have act: "ss_status st = sc_active" using Cons.prems(3) by (rule turns_active)
  have "(i, k', n) \<in> set ms \<or> (i, k', n) \<in> set (fst (turns ins st1))"
    using Cons.prems(3) act p by (auto simp: x split_def Let_def)
  then show ?case
  proof
    assume "(i, k', n) \<in> set ms"
    with process_state_messages [OF p] Cons.prems(2) show ?thesis by auto
  next
    assume later: "(i, k', n) \<in> set (fst (turns ins st1))"
    then have "ss_status st1 = sc_active" by (rule turns_active)
    with process_state_progress [OF p, of c rank] assms(1) Cons.prems(1,2) obtain k1
      where "ss_current_node_key st1 = Some k1" "turns_left rank c k1 (ss_node_sends st1) < turns_left rank c k (ss_node_sends st)"
      by (auto simp: x campaign_stays_def)
    with Cons.IH [of st1 k1] Cons.prems(1) later process_state_keeps [OF p] show ?thesis
      by (simp add: campaign_stays_def)
  qed
qed simp

text \<open>C22: An enrolled user does not stay in a campaign for ever. If the campaign has no cycle (its edges
  lower a rank), then whatever the conditions, the clock and the message bus answer, and whatever else
  changes in the tables, the state has left \<open>active\<close> after at most \<open>turns_left\<close> + 1 turns: the rank of
  its node times the largest number of repetitions, and the repetitions still due on that node.
\<close>

theorem scenario_terminates:
  assumes "ranked rank c" "campaign_stays c (ss_campaign_id st) ins" "ss_current_node_key st = Some k"
    "turns_left rank c k (ss_node_sends st) < length ins"
  shows "ss_status (snd (turns ins st)) \<noteq> sc_active"
  using assms(2-)
proof (induction ins arbitrary: st k)
  case (Cons x ins)
  obtain nats now d where x: "x = (nats, now, d)" by (cases x)
  obtain ok ms st1 where p: "process_state nats now d st = (ok, ms, st1)" by (cases "process_state nats now d st")
  show ?case
  proof (cases "ss_status st = sc_active \<and> ss_status st1 = sc_active")
    case False
    with p show ?thesis by (auto simp: x split_def Let_def turns_inactive)
  next
    case True
    with process_state_progress [OF p, of c rank] assms(1) Cons.prems(1,2) obtain k1
      where "ss_current_node_key st1 = Some k1" "turns_left rank c k1 (ss_node_sends st1) < turns_left rank c k (ss_node_sends st)"
      by (auto simp: x campaign_stays_def)
    with Cons.IH [of st1 k1] Cons.prems process_state_keeps [OF p] True p show ?thesis
      by (simp add: x split_def Let_def campaign_stays_def)
  qed
qed simp

text \<open>C23: In a campaign without a cycle no message id is used twice in the life of a state. The bus drops
  a message whose id it has seen, so this is what makes every reminder of the campaign arrive:
  a repetition of a node and a visit of another node never share an id.
\<close>

theorem scenario_messages_once:
  assumes "ranked rank c" "campaign_stays c (ss_campaign_id st) ins"
  shows "distinct (fst (turns ins st))"
  using assms(2)
proof (induction ins arbitrary: st)
  case (Cons x ins)
  obtain nats now d where x: "x = (nats, now, d)" by (cases x)
  obtain ok ms st1 where p: "process_state nats now d st = (ok, ms, st1)" by (cases "process_state nats now d st")
  note keeps = process_state_keeps [OF p]
  have stays: "campaign_stays c (ss_campaign_id st1) ins" using Cons.prems keeps by (simp add: campaign_stays_def)
  have "m \<notin> set (fst (turns ins st1))" if "m \<in> set ms" for m
  proof
    assume later: "m \<in> set (fst (turns ins st1))"
    then have "ss_status st1 = sc_active" by (rule turns_active)
    with process_state_progress [OF p, of c rank] assms(1) Cons.prems obtain k k1
      where k: "ss_current_node_key st = Some k" "ss_current_node_key st1 = Some k1"
        "turns_left rank c k1 (ss_node_sends st1) < turns_left rank c k (ss_node_sends st)"
      by (auto simp: x campaign_stays_def)
    from that process_state_messages [OF p] k(1) have "m = (row_id st, k, ss_node_sends st)" by auto
    with turns_messages [OF assms(1) stays k(2)] later k(3) show False by (metis leD)
  qed
  moreover have "distinct ms" using process_state_messages [OF p] by auto
  ultimately show ?case using Cons.IH [OF stays] p by (auto simp: x split_def Let_def)
qed simp

text \<open>A campaign with two reminders, the first sent twice, and a user who has not connected.\<close>

definition sample_scenario :: scenario_campaign where
  "sample_scenario = \<lparr>row_id = 7, created_at = 0, updated_at = 0, is_active = True,
     sc_trigger_event = Some ''trial_started'', sc_entry_node_key = Some ''a'',
     sc_nodes = [\<lparr>sn_key = ''a'', sn_type = ''message'', sn_delay_seconds = 0, sn_condition = ''not_connected'',
         sn_repeat_count = 2, sn_repeat_interval_sec = 60, sn_check_kind = None\<rparr>,
       \<lparr>sn_key = ''b'', sn_type = ''message'', sn_delay_seconds = 60, sn_condition = ''always'',
         sn_repeat_count = 0, sn_repeat_interval_sec = 0, sn_check_kind = None\<rparr>],
     sc_edges = [\<lparr>se_from = ''a'', se_to = ''b'', se_branch = None\<rparr>]\<rparr>"

definition sample_state :: scenario_state where
  "sample_state = \<lparr>row_id = 8, created_at = 0, updated_at = 0, is_active = True, ss_user_id = 9, ss_campaign_id = 7,
     ss_current_node_key = Some ''a'', ss_node_sends = 0, ss_status = sc_active, ss_entered_at = 0,
     ss_next_send_at = Some 0, ss_last_step_sent_at = None\<rparr>"

definition sample_scenario_db :: scenario_db where
  "sample_scenario_db = \<lparr>sd_campaigns = [sample_scenario], sd_states = [sample_state],
     sd_users = [\<lparr>row_id = 9, created_at = 0, updated_at = 0, is_active = True, su_telegram_id = 1, su_suppress_marketing = False\<rparr>],
     sd_subscriptions = [], sd_plan_prices = [], sd_uuid_supply = 10\<rparr>"

definition sample_turns :: "((scenario_message \<Rightarrow> bool) option \<times> time \<times> scenario_db) list" where
  "sample_turns = replicate 6 (Some (\<lambda>_. True), 0, sample_scenario_db)"

definition sample_rank :: "string \<Rightarrow> nat" where
  "sample_rank k = (if k = ''a'' then 1 else 0)"

lemma sample_scenario_ok:
  "ranked sample_rank sample_scenario" "campaign_stays sample_scenario (ss_campaign_id sample_state) sample_turns"
  "ss_current_node_key sample_state = Some ''a''"
  "turns_left sample_rank sample_scenario ''a'' (ss_node_sends sample_state) < length sample_turns"
  by (simp_all add: ranked_def sample_scenario_def sample_rank_def campaign_stays_def sample_state_def sample_turns_def
      sample_scenario_db_def get_by_id_def turns_left_def max_repeats_def repeat_cap_def)

theorem scenario_terminates_witness: "ss_status (snd (turns sample_turns sample_state)) \<noteq> sc_active"
  using scenario_terminates [OF sample_scenario_ok] .

lemma sample_messages: "fst (turns sample_turns sample_state) = [(8, ''a'', 0), (8, ''a'', 1), (8, ''b'', 0)]"
  by code_simp

theorem scenario_messages_once_witness:
  "fst (turns sample_turns sample_state) = [(8, ''a'', 0), (8, ''a'', 1), (8, ''b'', 0)] \<and>
   distinct (fst (turns sample_turns sample_state))"
  using scenario_messages_once [OF sample_scenario_ok(1,2)] sample_messages by simp

text \<open>
  Nothing checks that a campaign has no cycle. Two messages that lead to each other keep a user for
  ever, and the second time round they carry the ids of the first.
\<close>

definition cyclic_scenario :: scenario_campaign where
  "cyclic_scenario = sample_scenario\<lparr>sc_edges := sc_edges sample_scenario @ [\<lparr>se_from = ''b'', se_to = ''a'', se_branch = None\<rparr>]\<rparr>"

lemma cyclic_scenario_reuses_ids:
  "fst (turns (replicate 6 (Some (\<lambda>_. True), 0, sample_scenario_db\<lparr>sd_campaigns := [cyclic_scenario]\<rparr>)) sample_state) =
     [(8, ''a'', 0), (8, ''a'', 1), (8, ''b'', 0), (8, ''a'', 0), (8, ''a'', 1), (8, ''b'', 0)]"
  by code_simp

section \<open>Enrolling again\<close>

lemma get_state_some_iff:
  "get_state user campaign d \<noteq> None \<longleftrightarrow> (\<exists>st \<in> set (sd_states d). ss_user_id st = user \<and> ss_campaign_id st = campaign)"
  by (auto simp: get_state_def find_None_iff)

lemma enroll_keeps:
  "sd_campaigns (snd (enroll user campaign t u key d)) = sd_campaigns d" "sd_users (snd (enroll user campaign t u key d)) = sd_users d"
  "set (sd_states d) \<subseteq> set (sd_states (snd (enroll user campaign t u key d)))"
  by (auto simp: enroll_def create_row_def)

lemma enroll_enrolls: "get_state user campaign (snd (enroll user campaign t u key d)) \<noteq> None"
  by (cases "get_state user campaign d = None") (simp_all add: enroll_def get_state_some_iff create_row_def del: not_None_eq)

definition enrollable :: "scenario_campaign \<Rightarrow> bool" where
  "enrollable c \<longleftrightarrow> (\<exists>key. sc_entry_node_key c = Some key \<and> key \<noteq> [] \<and> nodes_by_key c key \<noteq> None)"

lemma enroll_all_keeps:
  "sd_campaigns (snd (enroll_all cs user now d)) = sd_campaigns d \<and> sd_users (snd (enroll_all cs user now d)) = sd_users d \<and>
   set (sd_states d) \<subseteq> set (sd_states (snd (enroll_all cs user now d)))"
proof (induction cs arbitrary: d)
  case (Cons c cs)
  then show ?case using enroll_keeps
    by (fastforce simp: split_def Let_def split: option.splits)
qed simp

lemma enroll_all_enrolls:
  "c \<in> set cs \<Longrightarrow> enrollable c \<Longrightarrow> get_state user (row_id c) (snd (enroll_all cs user now d)) \<noteq> None"
proof (induction cs arbitrary: d)
  case (Cons c' cs)
  show ?case
  proof (cases "c = c'")
    case True
    with Cons.prems obtain key n where key: "sc_entry_node_key c' = Some key" "key \<noteq> []" "nodes_by_key c' key = Some n"
      by (auto simp: enrollable_def)
    define d1 where "d1 = snd (enroll user (row_id c') now (now + usec (if sn_type n = ''message'' then sn_delay_seconds n else 0)) key d)"
    have "get_state user (row_id c') d1 \<noteq> None" unfolding d1_def by (rule enroll_enrolls)
    then have "get_state user (row_id c') (snd (enroll_all cs user now d1)) \<noteq> None"
      using enroll_all_keeps [of cs user now d1] unfolding get_state_some_iff by blast
    with key True show ?thesis by (simp add: split_def Let_def d1_def)
  next
    case False
    with Cons show ?thesis by (auto simp: split_def Let_def split: option.split)
  qed
qed simp

lemma enroll_all_none:
  "(\<And>c. c \<in> set cs \<Longrightarrow> enrollable c \<Longrightarrow> get_state user (row_id c) d \<noteq> None) \<Longrightarrow> enroll_all cs user now d = (0, d)"
  by (induction cs) (auto simp: enroll_def enrollable_def split: option.split)


lemma sample_enrolls:
  "enroll_for_event 0 ''trial_started'' 1 (sample_scenario_db\<lparr>sd_states := []\<rparr>) =
     Inr (1, snd (enroll 9 7 0 0 ''a'' (sample_scenario_db\<lparr>sd_states := []\<rparr>)))"
  by code_simp


end
