(* ===== verification/Route_Selector.thy ===== *)
theory Route_Selector
  imports Route_Repository
begin

text \<open>
  \<open>services/routing/selector.py\<close>: which routes a subscription gets.  The class is generic in
  the routes and takes its accessors as functions; so does the model.  A random generator is a
  pair of operations on its state, \<open>random()\<close> and the uniform index that \<open>choice\<close> draws; a
  selector without a seed has no generator.  Weights are exact rationals.
\<close>

section \<open>Accessors and generators\<close>

record ('a, 'b, 't, 'e) selector =
  get_backend_id :: "'a \<Rightarrow> 'b"
  get_transport_key :: "'a \<Rightarrow> 't"
  get_route_id :: "'a \<Rightarrow> uuid"
  get_weight :: "'a \<Rightarrow> rat"
  get_entry_key :: "'a \<Rightarrow> 'e"

record 'g generator =
  gen_random :: "'g \<Rightarrow> rat \<times> 'g"
  gen_below :: "nat \<Rightarrow> 'g \<Rightarrow> nat \<times> 'g"

text \<open>What Python documents: \<open>random()\<close> is in [0, 1), \<open>choice\<close> draws an index below the length.\<close>

definition generator_ok :: "'g generator \<Rightarrow> bool" where
  "generator_ok G \<longleftrightarrow> (\<forall>g. 0 \<le> fst (gen_random G g) \<and> fst (gen_random G g) < 1) \<and>
     (\<forall>n g. 0 < n \<longrightarrow> fst (gen_below G n g) < n)"

section \<open>random.choices\<close>

text \<open>
  \<open>choices(population, weights, k=1)\<close>: \<open>bisect_right\<close> of a random point in the running sums,
  with the last index as the upper bound.
\<close>

fun accumulate :: "rat \<Rightarrow> rat list \<Rightarrow> rat list" where
  "accumulate c [] = []"
| "accumulate c (w # ws) = (c + w) # accumulate (c + w) ws"

definition bisect_right :: "rat list \<Rightarrow> rat \<Rightarrow> nat" where
  "bisect_right cum x = min (length (takeWhile (\<lambda>c. c \<le> x) cum)) (length cum - 1)"

definition choices_one :: "'g generator \<Rightarrow> 'a list \<Rightarrow> rat list \<Rightarrow> 'g \<Rightarrow> 'a \<times> 'g" where
  "choices_one G xs weights g =
     (let cum = accumulate 0 weights; (u, g') = gen_random G g
      in (xs ! bisect_right cum (u * last cum), g'))"

definition choice_one :: "'g generator \<Rightarrow> 'a list \<Rightarrow> 'g \<Rightarrow> 'a \<times> 'g" where
  "choice_one G xs g = (let (i, g') = gen_below G (length xs) g in (xs ! i, g'))"

section \<open>The picks\<close>

definition weighted_pick ::
  "'g generator \<Rightarrow> ('a, 'b, 't, 'e) selector \<Rightarrow> 'a list \<Rightarrow> 'g option \<Rightarrow> ('a \<times> 'g option) option" where
  "weighted_pick G S candidates rng =
     (if candidates = [] then None
      else case rng of
        None \<Rightarrow> Some (candidates ! 0, None)
      | Some g \<Rightarrow>
          let weights = map (\<lambda>c. max 0 (get_weight S c)) candidates in
          if sum_list weights \<le> 0
          then let (x, g') = choice_one G candidates g in Some (x, Some g')
          else let (x, g') = choices_one G candidates weights g in Some (x, Some g'))"

text \<open>
  The loop of both diversity picks, for the key it spreads over: it prefers routes whose key is
  not used yet.  It stops after \<open>n\<close> picks or when the pool is empty; the pool that is left is
  the remainder.
\<close>

fun diversity_loop ::
  "'g generator \<Rightarrow> ('a, 'b, 't, 'e) selector \<Rightarrow> ('a \<Rightarrow> 'k) \<Rightarrow> nat \<Rightarrow> 'a list \<Rightarrow> 'k list
   \<Rightarrow> 'g option \<Rightarrow> 'a list \<times> 'a list \<times> 'g option" where
  "diversity_loop G S key 0 pool used rng = ([], pool, rng)"
| "diversity_loop G S key (Suc n) pool used rng =
     (let preferred = filter (\<lambda>r. key r \<notin> set used) pool;
          bucket = (if preferred \<noteq> [] then preferred else pool)
      in case weighted_pick G S bucket rng of
           None \<Rightarrow> ([], pool, rng)
         | Some (pick, rng') \<Rightarrow>
             let (rest, pool', rng'') =
               diversity_loop G S key n (filter (\<lambda>r. get_route_id S r \<noteq> get_route_id S pick) pool)
                 (key pick # used) rng'
             in (pick # rest, pool', rng''))"

definition weighted_entry_diversity_pick ::
  "'g generator \<Rightarrow> ('a, 'b, 't, 'e) selector \<Rightarrow> 'a list \<Rightarrow> nat \<Rightarrow> 'g option \<Rightarrow> 'a list \<times> 'g option" where
  "weighted_entry_diversity_pick G S candidates n rng =
     (let (sel, _, rng') = diversity_loop G S (get_entry_key S) n candidates [] rng in (sel, rng'))"

definition select_fallback_with_backend_diversity ::
  "'g generator \<Rightarrow> ('a, 'b, 't, 'e) selector \<Rightarrow> 'a list \<Rightarrow> nat \<Rightarrow> 'g option \<Rightarrow> 'a list \<times> 'a list" where
  "select_fallback_with_backend_diversity G S fallback n rng =
     (let (sel, remainder, _) = diversity_loop G S (get_backend_id S) n fallback [] rng in (sel, remainder))"

section \<open>Transport insurance\<close>

definition insurance_candidates :: "('a, 'b, 't, 'e) selector \<Rightarrow> 'a list \<Rightarrow> 'a list \<Rightarrow> 'a list" where
  "insurance_candidates S sel all_routes =
     filter (\<lambda>r. get_route_id S r \<notin> get_route_id S ` set sel \<and>
                  get_transport_key S r \<noteq> get_transport_key S (sel ! 0)) all_routes"

definition insurance_route :: "('a, 'b, 't, 'e) selector \<Rightarrow> 'b \<Rightarrow> 'a list \<Rightarrow> 'a" where
  "insurance_route S preferred candidates =
     (case find (\<lambda>r. get_backend_id S r \<noteq> preferred) candidates of
        Some r \<Rightarrow> r | None \<Rightarrow> candidates ! 0)"

definition insurance_index :: "('a, 'b, 't, 'e) selector \<Rightarrow> 'a list \<Rightarrow> nat" where
  "insurance_index S sel =
     (case find (\<lambda>i. get_transport_key S (sel ! i) = get_transport_key S (sel ! 0)) (rev [1..<length sel]) of
        Some i \<Rightarrow> i | None \<Rightarrow> length sel - 1)"

definition ensure_transport_insurance ::
  "('a, 'b, 't, 'e) selector \<Rightarrow> 'a list \<Rightarrow> 'a list \<Rightarrow> 'b \<Rightarrow> nat \<Rightarrow> 'a list" where
  "ensure_transport_insurance S sel all_routes preferred max_routes =
     (if length sel < 2 then sel
      else if \<exists>r \<in> set (tl sel). get_transport_key S r \<noteq> get_transport_key S (sel ! 0) then sel
      else let candidates = insurance_candidates S sel all_routes in
        if candidates = [] then sel
        else let insurance = insurance_route S preferred candidates in
          if length sel < max_routes then sel @ [insurance]
          else sel[insurance_index S sel := insurance])"

section \<open>The selection\<close>

text \<open>
  Primary routes first, at most two and spread over entries; then fallbacks spread over
  backends; then what is left, primary routes before fallbacks.
\<close>

definition fill_selection ::
  "('a, 'b, 't, 'e) selector \<Rightarrow> nat \<Rightarrow> 'a list \<Rightarrow> 'a list \<Rightarrow> 'a list \<Rightarrow> 'a list" where
  "fill_selection S n sel primary remainder =
     (if length sel < n
      then let primary_remainder = filter (\<lambda>r. get_route_id S r \<notin> get_route_id S ` set sel) primary;
               filled = sel @ take (n - length sel) primary_remainder
           in if length filled < n then filled @ take (n - length filled) remainder else filled
      else sel)"

definition select_before_insurance ::
  "'g generator \<Rightarrow> ('a, 'b, 't, 'e) selector \<Rightarrow> 'a list \<Rightarrow> 'b \<Rightarrow> nat \<Rightarrow> 'g option \<Rightarrow> 'a list" where
  "select_before_insurance G S rts preferred n rng =
     (let primary = filter (\<lambda>r. get_backend_id S r = preferred) rts;
          fallback = filter (\<lambda>r. get_backend_id S r \<noteq> preferred) rts;
          primary_target = min 2 (min (n - 1) (length primary));
          fallback_target = min (n - primary_target) (length fallback);
          (sel1, rng1) = weighted_entry_diversity_pick G S primary primary_target rng;
          (sel2, remainder) = select_fallback_with_backend_diversity G S fallback fallback_target rng1
      in take n (fill_selection S n (sel1 @ sel2) primary remainder))"

text \<open>\<open>max_routes\<close> is a Python integer; a negative one selects nothing.\<close>

definition select_routes ::
  "'g generator \<Rightarrow> ('a, 'b, 't, 'e) selector \<Rightarrow> 'a list \<Rightarrow> 'b \<Rightarrow> int \<Rightarrow> 'g option \<Rightarrow> 'a list" where
  "select_routes G S rts preferred max_routes rng =
     (if max_routes \<le> 0 then []
      else if max_routes = 1 then take 1 rts
      else ensure_transport_insurance S
             (select_before_insurance G S rts preferred (nat max_routes) rng)
             rts preferred (nat max_routes))"

section \<open>Picks are members of the pool\<close>

lemma length_accumulate [simp]: "length (accumulate c ws) = length ws"
  by (induction ws arbitrary: c) auto

lemma bisect_right_less: "cum \<noteq> [] \<Longrightarrow> bisect_right cum x < length cum"
  by (cases cum) (auto simp: bisect_right_def)

lemma choices_one_mem:
  assumes "xs \<noteq> []" "length ws = length xs"
  shows "fst (choices_one G xs ws g) \<in> set xs"
proof -
  have "accumulate 0 ws \<noteq> []" using assms by (cases ws) auto
  from bisect_right_less [OF this] assms(2) show ?thesis
    by (simp add: choices_one_def Let_def split_def)
qed

lemma weighted_pick_mem:
  assumes "generator_ok G" "candidates \<noteq> []"
  shows "\<exists>x rng'. weighted_pick G S candidates rng = Some (x, rng') \<and> x \<in> set candidates"
proof (cases rng)
  case None
  with assms(2) show ?thesis by (simp add: weighted_pick_def)
next
  case (Some g)
  let ?ws = "map (\<lambda>c. max 0 (get_weight S c)) candidates"
  have "fst (choice_one G candidates g) \<in> set candidates"
    using assms by (simp add: choice_one_def Let_def split_def generator_ok_def)
  moreover have "fst (choices_one G candidates ?ws g) \<in> set candidates"
    using assms(2) by (intro choices_one_mem) auto
  ultimately show ?thesis using assms(2) Some
    by (auto simp: weighted_pick_def Let_def split_def)
qed

lemma mset_remove_pick:
  assumes "distinct (map f xs)" "x \<in> set xs"
  shows "mset xs = add_mset x (mset (filter (\<lambda>y. f y \<noteq> f x) xs))"
  using assms
proof (induction xs)
  case (Cons y ys)
  show ?case
  proof (cases "y = x")
    case True
    with Cons.prems have "filter (\<lambda>z. f z \<noteq> f x) ys = ys"
      by (intro filter_True) (auto simp: image_iff)
    with True show ?thesis by simp
  next
    case False
    with Cons show ?thesis by (auto simp: image_iff)
  qed
qed simp

text \<open>The loop splits the pool into what it picked and what is left.\<close>

lemma diversity_loop_spec:
  assumes "generator_ok G" "distinct (map (get_route_id S) pool)"
    and "diversity_loop G S key n pool used rng = (sel, rest, rng')"
  shows "mset pool = mset sel + mset rest \<and> length sel = min n (length pool)"
  using assms(2,3)
proof (induction n arbitrary: pool used rng sel rest rng')
  case (Suc n)
  show ?case
  proof (cases "pool = []")
    case True
    with Suc.prems show ?thesis by (simp add: weighted_pick_def)
  next
    case False
    let ?pref = "filter (\<lambda>r. key r \<notin> set used) pool"
    let ?bucket = "if ?pref \<noteq> [] then ?pref else pool"
    have "?bucket \<noteq> []" using False by simp
    from weighted_pick_mem [OF assms(1) this, of S rng] obtain x rng1 where
      x: "weighted_pick G S ?bucket rng = Some (x, rng1)" "x \<in> set ?bucket" by blast
    then have mem: "x \<in> set pool" by (auto split: if_splits)
    let ?pool = "filter (\<lambda>r. get_route_id S r \<noteq> get_route_id S x) pool"
    obtain sel1 rest1 rng2 where rec: "diversity_loop G S key n ?pool (key x # used) rng1 = (sel1, rest1, rng2)"
      by (cases "diversity_loop G S key n ?pool (key x # used) rng1") auto
    have "distinct (map (get_route_id S) ?pool)" using Suc.prems(1) by (rule distinct_map_filter)
    from Suc.IH [OF this rec] have IH: "mset ?pool = mset sel1 + mset rest1"
      "length sel1 = min n (length ?pool)" by auto
    have split: "mset pool = add_mset x (mset ?pool)" using Suc.prems(1) mem by (rule mset_remove_pick)
    then have len: "length pool = Suc (length ?pool)" by (metis size_add_mset size_mset)
    from Suc.prems(2) x(1) rec have "sel = x # sel1" "rest = rest1"
      by (simp_all add: Let_def)
    then show ?thesis using IH split len by (simp del: mset_filter)
  qed
qed simp

section \<open>What is selected\<close>

lemma distinct_map_mset: "mset xs = mset ys \<Longrightarrow> distinct (map f xs) = distinct (map f ys)"
  by (metis mset_eq_imp_distinct_iff mset_map)

lemma fill_selection_spec:
  assumes "distinct (map (get_route_id S) (primary @ fallback))"
    and m1: "mset primary = mset sel1 + mset rest1" and m2: "mset fallback = mset sel2 + mset rest2"
    and full: "length (sel1 @ sel2) < n \<Longrightarrow> rest2 = []"
    and sel: "sel = take n (fill_selection S n (sel1 @ sel2) primary rest2)"
  shows "distinct (map (get_route_id S) sel)" and "set sel \<subseteq> set primary \<union> set fallback"
    and "length sel = min n (length primary + length fallback)"
    and "take (length (sel1 @ sel2)) sel = take n (sel1 @ sel2)"
proof -
  let ?id = "get_route_id S" and ?sel = "sel1 @ sel2"
  let ?rem = "filter (\<lambda>r. ?id r \<notin> ?id ` set ?sel) primary"
  have sets: "set primary = set sel1 \<union> set rest1" "set fallback = set sel2 \<union> set rest2"
    using arg_cong [OF m1, of set_mset] arg_cong [OF m2, of set_mset] by simp_all
  have dist: "distinct (map ?id (sel1 @ rest1 @ sel2 @ rest2))"
    using assms(1) m1 m2 by (subst distinct_map_mset [where ys = "primary @ fallback"]) auto
  have dsel: "distinct (map ?id ?sel)" and dj: "?id ` set rest1 \<inter> ?id ` set ?sel = {}"
    using dist by auto
  let ?P = "\<lambda>r. ?id r \<notin> ?id ` set ?sel"
  have "filter ?P sel1 = []" by (rule filter_False) auto
  moreover have "filter ?P rest1 = rest1" using dj by (intro filter_True) blast
  ultimately have "filter ?P (sel1 @ rest1) = rest1" by (simp only: filter_append append_Nil)
  moreover have "mset ?rem = mset (filter ?P (sel1 @ rest1))" by (simp only: mset_filter m1 mset_append)
  ultimately have rem: "length ?rem = length rest1" by (metis size_mset)
  have lens: "length primary = length sel1 + length rest1" "length fallback = length sel2 + length rest2"
    using arg_cong [OF m1, of size] arg_cong [OF m2, of size] by simp_all
  have d1: "distinct (map ?id (?sel @ take k ?rem))" for k
  proof -
    have "distinct (map ?id ?rem)" using assms(1) by (auto intro: distinct_map_filter)
    then have "distinct (map ?id (take k ?rem))" by (simp only: take_map [symmetric] distinct_take)
    moreover have "?id x \<notin> ?id ` set ?sel" if "x \<in> set (take k ?rem)" for x
      using in_set_takeD [OF that] by simp
    then have "?id ` set ?sel \<inter> ?id ` set (take k ?rem) = {}"
      unfolding disjoint_iff by (metis (no_types, lifting) imageE)
    ultimately show ?thesis
      unfolding map_append [of _ ?sel] distinct_append set_map using dsel by blast
  qed
  have sub: "set (take k ?rem) \<subseteq> set primary" for k
    using set_take_subset [of k ?rem] by (rule order_trans) auto
  have "sel = take n (?sel @ take (n - length ?sel) ?rem)"
    using full by (cases "length ?sel < n") (simp_all add: sel fill_selection_def Let_def)
  then have sel': "sel = take n ?sel @ take (n - length ?sel) ?rem" by simp
  have "distinct (take n (map ?id (?sel @ take (n - length ?sel) ?rem)))"
    by (rule distinct_take [OF d1])
  then show "distinct (map ?id sel)" by (simp only: sel' take_map take_append map_append) simp
  show "set sel \<subseteq> set primary \<union> set fallback"
    using sub sets set_take_subset [of n ?sel] by (auto simp: sel')
  show "length sel = min n (length primary + length fallback)"
    using rem lens full by (cases "length ?sel < n") (auto simp: sel')
  show "take (length ?sel) sel = take n ?sel" by (auto simp: sel' min_def)
qed

lemma weighted_entry_diversity_pick_spec:
  assumes "generator_ok G" "distinct (map (get_route_id S) xs)"
  obtains sel rest rng' where "weighted_entry_diversity_pick G S xs n rng = (sel, rng')"
    "mset xs = mset sel + mset rest" "length sel = min n (length xs)"
proof -
  obtain sel rest rng' where d: "diversity_loop G S (get_entry_key S) n xs [] rng = (sel, rest, rng')"
    by (cases "diversity_loop G S (get_entry_key S) n xs [] rng") auto
  from diversity_loop_spec [OF assms d] d show ?thesis
    by (intro that [of sel rng' rest]) (simp_all add: weighted_entry_diversity_pick_def)
qed

lemma select_fallback_spec:
  assumes "generator_ok G" "distinct (map (get_route_id S) xs)"
  obtains sel rest where "select_fallback_with_backend_diversity G S xs n rng = (sel, rest)"
    "mset xs = mset sel + mset rest" "length sel = min n (length xs)"
proof -
  obtain sel rest rng' where d: "diversity_loop G S (get_backend_id S) n xs [] rng = (sel, rest, rng')"
    by (cases "diversity_loop G S (get_backend_id S) n xs [] rng") auto
  from diversity_loop_spec [OF assms d] d show ?thesis
    by (intro that [of sel rest]) (simp_all add: select_fallback_with_backend_diversity_def)
qed

lemma select_before_insurance_spec:
  assumes ok: "generator_ok G" and ids: "distinct (map (get_route_id S) rts)" and "2 \<le> n"
    and sel_def: "sel = select_before_insurance G S rts preferred n rng"
  shows "distinct (map (get_route_id S) sel) \<and> set sel \<subseteq> set rts \<and> length sel = min n (length rts) \<and>
         ((\<exists>r \<in> set rts. get_backend_id S r = preferred) \<longrightarrow> get_backend_id S (hd sel) = preferred)"
proof -
  let ?P = "filter (\<lambda>r. get_backend_id S r = preferred) rts"
  let ?F = "filter (\<lambda>r. get_backend_id S r \<noteq> preferred) rts"
  let ?pt = "min 2 (min (n - 1) (length ?P))"
  let ?ft = "min (n - ?pt) (length ?F)"
  have dP: "distinct (map (get_route_id S) ?P)" and dF: "distinct (map (get_route_id S) ?F)"
    using ids by (simp_all add: distinct_map_filter)
  have mPF: "mset (?P @ ?F) = mset rts" by (simp add: multiset_partition [symmetric])
  then have dPF: "distinct (map (get_route_id S) (?P @ ?F))"
    using ids distinct_map_mset by blast
  have lPF: "length ?P + length ?F = length rts" by (rule sum_length_filter_compl)
  obtain sel1 rest1 rng1 where 1: "weighted_entry_diversity_pick G S ?P ?pt rng = (sel1, rng1)"
    "mset ?P = mset sel1 + mset rest1" "length sel1 = min ?pt (length ?P)"
    by (rule weighted_entry_diversity_pick_spec [OF ok dP])
  obtain sel2 rest2 where 2: "select_fallback_with_backend_diversity G S ?F ?ft rng1 = (sel2, rest2)"
    "mset ?F = mset sel2 + mset rest2" "length sel2 = min ?ft (length ?F)"
    by (rule select_fallback_spec [OF ok dF])
  have sel: "sel = take n (fill_selection S n (sel1 @ sel2) ?P rest2)"
    unfolding sel_def select_before_insurance_def Let_def 1(1) 2(1) prod.case ..
  have lF: "length ?F = length sel2 + length rest2"
    using arg_cong [OF 2(2), of size] by (simp only: size_mset size_union)
  have l1: "length sel1 = ?pt"
    unfolding 1(3) by (rule min_absorb1) (rule min.coboundedI2, rule min.cobounded2)
  have l2: "length sel2 = ?ft" unfolding 2(3) by (rule min_absorb1) (rule min.cobounded2)
  have full: "rest2 = []" if "length (sel1 @ sel2) < n"
  proof -
    have "length sel2 = n - length sel1 \<or> length sel2 = length ?F"
      unfolding l1 l2 by (metis min_def)
    with that lF show ?thesis by auto
  qed
  note spec = fill_selection_spec [OF dPF 1(2) 2(2) full sel]
  have "get_backend_id S (hd sel) = preferred" if "\<exists>r \<in> set rts. get_backend_id S r = preferred"
  proof -
    have "0 < length ?P" using that by (auto simp: filter_empty_conv)
    then have "0 < length sel1" unfolding l1 using assms(3) by simp
    then obtain x xs where x: "sel1 = x # xs" by (cases sel1) auto
    then have mem: "x \<in> set ?P" using arg_cong [OF 1(2), of set_mset]
      by (metis Un_iff list.set_intros(1) set_mset_mset set_mset_union)
    have "hd (take (length (sel1 @ sel2)) sel) = hd (take n (sel1 @ sel2))"
      by (rule arg_cong [OF spec(4)])
    moreover have "0 < n" using assms(3) by simp
    ultimately have "hd sel = x" using x by (simp add: hd_take)
    with mem show ?thesis by simp
  qed
  moreover have "set sel \<subseteq> set rts" using spec(2) by (rule order_trans) auto
  moreover have "length sel = min n (length rts)" using spec(3) unfolding lPF .
  ultimately show ?thesis using spec(1) by blast
qed

lemma insurance_route_mem: "c \<noteq> [] \<Longrightarrow> insurance_route S preferred c \<in> set c"
  using find_Some_mem [of _ c] by (auto simp: insurance_route_def split: option.splits)

lemma insurance_index_last:
  assumes "2 \<le> length sel" "\<forall>r \<in> set (tl sel). get_transport_key S r = get_transport_key S (sel ! 0)"
  shows "insurance_index S sel = length sel - 1"
proof -
  obtain m where m: "length sel = Suc (Suc m)"
    using assms(1) by (metis Suc_le_D numeral_2_eq_2 Suc_le_mono)
  have "sel ! Suc m = tl sel ! m" using m by (simp add: nth_tl)
  also have "\<dots> \<in> set (tl sel)" using m by simp
  finally have "get_transport_key S (sel ! Suc m) = get_transport_key S (sel ! 0)" using assms(2) by blast
  then show ?thesis by (simp add: insurance_index_def m)
qed

lemma insurance_cases:
  assumes "res = ensure_transport_insurance S sel rts preferred n"
  obtains (keep) "res = sel"
      "length sel < 2 \<or> (\<exists>r \<in> set (tl sel). get_transport_key S r \<noteq> get_transport_key S (sel ! 0)) \<or>
       insurance_candidates S sel rts = []"
  | (add) x where "x \<in> set (insurance_candidates S sel rts)" "length sel < n" "res = sel @ [x]"
  | (replace) x where "x \<in> set (insurance_candidates S sel rts)" "2 \<le> length sel"
      "res = sel[length sel - 1 := x]"
proof (cases "length sel < 2 \<or> (\<exists>r \<in> set (tl sel). get_transport_key S r \<noteq> get_transport_key S (sel ! 0)) \<or>
       insurance_candidates S sel rts = []")
  case True
  then have "res = sel" unfolding assms ensure_transport_insurance_def Let_def by argo
  with True keep show ?thesis by blast
next
  case False
  then have idx: "insurance_index S sel = length sel - 1" by (intro insurance_index_last) auto
  let ?x = "insurance_route S preferred (insurance_candidates S sel rts)"
  have "?x \<in> set (insurance_candidates S sel rts)" using False by (intro insurance_route_mem) blast
  moreover have "res = (if length sel < n then sel @ [?x] else sel[length sel - 1 := ?x])"
    unfolding assms ensure_transport_insurance_def Let_def idx using False by argo
  ultimately show ?thesis using False add replace by (cases "length sel < n") auto
qed

lemma ensure_transport_insurance_spec:
  assumes ids: "distinct (map (get_route_id S) sel)" "distinct (map (get_route_id S) rts)"
    and sub: "set sel \<subseteq> set rts" and len: "length sel = min n (length rts)"
    and res: "res = ensure_transport_insurance S sel rts preferred n"
  shows "distinct (map (get_route_id S) res) \<and> set res \<subseteq> set rts \<and> length res = length sel \<and>
         hd res = hd sel \<and>
         (2 \<le> length sel \<and> (\<exists>r \<in> set rts. get_transport_key S r \<noteq> get_transport_key S (hd sel)) \<longrightarrow>
          (\<exists>r \<in> set (tl res). get_transport_key S r \<noteq> get_transport_key S (hd sel)))"
  using res
proof (cases rule: insurance_cases)
  case keep
  have "\<exists>r \<in> set (tl sel). get_transport_key S r \<noteq> get_transport_key S (hd sel)"
    if two: "2 \<le> length sel" and r: "r \<in> set rts" "get_transport_key S r \<noteq> get_transport_key S (hd sel)" for r
  proof -
    obtain x xs where x: "sel = x # xs" using two by (cases sel) auto
    consider "\<exists>r \<in> set (tl sel). get_transport_key S r \<noteq> get_transport_key S (sel ! 0)"
      | "insurance_candidates S sel rts = []" using keep(2) two by force
    then show ?thesis
    proof cases
      case 2
      moreover have "get_transport_key S r \<noteq> get_transport_key S (sel ! 0)" using r(2) x by simp
      ultimately have "get_route_id S r \<in> get_route_id S ` set sel"
        using r(1) unfolding insurance_candidates_def filter_empty_conv by blast
      then obtain y where y: "y \<in> set sel" "get_route_id S r = get_route_id S y" by blast
      then have "r = y" using ids(2) sub r(1) by (intro distinct_map_unique [of "get_route_id S" rts]) auto
      then have "r \<in> set sel" using y(1) by simp
      then show ?thesis using r(2) x by auto
    qed (use x in simp)
  qed
  with keep(1) ids(1) sub show ?thesis by blast
next
  case (add x)
  then have "length sel = length rts" using len by simp
  then have "set sel = set rts"
    using sub ids by (metis card_subset_eq distinct_card distinct_map List.finite_set)
  then show ?thesis using add(1) by (auto simp: insurance_candidates_def)
next
  case (replace x)
  obtain y ys where y: "sel = y # ys" "ys \<noteq> []" using replace(2) by (cases sel; cases "tl sel") auto
  have x: "x \<in> set rts" "get_route_id S x \<notin> set (map (get_route_id S) sel)"
    "get_transport_key S x \<noteq> get_transport_key S (hd sel)"
    using replace(1) y by (auto simp: insurance_candidates_def)
  have "distinct (map (get_route_id S) res)"
    unfolding replace(3) map_update using ids(1) x(2) by (intro distinct_list_update) auto
  moreover have "set res \<subseteq> set rts"
    using set_update_subset_insert [of sel "length sel - 1" x] sub x(1) unfolding replace(3) by blast
  moreover have "res = y # ys[length ys - 1 := x]"
    using y by (cases ys) (auto simp: replace(3))
  moreover have "x \<in> set (ys[length ys - 1 := x])" using y(2) by (intro set_update_memI) simp
  ultimately show ?thesis using x(3) y by auto
qed

text \<open>C34: The selector returns as many routes as it is asked for and there are, each of them one of the
  given routes and none twice.  With two or more asked for, a route of the preferred backend
  comes first whenever there is one.  And the selection is insured against a blocked transport:
  if any given route uses another transport than the first one returned, some later route in the
  selection does.\<close>

theorem select_routes_correct:
  assumes "generator_ok G" and "distinct (map (get_route_id S) rts)"
    and "res = select_routes G S rts preferred m rng"
  shows "length res = min (nat m) (length rts) \<and> set res \<subseteq> set rts \<and>
         distinct (map (get_route_id S) res) \<and>
         (2 \<le> m \<and> (\<exists>r \<in> set rts. get_backend_id S r = preferred) \<longrightarrow>
            get_backend_id S (hd res) = preferred) \<and>
         (2 \<le> length res \<and> (\<exists>r \<in> set rts. get_transport_key S r \<noteq> get_transport_key S (hd res)) \<longrightarrow>
            (\<exists>r \<in> set (tl res). get_transport_key S r \<noteq> get_transport_key S (hd res)))"
proof -
  consider "m \<le> 0" | "m = 1" | "2 \<le> m" by linarith
  then show ?thesis
  proof cases
    case 1
    with assms(3) show ?thesis by (simp add: select_routes_def)
  next
    case 2
    with assms(2,3) show ?thesis
      by (cases rts) (auto simp: select_routes_def)
  next
    case 3
    let ?sel = "select_before_insurance G S rts preferred (nat m) rng"
    have n: "2 \<le> nat m" using 3 by simp
    note sel = select_before_insurance_spec [OF assms(1,2) n refl, of preferred rng]
    have res: "res = ensure_transport_insurance S ?sel rts preferred (nat m)"
      using 3 assms(3) by (simp add: select_routes_def)
    have "distinct (map (get_route_id S) ?sel)" "set ?sel \<subseteq> set rts" "length ?sel = min (nat m) (length rts)"
      using sel by blast+
    note ins = ensure_transport_insurance_spec [OF this(1) assms(2) this(2,3) res]
    show ?thesis using sel ins by simp
  qed
qed

text \<open>A generator for evaluations: it draws one half, and always the first index.\<close>

definition half_generator :: "unit generator" where
  "half_generator = \<lparr>gen_random = \<lambda>g. (1 / 2, g), gen_below = \<lambda>n g. (0, g)\<rparr>"

lemma half_generator_ok: "generator_ok half_generator"
  by (simp add: generator_ok_def half_generator_def)

text \<open>Routes as (id, (backend, transport)) with equal weights and one entry.\<close>

definition pair_selector :: "(nat \<times> nat \<times> nat, nat, nat, nat) selector" where
  "pair_selector = \<lparr>get_backend_id = \<lambda>r. fst (snd r), get_transport_key = \<lambda>r. snd (snd r),
     get_route_id = fst, get_weight = \<lambda>_. 1, get_entry_key = \<lambda>_. 0\<rparr>"

theorem select_routes_correct_witness:
  "let res = select_routes half_generator pair_selector [(1, 7, 0), (2, 8, 0), (3, 9, 1)] 7 2 (Some ())
   in length res = 2 \<and> (\<exists>r \<in> set (tl res). snd (snd r) \<noteq> snd (snd (hd res)))"
proof -
  let ?rts = "[(1, 7, 0), (2, 8, 0), (3, 9, 1)] :: (nat \<times> nat \<times> nat) list"
  let ?res = "select_routes half_generator pair_selector ?rts 7 2 (Some ())"
  have "distinct (map (get_route_id pair_selector) ?rts)" by (simp add: pair_selector_def)
  note c = select_routes_correct [OF half_generator_ok this refl, of 7 2 "Some ()"]
  have "\<exists>r \<in> set ?rts. get_transport_key pair_selector r \<noteq> get_transport_key pair_selector (hd ?res)"
    by (auto simp: pair_selector_def)
  with c show ?thesis by (auto simp: Let_def pair_selector_def)
qed

section \<open>Spreading over keys\<close>

lemma diversity_loop_distinct_keys:
  assumes "generator_ok G" "distinct (map (get_route_id S) pool)"
    and "diversity_loop G S key n pool used rng = (sel, rest, rng')"
    and "n \<le> card (key ` set pool - set used)"
  shows "distinct (map key sel) \<and> set (map key sel) \<inter> set used = {}"
  using assms(2-)
proof (induction n arbitrary: pool used rng sel rest rng')
  case (Suc n)
  let ?pref = "filter (\<lambda>r. key r \<notin> set used) pool"
  have "0 < card (key ` set pool - set used)" using Suc.prems(3) by simp
  then have "key ` set pool - set used \<noteq> {}" by fastforce
  then have pref: "?pref \<noteq> []" by (auto simp: filter_empty_conv)
  from weighted_pick_mem [OF assms(1) pref, of S rng] obtain x rng1 where
    x: "weighted_pick G S ?pref rng = Some (x, rng1)" "x \<in> set ?pref" by blast
  let ?pool = "filter (\<lambda>r. get_route_id S r \<noteq> get_route_id S x) pool"
  obtain sel1 rest1 rng2 where rec: "diversity_loop G S key n ?pool (key x # used) rng1 = (sel1, rest1, rng2)"
    by (cases "diversity_loop G S key n ?pool (key x # used) rng1") auto
  have pool: "set pool = insert x (set ?pool)"
  proof -
    have "mset pool = add_mset x (mset ?pool)" using Suc.prems(1) x(2) by (intro mset_remove_pick) auto
    from arg_cong [OF this, of set_mset] show ?thesis by simp
  qed
  have "key ` set pool - set used = insert (key x) (key ` set ?pool - set (key x # used))"
    unfolding pool using x(2) by auto
  then have "n \<le> card (key ` set ?pool - set (key x # used))"
    using Suc.prems(3) by (auto simp: card_insert_if split: if_splits)
  moreover have "distinct (map (get_route_id S) ?pool)" using Suc.prems(1) by (rule distinct_map_filter)
  ultimately have IH: "distinct (map key sel1) \<and> set (map key sel1) \<inter> set (key x # used) = {}"
    using Suc.IH [OF _ rec] by blast
  have "sel = x # sel1" using Suc.prems(2) x(1) rec pref by (simp add: Let_def)
  with IH x(2) show ?case by auto
qed simp

text \<open>The fallback routes are spread over backends: when as many backends are on offer as fallbacks
  are wanted, the chosen fallbacks run through pairwise different backends; in any case as many are
  chosen as wanted and possible, and the chosen ones and the remainder together are the fallbacks.\<close>

theorem fallback_backend_diversity:
  assumes "generator_ok G" and "distinct (map (get_route_id S) fallback)"
    and "select_fallback_with_backend_diversity G S fallback n rng = (sel, remainder)"
  shows "length sel = min n (length fallback) \<and> mset fallback = mset sel + mset remainder \<and>
         (n \<le> card (get_backend_id S ` set fallback) \<longrightarrow> distinct (map (get_backend_id S) sel))"
proof -
  obtain rng' where d: "diversity_loop G S (get_backend_id S) n fallback [] rng = (sel, remainder, rng')"
    using assms(3)
    by (cases "diversity_loop G S (get_backend_id S) n fallback [] rng")
       (auto simp: select_fallback_with_backend_diversity_def)
  show ?thesis
    using diversity_loop_spec [OF assms(1,2) d] diversity_loop_distinct_keys [OF assms(1,2) d] by auto
qed

theorem fallback_backend_diversity_witness:
  "distinct (map (get_backend_id pair_selector)
     (fst (select_fallback_with_backend_diversity half_generator pair_selector
        [(1, 7, 0), (2, 7, 0), (3, 9, 1)] 2 None)))"
proof -
  let ?rts = "[(1, 7, 0), (2, 7, 0), (3, 9, 1)] :: (nat \<times> nat \<times> nat) list"
  have "distinct (map (get_route_id pair_selector) ?rts)" by (simp add: pair_selector_def)
  from fallback_backend_diversity [OF half_generator_ok this prod.collapse [symmetric], of 2 None]
  show ?thesis by (simp add: pair_selector_def card_insert_if)
qed

section \<open>Weights\<close>

lemma accumulate_nth: "i < length ws \<Longrightarrow> accumulate c ws ! i = c + sum_list (take (Suc i) ws)"
  by (induction ws arbitrary: c i) (auto simp: nth_Cons' add.assoc split: nat.splits)

lemma accumulate_Nil [simp]: "accumulate c ws = [] \<longleftrightarrow> ws = []"
  by (cases ws) auto

lemma last_accumulate: "ws \<noteq> [] \<Longrightarrow> last (accumulate c ws) = c + sum_list ws"
  by (induction ws arbitrary: c) (auto simp: add.assoc split: if_splits)

text \<open>The index that \<open>choices\<close> draws has a positive weight.\<close>

lemma bisect_right_positive:
  assumes "\<forall>w \<in> set ws. 0 \<le> w" "0 < sum_list ws" "0 \<le> u" "u < 1"
  shows "0 < ws ! bisect_right (accumulate 0 ws) (u * sum_list ws)"
proof -
  let ?cum = "accumulate 0 ws" and ?x = "u * sum_list ws"
  have ne: "ws \<noteq> []" using assms(2) by auto
  have len: "length ?cum = length ws" by simp
  have "?x < sum_list ws" using assms(2,4) by simp
  then have "\<not> last ?cum \<le> ?x" using last_accumulate [OF ne, of 0] by simp
  moreover have "?cum \<noteq> []" using ne by simp
  ultimately have short: "length (takeWhile (\<lambda>c. c \<le> ?x) ?cum) < length ?cum"
    by (metis last_in_set nat_less_le length_takeWhile_le takeWhile_eq_all_conv takeWhile_eq_take take_all_iff)
  let ?i = "length (takeWhile (\<lambda>c. c \<le> ?x) ?cum)"
  have i: "bisect_right ?cum ?x = ?i" using short by (simp add: bisect_right_def)
  have above: "?x < ?cum ! ?i" using nth_length_takeWhile [OF short] by simp
  have below: "sum_list (take ?i ws) \<le> ?x"
  proof (cases ?i)
    case 0
    then show ?thesis using assms(2,3) by (simp add: mult_nonneg_nonneg)
  next
    case (Suc j)
    then have "?cum ! j \<le> ?x"
      using takeWhile_nth [of j "\<lambda>c. c \<le> ?x" ?cum] set_takeWhileD [OF nth_mem, of j "\<lambda>c. c \<le> ?x" ?cum]
      by simp
    then show ?thesis using Suc short by (simp add: accumulate_nth)
  qed
  have "sum_list (take (Suc ?i) ws) = sum_list (take ?i ws) + ws ! ?i"
    using short by (simp add: take_Suc_conv_app_nth)
  then show ?thesis using above below short by (simp add: i accumulate_nth)
qed

text \<open>A seeded selection never picks a route of weight zero while the candidates have a route of
  positive weight.\<close>

theorem weighted_pick_positive:
  assumes "generator_ok G" and "\<exists>c \<in> set candidates. 0 < get_weight S c"
    and "weighted_pick G S candidates (Some g) = Some (x, rng')"
  shows "x \<in> set candidates \<and> 0 < get_weight S x"
proof -
  let ?ws = "map (\<lambda>c. max 0 (get_weight S c)) candidates"
  let ?u = "fst (gen_random G g)"
  let ?i = "bisect_right (accumulate 0 ?ws) (?u * sum_list ?ws)"
  have ne: "candidates \<noteq> []" using assms(2) by auto
  have pos: "0 < sum_list ?ws"
  proof -
    obtain c where c: "c \<in> set candidates" "0 < get_weight S c" using assms(2) by blast
    have "max 0 (get_weight S c) \<in> set ?ws" unfolding set_map using c(1) by (rule imageI)
    then have "max 0 (get_weight S c) \<le> sum_list ?ws" by (intro member_le_sum_list) auto
    with c(2) show ?thesis by simp
  qed
  have u: "0 \<le> ?u" "?u < 1" using assms(1) by (simp_all add: generator_ok_def)
  have len: "?i < length candidates" using bisect_right_less [of "accumulate 0 ?ws"] ne by simp
  have "last (accumulate 0 ?ws) = sum_list ?ws" using last_accumulate [of ?ws 0] ne by simp
  then have x: "x = candidates ! ?i"
    using assms(3) ne pos by (simp add: weighted_pick_def choices_one_def Let_def split_def)
  have "0 < ?ws ! ?i" using bisect_right_positive [OF _ pos u] by simp
  with len show ?thesis by (simp add: x)
qed

theorem weighted_pick_positive_witness:
  "fst (the (weighted_pick half_generator (pair_selector\<lparr>get_weight := \<lambda>r. of_nat (fst r)\<rparr>)
     [(0, 7, 0), (5, 8, 0)] (Some ()))) = (5, 8, 0)"
proof -
  let ?S = "pair_selector\<lparr>get_weight := \<lambda>r. of_nat (fst r)\<rparr>"
  let ?c = "[(0, 7, 0), (5, 8, 0)] :: (nat \<times> nat \<times> nat) list"
  from weighted_pick_mem [OF half_generator_ok, of ?c ?S "Some ()"]
  obtain x rng' where x: "weighted_pick half_generator ?S ?c (Some ()) = Some (x, rng')" by auto
  from weighted_pick_positive [OF half_generator_ok _ this] have "x \<in> set ?c \<and> 0 < get_weight ?S x"
    by simp
  then show ?thesis by (auto simp: x)
qed

end
