(* ===== verification/Entry_Balancer.thy ===== *)
theory Entry_Balancer
  imports Node_Display Route_Repository
begin

text \<open>
  \<open>services/balancer/entry.py\<close>: which entry node a user's traffic enters through.  The digest
  that breaks ties (SHA-256 of the user, the time bucket and the entry) is a parameter of the
  model; what the code relies on is only that it is a function.
\<close>

definition ENTRY_HEARTBEAT_STALE_SEC :: int where
  "ENTRY_HEARTBEAT_STALE_SEC = 90"

definition balancer_bucket :: "int \<Rightarrow> int \<Rightarrow> int option" where
  "balancer_bucket bucket_sec now_sec = (if bucket_sec \<le> 0 then None else Some (now_sec div bucket_sec))"

text \<open>Live loads: the totals per node, summed over the records of the bucket that name a node.\<close>

definition live_entry_loads :: "(uuid option \<times> int) list \<Rightarrow> (uuid \<rightharpoonup> int)" where
  "live_entry_loads stats =
     fold (\<lambda>(node, total) loads.
         case node of None \<Rightarrow> loads
         | Some i \<Rightarrow> loads(i \<mapsto> (case loads i of None \<Rightarrow> 0 | Some v \<Rightarrow> v) + total)) stats Map.empty"

definition is_entry_usable :: "db \<Rightarrow> time \<Rightarrow> vpn_node \<Rightarrow> bool" where
  "is_entry_usable s now e \<longleftrightarrow>
     is_active e \<and> is_enabled e \<and> \<not> is_draining e \<and>
     (is_virtual e \<or>
      (case agent_state_of s (row_id e) of
         None \<Rightarrow> True
       | Some a \<Rightarrow> is_healthy a \<and>
           (case last_seen_at a of
              None \<Rightarrow> False
            | Some seen \<Rightarrow> seen \<ge> now - usec ENTRY_HEARTBEAT_STALE_SEC)))"

definition entry_candidates ::
  "db \<Rightarrow> time \<Rightarrow> vpn_node \<Rightarrow> vpn_node option \<Rightarrow> (string \<times> vpn_node list) list \<Rightarrow> vpn_node list" where
  "entry_candidates s now backend current entries_by_zone =
     (let z = effective_zone (zone backend) (Some (region backend));
          in_zone = (case map_of entries_by_zone z of None \<Rightarrow> [] | Some es \<Rightarrow> es);
          with_current = (case current of
              Some c \<Rightarrow> if is_entry_usable s now c \<and> c \<notin> set in_zone then in_zone @ [c] else in_zone
            | None \<Rightarrow> in_zone);
          of_role = (case current of
              Some c \<Rightarrow> if role c \<noteq> [] then filter (\<lambda>e. role e = role c) with_current else with_current
            | None \<Rightarrow> with_current)
      in filter (is_entry_usable s now) of_role)"

definition select_entry_for_backend ::
  "('u \<Rightarrow> int option \<Rightarrow> uuid \<Rightarrow> nat) \<Rightarrow> db \<Rightarrow> time \<Rightarrow> vpn_node \<Rightarrow> vpn_node option \<Rightarrow> 'u
   \<Rightarrow> (string \<times> vpn_node list) list \<Rightarrow> (uuid \<rightharpoonup> int) \<Rightarrow> int option \<Rightarrow> vpn_node option" where
  "select_entry_for_backend tiebreak s now backend current user entries_by_zone loads bucket =
     (let candidates = entry_candidates s now backend current entries_by_zone in
      if candidates = []
      then (case current of
              Some c \<Rightarrow> if is_entry_usable s now c then Some c else None
            | None \<Rightarrow> None)
      else min_by (\<lambda>c. ((case loads (row_id c) of None \<Rightarrow> 0 | Some v \<Rightarrow> v), tiebreak user bucket (row_id c)))
             candidates)"

lemma entry_candidates_usable:
  "e \<in> set (entry_candidates s now b cur ez) \<Longrightarrow> is_entry_usable s now e"
  by (simp add: entry_candidates_def Let_def)

lemma entry_candidates_current:
  "is_entry_usable s now c \<Longrightarrow> c \<in> set (entry_candidates s now b (Some c) ez)"
  by (auto simp: entry_candidates_def Let_def split: option.splits)

lemma entry_candidates_role:
  "e \<in> set (entry_candidates s now b (Some c) ez) \<Longrightarrow> role c \<noteq> [] \<Longrightarrow> role e = role c"
  by (auto simp: entry_candidates_def Let_def split: if_splits option.splits)

lemma entry_candidates_zone:
  "e \<in> set (entry_candidates s now b cur ez) \<Longrightarrow> Some e \<noteq> cur \<Longrightarrow>
   \<exists>es. map_of ez (effective_zone (zone b) (Some (region b))) = Some es \<and> e \<in> set es"
  by (cases "map_of ez (effective_zone (zone b) (Some (region b)))"; cases cur)
     (auto simp: entry_candidates_def Let_def split: if_splits)



end
