(* ===== verification/Spec2Isabelle.thy ===== *)
theory Spec2Isabelle
  imports Control_Plane Scenarios Alerts Wg_Mesh Agent_Runtime Entry_Pool Placement_Service Route_Service Outbox Route_Selector Routing Entry_Balancer Node_Display
begin

text \<open>
  \<^bold>\<open>The program.\<close> The control plane of a VPN fleet. Users' keys are \<^emph>\<open>placed\<close> on backend nodes; entry nodes
  relay to backends; routes name the way from a user over an entry to a backend. Agents on the nodes
  send heartbeats, sync reports and results over a message broker and receive commands and snapshots;
  external probes report what they can reach; administrators use an HTTP API; reconcilers run
  periodically. All of them read and write one PostgreSQL database, each transaction by itself, and
  every message to a node goes through a transactional outbox.

  \<^bold>\<open>How the code is modelled.\<close> A table is the list of its rows, a row is a record that extends \<open>base\<close>
  (\<open>Models\<close>), and the database is the record \<open>db\<close>. A repository method is a function on \<open>db\<close>; a service
  method returns \<open>api_error + result\<close>, where an error rolls the transaction back, and where the code
  catches an exception after writing, the state is returned beside the error. Ids are natural numbers
  drawn from \<open>uuid_supply\<close>, times are integers in microseconds. What is outside the repository is a
  parameter: the broker and Telegram (what publishing gives), digests, random tokens and the random
  generator, the key-value buckets of the mesh. Logs and metrics are left out; events for the
  notification service are returned. A query without \<open>ORDER BY\<close> returns rows in the order of the table.

  \<^bold>\<open>The library.\<close>
  \<^item> \<open>Prelude\<close>: types, errors, list and sorting lemmas, the collection \<open>sys_ok\<close>, and the locale
    \<open>step_invariant\<close> (an invariant of a step relation holds in what is reachable), which every state
    machine below interprets.
  \<^item> \<open>Models\<close>, \<open>Repository\<close> (\<open>shared/database\<close>): rows and the statements every repository inherits;
    the locale \<open>repository\<close> is the contract of a keyed table.
  \<^item> \<open>Outbox\<close> (\<open>services/nodes/agent/repository.py\<close>, \<open>_publish_outbox_batch\<close>): enqueueing, claiming, publishing
    with backoff; the locale \<open>outbox_queue\<close> is what clients rely on. A batch settles every claimed row, and
    with a broker that accepts, the outbox drains.
  \<^item> \<open>Route_State_Machine\<close>, \<open>Route_Repository\<close>, \<open>Route_Service\<close> (\<open>services/routes\<close>): health of a route, its
    warm-up, the table constraints, all handlers and the two reconcilers. Health and weights stay
    coherent, a warm-up ends, automatic creation establishes exactly the wanted routes.
  \<^item> \<open>Route_Selector\<close>, \<open>Routing\<close> (\<open>services/routing\<close>), \<open>Entry_Balancer\<close> (\<open>services/balancer\<close>),
    \<open>Node_Display\<close> (\<open>shared/utils/node_display.py\<close>): which routes, nodes and entries a user gets.
  \<^item> \<open>Placements\<close>, \<open>Placement_Transport\<close>, \<open>Placement_Service\<close> (\<open>services/placements\<close>): versions of placements,
    commands for them, handlers and reconcilers. Versions only grow, a bulk report is the fold of single
    reports, commands never contradict the placement, a migration moves everyone.
  \<^item> \<open>Agent_Runtime\<close> (\<open>services/nodes/agent/runtime.py\<close>): results are applied exactly once, the chunks of a
    snapshot give back the snapshot.
  \<^item> \<open>Entry_Pool\<close>, \<open>Backend_Health\<close> (\<open>services/entry\<close>): assignments, the pool an entry relays to, and the
    announcement of every change.
  \<^item> \<open>Node_Heartbeat\<close>, \<open>Node_Admin\<close> (\<open>services/nodes/service.py\<close>, \<open>router.py\<close>, \<open>services/auth/dependencies.py\<close>),
    \<open>Wg_Mesh\<close> (\<open>services/wg\<close>), \<open>Alerts\<close> (\<open>services/alerts\<close>): reports of nodes and the exact history that drains
    one, bootstrap, tokens and roles, mesh addresses and peers, deduplicated alerts.
  \<^item> \<open>Probe_Signals\<close>, \<open>Auto_Heal\<close>, \<open>Probe_Drain\<close>, \<open>Entry_Drain\<close>, \<open>Probe_Ingestion\<close> (\<open>services/probe\<close>,
    \<open>services/nodes/auto_heal_service.py\<close>, \<open>services/entry/drain_service.py\<close>): the loops that take nodes and
    routes out of service and put them back. Each drains only what its evidence justifies, and the
    users who are left without a backend are moved.
  \<^item> \<open>Scenarios\<close> (\<open>services/scenarios\<close>): campaigns of messages; a user leaves every campaign without a cycle,
    no message id is used twice, and enrolling is idempotent. It has its own record of tables, since it
    shares none with the data plane.
  \<^item> \<open>Control_Plane\<close> puts the data-plane operations into one relation \<open>system_step\<close>, one transaction a
    step; the theorem below says what holds however they interleave.

  \<^bold>\<open>Invariants across components.\<close> \<open>sys_inv port\<close> is \<open>pools_ok\<close> (the latest announcement for every entry is
  its current pool) and \<open>transport_inv\<close> (commands in the outbox agree with the placements). Components
  contribute to \<open>sys_ok\<close> that their operations keep it. The step relation leaves out the rebalancing
  reconciler, which counts versions up and leaves the applied state of a placement
  (\<open>draining_placement_not_retried\<close>), and the operations that write other columns of a node: bootstrap,
  the administrator's updates and the mesh addresses, which do not all announce the pools they change;
  their own theories say what they do. Writers of the other tables enter as steps that leave nodes,
  assignments, placements and the outbox alone.

  \<^bold>\<open>Bounds.\<close> All definitions are total. Loops over rows are structural. The walk through a campaign has the
  source's own guard of 64 nodes as its argument. The selector's picking loops shrink a list of
  candidates. No fuel is invented.

  \<^bold>\<open>Findings.\<close> Lemmas at the end of several theories show behaviour that differs from what the code
  or its documentation intends, for example \<open>zero_weight_unblock_fails\<close>, \<open>entry_unblock_incoherent\<close>,
  \<open>unwanted_placement_covers\<close>, \<open>policy_beyond_request\<close>, \<open>endpoint_change_not_published\<close> and
  \<open>cyclic_scenario_reuses_ids\<close>.

  \<^bold>\<open>Not modelled.\<close> The commercial side (billing and its providers, plans, promo codes, referrals,
  finance), support, the bot and its texts, the administrators' login, console and audit log: they
  share no table with the data plane and rest on external protocols or are presentation. Keys,
  subscriptions and traffic accounting, except for the columns the modelled parts read. Client
  profiles, artifacts and the connection API, which render documents. The routing feed of the entries,
  zones, the reconcilers for upstream failover, snapshot freshness and broker health, and the editing of
  policies and campaigns. \<open>get_stats\<close> of the probes, which rounds floats. Routers, configuration, clients of
  the broker, Redis and S3, leader election, and the migrations, which are I/O or setup. Concurrency
  inside one transaction is not modelled: steps are whole transactions.
\<close>

section \<open>Properties that span the components\<close>

lemma sys_inv_informed:
  "sys_inv port s \<Longrightarrow> get_relay_pool port e s = Inr pool \<Longrightarrow> \<exists>a \<in> set (assignments s). eba_entry_node_id a = e \<Longrightarrow>
   announced_pool e s = Some pool"
  by (auto simp: sys_inv_def pools_ok_def pools_inv_def informed_def)

lemma sys_inv_command:
  assumes "sys_inv port s" "r \<in> set (outbox s)" "p \<in> set (placements s)"
    "ob_message_id r = PlacementCommandId (row_id p) v \<or> (\<exists>e. ob_message_id r = EntryPlacementCommandId (row_id p) v e)"
  shows "v \<le> op_version p \<and> (\<exists>c. ob_payload r = CommandPayload c \<and> cp_op_version c = v \<and>
    (v = op_version p \<longrightarrow> cp_desired_state c = desired_state p \<and> cp_backend_node_id c = backend_node_id p \<and> cp_key_id c = key_id p))"
proof -
  have "outbox_row_agrees s r" using assms(1,2) by (simp add: sys_inv_def transport_inv_def commands_agree_def list_all_iff)
  then have "command_agrees s (row_id p) v (ob_payload r)" using assms(4) by (auto simp: outbox_row_agrees_def)
  then show ?thesis
    using assms(3) by (cases "ob_payload r") (auto simp: command_agrees_def list_all_iff)
qed

text \<open>C1: However the transactions of the control plane interleave (heartbeats, sync reports, results and
  snapshot requests of agents, publication of the outbox, draining and enabling by hand, operations
  on assignments and placements, migrations, retries, the repair loop, draining by probes and the
  entry loop, and writes to the other tables), the two views of the data plane stay consistent: the
  latest announcement for every entry with assignments carries exactly the pool a query would
  return now, and no command in the outbox contradicts the placement it is about or runs ahead of
  its version.\<close>

theorem control_plane_consistent:
  assumes "sys_inv port s" "(system_step port)\<^sup>*\<^sup>* s s'"
  shows "(\<forall>e pool. get_relay_pool port e s' = Inr pool \<and> (\<exists>a \<in> set (assignments s'). eba_entry_node_id a = e) \<longrightarrow>
      announced_pool e s' = Some pool) \<and>
    (\<forall>r \<in> set (outbox s'). \<forall>p \<in> set (placements s'). \<forall>v.
      ob_message_id r = PlacementCommandId (row_id p) v \<or> (\<exists>e. ob_message_id r = EntryPlacementCommandId (row_id p) v e) \<longrightarrow>
      v \<le> op_version p \<and> (\<exists>c. ob_payload r = CommandPayload c \<and> cp_op_version c = v \<and>
        (v = op_version p \<longrightarrow> cp_desired_state c = desired_state p \<and> cp_backend_node_id c = backend_node_id p \<and>
           cp_key_id c = key_id p)))"
proof -
  have inv: "sys_inv port s'" using system_sm.steps_inv [OF assms(2,1)] .
  show ?thesis using sys_inv_informed [OF inv] sys_inv_command [OF inv] by blast
qed

lemma pool_nodes_sys: "sys_inv 443 pool_nodes_db"
proof -
  have "transport_inv (empty_db :: db)" by (simp add: transport_inv_def commands_agree_def)
  then have "transport_inv pool_nodes_db" by (rule transport_inv_elsewhere) (simp_all add: pool_nodes_db_def)
  then show ?thesis
    using pool_nodes_inv by (simp add: sys_inv_def pools_ok_def backends_typed_def) (simp add: pool_nodes_db_def)
qed

theorem control_plane_consistent_witness:
  "\<exists>s' pool. (system_step 443)\<^sup>*\<^sup>* pool_nodes_db s' \<and> announced_pool 1 s' = Some pool \<and>
     map rb_id (pool_backends pool) = [2]"
proof -
  obtain i s' pool where h: "assign_backend 443 5 1 sample_assign pool_nodes_db = Inr (i, s')"
    "\<exists>a \<in> set (assignments s'). eba_entry_node_id a = 1" "get_relay_pool 443 1 s' = Inr pool"
    "map rb_id (pool_backends pool) = [2]"
    using assign_sample by (elim exE conjE) (rule that)
  have steps: "(system_step 443)\<^sup>*\<^sup>* pool_nodes_db s'" using system_step.assign [OF h(1)] by (rule r_into_rtranclp)
  have "announced_pool 1 s' = Some pool" using control_plane_consistent [OF pool_nodes_sys steps] h(2,3) by blast
  with steps h(4) show ?thesis by (intro exI [of _ s'] exI [of _ pool] conjI)
qed

end
